(* ===== verification/Prelude.thy ===== *)
theory Prelude
  imports
    Main
    "HOL-Library.Char_ord"
    "HOL-Library.List_Lexorder"
    "HOL-Library.Product_Lexorder"
    "HOL-Library.Multiset"
begin

text \<open>
  Shared vocabulary of the development.

  \<^item> \<^bold>\<open>Errors.\<close> The Go code returns \<open>error\<close> values that callers classify with
    \<open>errors.Is\<close>. \<open>go_error\<close> has one constructor per sentinel of
    \<open>cli/internal/domain/errors.go\<close> (and of the files that declare further sentinels); an
    error built with \<open>fmt.Errorf("%w: ...", ErrX)\<close> is \<open>ErrX\<close>, its prose dropped; an error
    that wraps no sentinel is \<open>ErrText\<close> with its fixed prose.
    A validator is a \<open>check\<close> (\<open>None\<close> is the Go value nil); a function that returns a value and
    an error is a \<open>result\<close>.
  \<^item> \<^bold>\<open>Strings.\<close> A Go string is a sequence of bytes, so it is HOL's \<open>string\<close> (a list of
    8-bit characters); \<open><\<close> on it is the bytewise lexicographic order of Go.
    The helpers of the packages \<open>strings\<close>, \<open>strconv\<close> and \<open>encoding/hex\<close> the sources call
    are defined here on bytes. \<open>to_lower\<close> folds the ASCII letters and leaves other bytes
    alone; the sources apply it to object identifiers that are then required to be hexadecimal.
  \<^item> \<^bold>\<open>Times.\<close> A \<open>time.Time\<close> is an instant (nanoseconds since the zero time) and the rest
    of its representation (location, monotonic reading): \<open>Equal\<close>, \<open>Before\<close> and \<open>After\<close> read
    the instant, \<open>==\<close> and \<open>reflect.DeepEqual\<close> compare both parts.
  \<^item> \<^bold>\<open>Slices.\<close> Where the code can tell a nil slice from an empty one, the field is a
    \<open>slice\<close> (\<open>None\<close> is nil).
\<close>

named_theorems check_simps \<open>characteristic equations of validators\<close>

section \<open>Errors and results\<close>

datatype go_error =
    ErrNotFound
  | ErrHashMismatch
  | ErrInvalidCIR
  | ErrInvalidRef
  | ErrUnsupportedProvider
  | ErrUnsupportedCIRVersion
  | ErrSyncConflict
  | ErrContextProtocolRequired
  | ErrSelectionChanged
  | ErrStagingVersion
  | ErrUnsupportedDocumentIdentity
  | ErrCatalogResetRequired
  | ErrConversationManifest
  | ErrContextBudgetExceeded
  | ErrProviderCapabilityUnknown
  | ErrAgentContextUnavailable
  | ErrFrozenCaptureInput
  | PublicationBlocked string string string string
  | ErrText string
  | OutOfFuel

type_synonym check = "go_error option"

type_synonym 'a result = "go_error + 'a"

text \<open>A sequence of guards: the first failing one decides.\<close>

fun first_error :: "check list \<Rightarrow> check" where
  "first_error [] = None"
| "first_error (None # cs) = first_error cs"
| "first_error (Some e # cs) = Some e"

definition fail_if :: "bool \<Rightarrow> go_error \<Rightarrow> check" where
  "fail_if b e = (if b then Some e else None)"

definition check_then :: "check \<Rightarrow> 'a result \<Rightarrow> 'a result" where
  "check_then c r = (case c of Some e \<Rightarrow> Inl e | None \<Rightarrow> r)"

definition bind_r :: "'a result \<Rightarrow> ('a \<Rightarrow> 'b result) \<Rightarrow> 'b result" where
  "bind_r m f = (case m of Inl e \<Rightarrow> Inl e | Inr x \<Rightarrow> f x)"

definition check_of :: "'a result \<Rightarrow> check" where
  "check_of r = (case r of Inl e \<Rightarrow> Some e | Inr _ \<Rightarrow> None)"

definition is_ok :: "'a result \<Rightarrow> bool" where
  "is_ok r = (case r of Inl _ \<Rightarrow> False | Inr _ \<Rightarrow> True)"

section \<open>Slices and times\<close>

type_synonym 'a slice = "'a list option"

definition elems :: "'a slice \<Rightarrow> 'a list" where
  "elems s = (case s of None \<Rightarrow> [] | Some xs \<Rightarrow> xs)"

record gtime =
  instant :: int
  repr :: nat

definition time_is_zero :: "gtime \<Rightarrow> bool" where
  "time_is_zero t \<longleftrightarrow> instant t = 0"

section \<open>Byte strings\<close>

definition has_prefix :: "string \<Rightarrow> string \<Rightarrow> bool" where
  "has_prefix p s \<longleftrightarrow> take (length p) s = p"

definition has_suffix :: "string \<Rightarrow> string \<Rightarrow> bool" where
  "has_suffix p s \<longleftrightarrow> length p \<le> length s \<and> drop (length s - length p) s = p"

definition trim_prefix :: "string \<Rightarrow> string \<Rightarrow> string" where
  "trim_prefix p s = (if has_prefix p s then drop (length p) s else s)"

fun contains :: "string \<Rightarrow> string \<Rightarrow> bool" where
  "contains sub [] \<longleftrightarrow> sub = []"
| "contains sub (c # s) \<longleftrightarrow> has_prefix sub (c # s) \<or> contains sub s"

definition contains_any :: "string \<Rightarrow> string \<Rightarrow> bool" where
  "contains_any cs s \<longleftrightarrow> list_ex (\<lambda>c. c \<in> set cs) s"

fun split_on :: "char \<Rightarrow> string \<Rightarrow> string list" where
  "split_on c [] = [[]]"
| "split_on c (x # xs) =
     (if x = c then [] # split_on c xs
      else (case split_on c xs of [] \<Rightarrow> [[x]] | p # ps \<Rightarrow> (x # p) # ps))"

text \<open>\<open>strings.SplitN\<close> with a one-byte separator and a positive bound.\<close>

fun split_n :: "nat \<Rightarrow> char \<Rightarrow> string \<Rightarrow> string list" where
  "split_n 0 c s = []"
| "split_n (Suc 0) c s = [s]"
| "split_n (Suc (Suc n)) c s =
     (if c \<in> set s
      then takeWhile (\<lambda>x. x \<noteq> c) s # split_n (Suc n) c (tl (dropWhile (\<lambda>x. x \<noteq> c) s))
      else [s])"

definition lower_char :: "char \<Rightarrow> char" where
  "lower_char c =
     (let n = (of_char c :: nat) in if 65 \<le> n \<and> n \<le> 90 then char_of (n + 32) else c)"

definition to_lower :: "string \<Rightarrow> string" where
  "to_lower s = map lower_char s"

definition trim_set :: "string \<Rightarrow> string \<Rightarrow> string" where
  "trim_set cs s =
     rev (dropWhile (\<lambda>c. c \<in> set cs) (rev (dropWhile (\<lambda>c. c \<in> set cs) s)))"

definition in_range :: "char \<Rightarrow> char \<Rightarrow> char \<Rightarrow> bool" where
  "in_range lo hi c \<longleftrightarrow> lo \<le> c \<and> c \<le> hi"

definition is_digit :: "char \<Rightarrow> bool" where
  "is_digit c \<longleftrightarrow> in_range (CHR ''0'') (CHR ''9'') c"

definition is_lower_hex :: "char \<Rightarrow> bool" where
  "is_lower_hex c \<longleftrightarrow> is_digit c \<or> in_range (CHR ''a'') (CHR ''f'') c"

definition is_hex :: "char \<Rightarrow> bool" where
  "is_hex c \<longleftrightarrow> is_lower_hex c \<or> in_range (CHR ''A'') (CHR ''F'') c"

text \<open>\<open>hex.DecodeString\<close> succeeds on an even number of hexadecimal digits.\<close>

definition hex_ok :: "string \<Rightarrow> bool" where
  "hex_ok s \<longleftrightarrow> even (length s) \<and> list_all is_hex s"

section \<open>Lemmas shared by the components\<close>

lemma first_error_None [simp, check_simps]:
  "first_error cs = None \<longleftrightarrow> (\<forall>c \<in> set cs. c = None)"
  by (induction cs rule: first_error.induct) auto

lemma first_error_Some: "first_error cs = Some e \<Longrightarrow> Some e \<in> set cs"
  by (induction cs rule: first_error.induct) auto

lemma fail_if_None [simp, check_simps]: "fail_if b e = None \<longleftrightarrow> \<not> b"
  by (simp add: fail_if_def)

lemma fail_if_simps [simp]: "fail_if True e = Some e" "fail_if False e = None"
  by (simp_all add: fail_if_def)

lemma check_then_Inr [simp, check_simps]:
  "check_then c r = Inr x \<longleftrightarrow> c = None \<and> r = Inr x"
  by (cases c) (simp_all add: check_then_def)

lemma check_then_simps [simp]:
  "check_then None r = r" "check_then (Some e) r = Inl e"
  by (simp_all add: check_then_def)

lemma bind_r_Inr [simp, check_simps]:
  "bind_r m f = Inr y \<longleftrightarrow> (\<exists>x. m = Inr x \<and> f x = Inr y)"
  by (cases m) (simp_all add: bind_r_def)

lemma bind_r_simps [simp]: "bind_r (Inl e) f = Inl e" "bind_r (Inr x) f = f x"
  by (simp_all add: bind_r_def)

lemma check_of_None [simp, check_simps]: "check_of r = None \<longleftrightarrow> (\<exists>x. r = Inr x)"
  by (cases r) (simp_all add: check_of_def)

lemma is_ok_iff [simp]: "is_ok r \<longleftrightarrow> (\<exists>x. r = Inr x)"
  by (cases r) (simp_all add: is_ok_def)

lemma elems_simps [simp]: "elems None = []" "elems (Some xs) = xs"
  by (simp_all add: elems_def)

lemma has_prefix_append [simp]: "has_prefix p (p @ s)"
  by (simp add: has_prefix_def)

lemma has_prefix_iff: "has_prefix p s \<longleftrightarrow> (\<exists>t. s = p @ t)"
  by (metis append_eq_conv_conj append_take_drop_id has_prefix_def)

lemma trim_prefix_append [simp]: "trim_prefix p (p @ s) = s"
  by (simp add: trim_prefix_def)

lemma has_suffix_iff: "has_suffix p s \<longleftrightarrow> (\<exists>t. s = t @ p)"
proof
  assume "has_suffix p s"
  then have "s = take (length s - length p) s @ p"
    by (metis append_take_drop_id has_suffix_def)
  then show "\<exists>t. s = t @ p" by blast
qed (auto simp: has_suffix_def)

lemma contains_iff: "contains sub s \<longleftrightarrow> (\<exists>a b. s = a @ sub @ b)"
proof (induction s)
  case (Cons c s)
  show ?case
  proof
    assume "contains sub (c # s)"
    then consider "has_prefix sub (c # s)" | "contains sub s" by auto
    then show "\<exists>a b. c # s = a @ sub @ b"
    proof cases
      case 1
      then obtain t where "c # s = [] @ sub @ t" by (auto simp: has_prefix_iff)
      then show ?thesis by blast
    next
      case 2
      with Cons obtain a b where "c # s = (c # a) @ sub @ b" by auto
      then show ?thesis by blast
    qed
  next
    assume "\<exists>a b. c # s = a @ sub @ b"
    then obtain a b where ab: "c # s = a @ sub @ b" by blast
    show "contains sub (c # s)"
    proof (cases a)
      case Nil
      with ab have "has_prefix sub (c # s)" by (simp add: has_prefix_def)
      then show ?thesis by simp
    next
      case (Cons x a')
      with ab have "s = a' @ sub @ b" by simp
      then show ?thesis using Cons.IH by auto
    qed
  qed
qed auto

lemma trim_set_Nil [simp]: "trim_set cs s = [] \<longleftrightarrow> set s \<subseteq> set cs"
proof -
  have "trim_set cs s = [] \<longleftrightarrow> set (dropWhile (\<lambda>c. c \<in> set cs) s) \<subseteq> set cs"
    by (auto simp: trim_set_def dropWhile_eq_Nil_conv)
  also have "\<dots> \<longleftrightarrow> set s \<subseteq> set cs"
    by (induction s) auto
  finally show ?thesis .
qed

lemma split_on_not_Nil [simp]: "split_on c s \<noteq> []"
  by (induction s) (auto split: list.splits)

lemma split_on_sep_free: "p \<in> set (split_on c s) \<Longrightarrow> c \<notin> set p"
  by (induction s arbitrary: p) (auto split: if_splits list.splits)

lemma split_on_free [simp]: "c \<notin> set s \<Longrightarrow> split_on c s = [s]"
  by (induction s) auto

fun join :: "char \<Rightarrow> string list \<Rightarrow> string" where
  "join c [] = []"
| "join c [p] = p"
| "join c (p # q # ps) = p @ c # join c (q # ps)"

lemma join_cons_head [simp]: "join c ((x # p) # ps) = x # join c (p # ps)"
  by (cases ps) simp_all

lemma join_cons_empty: "ps \<noteq> [] \<Longrightarrow> join c ([] # ps) = c # join c ps"
  by (cases ps) simp_all

lemma join_split_on [simp]: "join c (split_on c s) = s"
proof (induction s)
  case (Cons x s)
  show ?case
  proof (cases "split_on c s")
    case (Cons p ps)
    with \<open>join c (split_on c s) = s\<close> show ?thesis by (auto simp: join_cons_empty)
  qed simp
qed simp

lemma lower_hex_lower: "is_lower_hex c \<Longrightarrow> lower_char c = c"
proof -
  assume "is_lower_hex c"
  then have "(of_char c :: nat) \<le> 57 \<or> 97 \<le> (of_char c :: nat)"
    unfolding is_lower_hex_def is_digit_def in_range_def less_eq_char_def by auto
  then show ?thesis by (auto simp: lower_char_def Let_def)
qed

lemma lower_upper_hex: "in_range (CHR ''A'') (CHR ''F'') c \<Longrightarrow> lower_char c \<noteq> c"
proof
  assume "in_range (CHR ''A'') (CHR ''F'') c" and eq: "lower_char c = c"
  then have "65 \<le> (of_char c :: nat)" and "(of_char c :: nat) \<le> 70"
    unfolding in_range_def less_eq_char_def by auto
  then have "(of_char (lower_char c) :: nat) = of_char c + 32"
    by (simp add: lower_char_def Let_def)
  with eq show False by simp
qed

lemma lower_hex_iff:
  "list_all is_lower_hex s \<longleftrightarrow> list_all is_hex s \<and> to_lower s = s"
proof (induction s)
  case (Cons c s)
  then show ?case
    using lower_hex_lower [of c] lower_upper_hex [of c] by (auto simp: is_hex_def to_lower_def)
qed (simp add: to_lower_def)

lemma lower_hex_not_upper: "to_lower s = s \<Longrightarrow> list_all is_hex s \<Longrightarrow> list_all is_lower_hex s"
  by (simp add: lower_hex_iff)

section \<open>Machine integers\<close>

text \<open>A Go \<open>int\<close> or \<open>int64\<close>: the wrap-around of a result, and the range of the type.\<close>

definition int64 :: "int \<Rightarrow> int" where
  "int64 x = (x + 2 ^ 63) mod 2 ^ 64 - 2 ^ 63"

definition in_int64 :: "int \<Rightarrow> bool" where
  "in_int64 x \<longleftrightarrow> - (2 ^ 63) \<le> x \<and> x < 2 ^ 63"

lemma int64_id [simp]: "in_int64 x \<Longrightarrow> int64 x = x"
  by (simp add: int64_def in_int64_def)

lemma in_int64_int64 [simp]: "in_int64 (int64 x)"
  by (auto simp: int64_def in_int64_def algebra_simps)

end
