(* ===== verification/Hashing.thy ===== *)
theory Hashing
  imports Prelude "HOL-Library.Word"
begin

text \<open>
  Content addressing (\<open>cli/internal/domain/hash.go\<close>): the SHA-256 digest of the Go standard
  library (\<open>crypto/sha256\<close>, FIPS 180-4, on byte strings and 32-bit words), its hexadecimal
  rendering, \<open>HashContent\<close>, and the derived identity \<open>LegacyContextBranchID\<close>
  (\<open>context_branch.go\<close>). The digest is executable: it is a definition, not a parameter.
\<close>

unbundle bit_operations_syntax

type_synonym u32 = "32 word"

definition rotr :: "nat \<Rightarrow> u32 \<Rightarrow> u32" where
  "rotr n x = drop_bit n x OR push_bit (32 - n) x"

text \<open>
  The round constants and the initial state are the first 32 fractional bits of the cube roots of
  the first 64 primes and of the square roots of the first 8: \<open>iroot k n\<close> is the integer \<open>k\<close>-th
  root of \<open>n\<close>, found bit by bit, and \<open>of_int\<close> keeps the low 32 bits.
\<close>

definition iroot :: "nat \<Rightarrow> int \<Rightarrow> int" where
  "iroot k n = foldl (\<lambda>r b. if (r + 2 ^ b) ^ k \<le> n then r + 2 ^ b else r) 0 (rev [0..<36])"

definition sha_primes :: "nat list" where
  "sha_primes = filter (\<lambda>p. list_all (\<lambda>d. p mod d \<noteq> 0) [2..<p]) [2..<312]"

definition sha_K :: "u32 list" where
  "sha_K = map (\<lambda>p. of_int (iroot 3 (int p * 2 ^ 96))) sha_primes"

definition sha_H0 :: "u32 list" where
  "sha_H0 = map (\<lambda>p. of_int (iroot 2 (int p * 2 ^ 64))) [2, 3, 5, 7, 11, 13, 17, 19]"

definition byte_at :: "nat \<Rightarrow> 'a::len word \<Rightarrow> char" where
  "byte_at k w =
     Char (bit w k) (bit w (k + 1)) (bit w (k + 2)) (bit w (k + 3))
          (bit w (k + 4)) (bit w (k + 5)) (bit w (k + 6)) (bit w (k + 7))"

definition sha_pad :: "string \<Rightarrow> string" where
  "sha_pad msg =
     (let bits = (of_nat (8 * length msg) :: 64 word)
      in msg @ [CHR 0x80] @ replicate ((119 - length msg mod 64) mod 64) (CHR 0x00) @
         map (\<lambda>k. byte_at k bits) [56, 48, 40, 32, 24, 16, 8, 0])"

fun sha_words :: "string \<Rightarrow> u32 list" where
  "sha_words (a # b # c # d # s) =
     (push_bit 24 (of_char a) OR push_bit 16 (of_char b) OR push_bit 8 (of_char c) OR of_char d)
     # sha_words s"
| "sha_words s = []"

text \<open>The message schedule, most recent word first.\<close>

fun sha_schedule :: "nat \<Rightarrow> u32 list \<Rightarrow> u32 list" where
  "sha_schedule 0 ws = ws"
| "sha_schedule (Suc n) ws =
     (let w2 = ws ! 1; w15 = ws ! 14;
          s0 = rotr 7 w15 XOR rotr 18 w15 XOR drop_bit 3 w15;
          s1 = rotr 17 w2 XOR rotr 19 w2 XOR drop_bit 10 w2
      in sha_schedule n ((s1 + ws ! 6 + s0 + ws ! 15) # ws))"

fun sha_round :: "u32 list \<Rightarrow> u32 \<times> u32 \<Rightarrow> u32 list" where
  "sha_round [a, b, c, d, e, f, g, h] (k, w) =
     (let t1 = h + (rotr 6 e XOR rotr 11 e XOR rotr 25 e) + ((e AND f) XOR (NOT e AND g)) + k + w;
          t2 = (rotr 2 a XOR rotr 13 a XOR rotr 22 a) + ((a AND b) XOR (a AND c) XOR (b AND c))
      in [t1 + t2, a, b, c, d + t1, e, f, g])"
| "sha_round st kw = st"

definition sha_block :: "u32 list \<Rightarrow> u32 list \<Rightarrow> u32 list" where
  "sha_block st ws =
     map2 (+) st (foldl sha_round st (zip sha_K (rev (sha_schedule 48 (rev ws)))))"

fun sha_blocks :: "nat \<Rightarrow> u32 list \<Rightarrow> u32 list \<Rightarrow> u32 list" where
  "sha_blocks 0 st ws = st"
| "sha_blocks (Suc n) st ws = sha_blocks n (sha_block st (take 16 ws)) (drop 16 ws)"

definition sha256 :: "string \<Rightarrow> string" where
  "sha256 msg =
     (let ws = sha_words (sha_pad msg)
      in concat (map (\<lambda>w. [byte_at 24 w, byte_at 16 w, byte_at 8 w, byte_at 0 w]) (sha_blocks (length ws div 16) sha_H0 ws)))"

definition hex_digit :: "nat \<Rightarrow> char" where
  "hex_digit n = ''0123456789abcdef'' ! n"

definition hex_encode :: "string \<Rightarrow> string" where
  "hex_encode s = concat (map (\<lambda>c. [hex_digit (of_char c div 16), hex_digit (of_char c mod 16)]) s)"

definition HashContent :: "string \<Rightarrow> string" where
  "HashContent data = ''sha256:'' @ hex_encode (sha256 data)"

definition LegacyContextBranchID :: "string \<Rightarrow> string \<Rightarrow> string" where
  "LegacyContextBranchID repo name =
     ''legacy-'' @ hex_encode (take 16 (sha256 (repo @ [CHR 0x00] @ name)))"

section \<open>Shape of digests\<close>

lemma length_sha_round [simp]: "length (sha_round st kw) = length st"
  by (cases "(st, kw)" rule: sha_round.cases) (auto simp: Let_def)

lemma length_sha_rounds [simp]: "length (foldl sha_round st kws) = length st"
  by (induction kws arbitrary: st) simp_all

lemma length_sha_blocks [simp]: "length (sha_blocks n st ws) = length st"
  by (induction n arbitrary: st ws) (simp_all add: sha_block_def)

lemma length_sha256 [simp]: "length (sha256 msg) = 32"
  by (simp add: sha256_def Let_def length_concat comp_def sum_list_triv sha_H0_def)

lemma length_hex_encode [simp]: "length (hex_encode s) = 2 * length s"
  by (simp add: hex_encode_def length_concat comp_def sum_list_triv)

lemma is_lower_hex_digit: "n < 16 \<Longrightarrow> is_lower_hex (hex_digit n)"
proof -
  assume "n < 16"
  then have "hex_digit n \<in> set ''0123456789abcdef''"
    unfolding hex_digit_def by (intro nth_mem) simp
  moreover have "\<forall>c \<in> set ''0123456789abcdef''. is_lower_hex c"
    by (simp add: is_lower_hex_def is_digit_def in_range_def)
  ultimately show ?thesis by blast
qed

lemma hex_encode_lower [simp]: "list_all is_lower_hex (hex_encode s)"
proof (induction s)
  case (Cons c s)
  have "(of_char c :: nat) < 256" by simp
  then have "(of_char c :: nat) div 16 < 16" by (simp only: less_mult_imp_div_less)
  then show ?case using Cons by (simp add: hex_encode_def is_lower_hex_digit)
qed (simp add: hex_encode_def)

end
