(* ===== verification/Refs.thy ===== *)
theory Refs
  imports Hashing
begin

text \<open>
  References and the branch lifecycle log (\<open>cli/internal/domain/values.go\<close>,
  \<open>branch_lifecycle.go\<close>, and the type \<open>Ref\<close> of \<open>entities.go\<close>).

  A branch is archived or reopened by an immutable tag whose name encodes a generation
  (\<open>uint64\<close>, here a 64-bit word), a state, the observed target and the branch. The theory models
  the validators of hashes and ref names, the printer and the parser of lifecycle tags, the
  election of the latest event of a branch (per branch, and for all branches in one pass), the
  generation counter and the projection of the refs a client may see.
  The parser returns Go's triple (event, recognised, error) as a result: \<open>Inr None\<close> is "not a
  lifecycle tag", \<open>Inl\<close> a recognised but malformed one.
\<close>

section \<open>Content hashes\<close>

definition ValidateContentHash :: "string \<Rightarrow> check" where
  "ValidateContentHash h = first_error
     [fail_if (length h \<noteq> length ''sha256:'' + 64 \<or> \<not> has_prefix ''sha256:'' h) ErrHashMismatch,
      fail_if (\<not> list_all is_lower_hex (drop (length ''sha256:'') h)) ErrHashMismatch]"

definition ValidateOptionalContentHash :: "string \<Rightarrow> check" where
  "ValidateOptionalContentHash h = (if h = [] then None else ValidateContentHash h)"

definition ContentHashHex :: "string \<Rightarrow> string result" where
  "ContentHashHex h = check_then (ValidateContentHash h) (Inr (drop (length ''sha256:'') h))"

section \<open>Ref names\<close>

definition ValidateRefKind :: "string \<Rightarrow> check" where
  "ValidateRefKind kind =
     fail_if (kind \<notin> {''head'', ''branch'', ''session'', ''tag''}) ErrInvalidRef"

definition bad_part :: "string \<Rightarrow> bool" where
  "bad_part part \<longleftrightarrow> part = [] \<or> part = ''.'' \<or> part = ''..''
     \<or> has_prefix ''.'' part \<or> has_suffix ''.lock'' part"

definition bad_ref_char :: "char \<Rightarrow> bool" where
  "bad_ref_char r \<longleftrightarrow> r \<le> CHR '' '' \<or> r = CHR 0x7F \<or> r \<in> set ''~^:?*[''"

definition ValidateBranchName :: "string \<Rightarrow> check" where
  "ValidateBranchName name = first_error
     [fail_if (name = [] \<or> 1024 < length name) ErrInvalidRef,
      fail_if (has_prefix ''-'' name) ErrInvalidRef,
      fail_if (has_prefix ''/'' name \<or> has_suffix ''/'' name \<or> contains ''//'' name) ErrInvalidRef,
      fail_if (contains [CHR 0x5C] name \<or> contains ''..'' name \<or> contains [CHR 0x40, CHR 0x7B] name
               \<or> name = ''@'' \<or> has_suffix ''.'' name) ErrInvalidRef,
      fail_if (list_ex bad_part (split_on (CHR ''/'') name)) ErrInvalidRef,
      fail_if (list_ex bad_ref_char name) ErrInvalidRef]"

section \<open>Decimal generations\<close>

fun decimal :: "nat \<Rightarrow> string" where
  "decimal n = (if n < 10 then [char_of (48 + n)] else decimal (n div 10) @ [char_of (48 + n mod 10)])"

declare decimal.simps [simp del]

text \<open>\<open>fmt.Sprintf("%020d", n)\<close>\<close>

definition sprintf_020d :: "64 word \<Rightarrow> string" where
  "sprintf_020d g =
     (let d = decimal (unat g) in replicate (20 - length d) (CHR ''0'') @ d)"

definition digits_value :: "string \<Rightarrow> nat" where
  "digits_value s = foldl (\<lambda>n c. 10 * n + (of_char c - 48)) 0 s"

text \<open>\<open>strconv.ParseUint(s, 10, 64)\<close>; None is its error.\<close>

definition parse_uint64 :: "string \<Rightarrow> 64 word option" where
  "parse_uint64 s =
     (if s = [] \<or> \<not> list_all is_digit s \<or> 2 ^ 64 \<le> digits_value s then None
      else Some (of_nat (digits_value s)))"

section \<open>Refs and lifecycle events\<close>

record Ref =
  ref_BranchID :: string
  ref_Kind :: string
  ref_Name :: string
  ref_RepoID :: string
  ref_Target :: string
  ref_Symbolic :: string

record BranchLifecycleEvent =
  ble_Branch :: string
  ble_Generation :: "64 word"
  ble_State :: string
  ble_Target :: string
  ble_Ref :: Ref

definition empty_ref :: Ref where
  "empty_ref = \<lparr>ref_BranchID = [], ref_Kind = [], ref_Name = [], ref_RepoID = [],
                ref_Target = [], ref_Symbolic = []\<rparr>"

definition BranchLifecycleTagPrefix :: string where
  "BranchLifecycleTagPrefix = ''cxt/branch-state/v1/''"

definition lifecycle_state :: "string \<Rightarrow> bool" where
  "lifecycle_state s \<longleftrightarrow> s = ''active'' \<or> s = ''archived''"

definition parse_lifecycle_parts :: "string list \<Rightarrow> BranchLifecycleEvent result" where
  "parse_lifecycle_parts parts =
     (if length parts \<noteq> 4 \<or> length (parts ! 0) \<noteq> 20 then Inl ErrInvalidRef
      else case parse_uint64 (parts ! 0) of
        None \<Rightarrow> Inl ErrInvalidRef
      | Some generation \<Rightarrow>
          let target = ''sha256:'' @ parts ! 2 in
          check_then (first_error
            [fail_if (generation = 0 \<or> sprintf_020d generation \<noteq> parts ! 0) ErrInvalidRef,
             fail_if (\<not> lifecycle_state (parts ! 1)) ErrInvalidRef,
             fail_if (length (parts ! 2) \<noteq> 64 \<or> parts ! 2 \<noteq> to_lower (parts ! 2)) ErrInvalidRef,
             ValidateContentHash target,
             ValidateBranchName (parts ! 3)])
            (Inr \<lparr>ble_Branch = parts ! 3, ble_Generation = generation, ble_State = parts ! 1,
                  ble_Target = target, ble_Ref = empty_ref\<rparr>))"

definition parseBranchLifecycleTagName :: "string \<Rightarrow> BranchLifecycleEvent option result" where
  "parseBranchLifecycleTagName name =
     (if \<not> has_prefix BranchLifecycleTagPrefix name then Inr None
      else bind_r
        (parse_lifecycle_parts (split_n 4 (CHR ''/'') (trim_prefix BranchLifecycleTagPrefix name)))
        (\<lambda>event. Inr (Some event)))"

definition ValidateRefName :: "string \<Rightarrow> string \<Rightarrow> check" where
  "ValidateRefName kind name =
     (case ValidateRefKind kind of
        Some e \<Rightarrow> Some e
      | None \<Rightarrow>
          if kind = ''head'' then fail_if (name \<noteq> ''HEAD'') ErrInvalidRef
          else if kind = ''tag'' \<and> has_prefix BranchLifecycleTagPrefix name
            then check_of (parseBranchLifecycleTagName name)
          else ValidateBranchName name)"

definition ValidateRef :: "Ref \<Rightarrow> check" where
  "ValidateRef ref = first_error
     [fail_if (128 < length (ref_BranchID ref) \<or> contains_any [CHR 0x0D, CHR 0x0A] (ref_BranchID ref))
        (ErrText ''invalid branch identity''),
      ValidateRefName (ref_Kind ref) (ref_Name ref),
      (if ref_Kind ref = ''head'' then first_error
         [ValidateOptionalContentHash (ref_Target ref),
          (if ref_Symbolic ref \<noteq> [] then first_error
             [fail_if (ref_Target ref \<noteq> []) ErrInvalidRef,
              ValidateBranchName (trim_prefix ''refs/heads/'' (ref_Symbolic ref))]
           else fail_if (ref_Target ref = []) ErrInvalidRef)]
       else first_error
         [fail_if (ref_Target ref = []) ErrInvalidRef,
          ValidateContentHash (ref_Target ref)])]"

definition NewBranchLifecycleRef ::
  "string \<Rightarrow> string \<Rightarrow> string \<Rightarrow> 64 word \<Rightarrow> string \<Rightarrow> Ref result" where
  "NewBranchLifecycleRef repoID branch target generation state =
     check_then (first_error
       [ValidateBranchName branch,
        ValidateContentHash target,
        fail_if (generation = 0 \<or> \<not> lifecycle_state state) ErrInvalidRef])
       (let name = BranchLifecycleTagPrefix @ sprintf_020d generation @ ''/'' @ state @ ''/''
                   @ trim_prefix ''sha256:'' target @ ''/'' @ branch;
            ref = empty_ref\<lparr>ref_Kind := ''tag'', ref_Name := name, ref_RepoID := repoID,
                            ref_Target := target\<rparr>
        in check_then (ValidateRef ref) (Inr ref))"

definition ParseBranchLifecycleRef :: "Ref \<Rightarrow> BranchLifecycleEvent option result" where
  "ParseBranchLifecycleRef ref =
     (if ref_Kind ref \<noteq> ''tag'' then Inr None
      else bind_r (parseBranchLifecycleTagName (ref_Name ref)) (\<lambda>parsed.
        case parsed of
          None \<Rightarrow> Inr None
        | Some event \<Rightarrow>
            if ref_Target ref \<noteq> ble_Target event then Inl ErrInvalidRef
            else Inr (Some (event\<lparr>ble_Ref := ref\<rparr>))))"

section \<open>The latest event of a branch\<close>

definition branchLifecycleLater :: "BranchLifecycleEvent \<Rightarrow> BranchLifecycleEvent \<Rightarrow> bool" where
  "branchLifecycleLater left right =
     (if ble_Generation left \<noteq> ble_Generation right
        then ble_Generation right < ble_Generation left
      else if ble_State left \<noteq> ble_State right then ble_State left = ''active''
      else if ble_Target left \<noteq> ble_Target right then ble_Target right < ble_Target left
      else ref_Name (ble_Ref right) < ref_Name (ble_Ref left))"

text \<open>One iteration of the loop of \<open>LatestBranchLifecycle\<close>: the latest event so far, if found.\<close>

definition latest_step ::
  "string \<Rightarrow> BranchLifecycleEvent option \<Rightarrow> BranchLifecycleEvent option
   \<Rightarrow> BranchLifecycleEvent option" where
  "latest_step branch parsed latest =
     (case parsed of
        None \<Rightarrow> latest
      | Some event \<Rightarrow>
          if ble_Branch event \<noteq> branch then latest
          else (case latest of
                  None \<Rightarrow> Some event
                | Some cur \<Rightarrow> if branchLifecycleLater event cur then Some event else latest))"

fun latest_loop ::
  "string \<Rightarrow> Ref list \<Rightarrow> BranchLifecycleEvent option \<Rightarrow> BranchLifecycleEvent option result" where
  "latest_loop branch [] latest = Inr latest"
| "latest_loop branch (ref # refs) latest =
     bind_r (ParseBranchLifecycleRef ref)
       (\<lambda>parsed. latest_loop branch refs (latest_step branch parsed latest))"

definition LatestBranchLifecycle ::
  "Ref list \<Rightarrow> string \<Rightarrow> BranchLifecycleEvent option result" where
  "LatestBranchLifecycle refs branch = latest_loop branch refs None"

definition states_step ::
  "BranchLifecycleEvent option \<Rightarrow> (string \<rightharpoonup> BranchLifecycleEvent)
   \<Rightarrow> (string \<rightharpoonup> BranchLifecycleEvent)" where
  "states_step parsed states =
     (case parsed of
        None \<Rightarrow> states
      | Some event \<Rightarrow>
          (case states (ble_Branch event) of
             None \<Rightarrow> states(ble_Branch event \<mapsto> event)
           | Some current \<Rightarrow>
               if branchLifecycleLater event current then states(ble_Branch event \<mapsto> event)
               else states))"

fun states_loop ::
  "Ref list \<Rightarrow> (string \<rightharpoonup> BranchLifecycleEvent) \<Rightarrow> (string \<rightharpoonup> BranchLifecycleEvent) result" where
  "states_loop [] states = Inr states"
| "states_loop (ref # refs) states =
     bind_r (ParseBranchLifecycleRef ref) (\<lambda>parsed. states_loop refs (states_step parsed states))"

definition BranchLifecycleStates :: "Ref list \<Rightarrow> (string \<rightharpoonup> BranchLifecycleEvent) result" where
  "BranchLifecycleStates refs = states_loop refs Map.empty"

definition branch_refs :: "Ref list \<Rightarrow> (string \<rightharpoonup> Ref)" where
  "branch_refs refs =
     foldl (\<lambda>branches ref. if ref_Kind ref = ''branch'' then branches(ref_Name ref \<mapsto> ref) else branches)
       Map.empty refs"

definition hidden_ref :: "(string \<rightharpoonup> BranchLifecycleEvent) \<Rightarrow> Ref \<Rightarrow> bool" where
  "hidden_ref states ref \<longleftrightarrow>
     ref_Kind ref = ''branch'' \<and>
     (case states (ref_Name ref) of
        None \<Rightarrow> False
      | Some latest \<Rightarrow> ble_State latest = ''archived'' \<and> ble_Target latest = ref_Target ref)"

definition expose_head ::
  "(string \<rightharpoonup> BranchLifecycleEvent) \<Rightarrow> (string \<rightharpoonup> Ref) \<Rightarrow> Ref \<Rightarrow> Ref" where
  "expose_head states branches ref =
     (if ref_Kind ref = ''head'' \<and> ref_Symbolic ref \<noteq> [] then
        let branch = trim_prefix ''refs/heads/'' (ref_Symbolic ref) in
        case states branch of
          None \<Rightarrow> ref
        | Some latest \<Rightarrow>
            if ble_State latest = ''archived'' \<and>
               (case branches branch of None \<Rightarrow> True | Some raw \<Rightarrow> ref_Target raw = ble_Target latest)
            then ref\<lparr>ref_Symbolic := [], ref_Target := ble_Target latest\<rparr>
            else ref
      else ref)"

definition ProjectBranchLifecycleRefs :: "Ref list \<Rightarrow> Ref list result" where
  "ProjectBranchLifecycleRefs refs =
     bind_r (BranchLifecycleStates refs) (\<lambda>states.
       Inr (map (expose_head states (branch_refs refs))
              (filter (\<lambda>ref. \<not> hidden_ref states ref) refs)))"

definition NextBranchLifecycleGeneration :: "Ref list \<Rightarrow> string \<Rightarrow> 64 word result" where
  "NextBranchLifecycleGeneration refs branch =
     bind_r (LatestBranchLifecycle refs branch) (\<lambda>latest.
       case latest of
         None \<Rightarrow> Inr 1
       | Some event \<Rightarrow>
           if ble_Generation event = - 1 then Inl ErrInvalidRef else Inr (ble_Generation event + 1))"

section \<open>Hashes and branch names\<close>

lemma ValidateContentHash_iff [check_simps]:
  "ValidateContentHash h = None \<longleftrightarrow>
     (\<exists>x. h = ''sha256:'' @ x \<and> length x = 64 \<and> list_all is_lower_hex x)"
  by (auto simp: ValidateContentHash_def has_prefix_iff)

lemma HashContent_valid: "ValidateContentHash (HashContent d) = None"
  by (simp add: ValidateContentHash_iff HashContent_def)

lemma ContentHashHex_Inr [check_simps]:
  "ContentHashHex h = Inr x \<longleftrightarrow> h = ''sha256:'' @ x \<and> length x = 64 \<and> list_all is_lower_hex x"
  by (auto simp: ContentHashHex_def ValidateContentHash_iff)

section \<open>Decimal numbers\<close>

lemma is_digit_char [simp]: "k < 10 \<Longrightarrow> is_digit (char_of (48 + k :: nat))"
  by (simp add: is_digit_def in_range_def less_eq_char_def)

lemma digits_value_snoc: "digits_value (s @ [c]) = 10 * digits_value s + (of_char c - 48)"
  by (simp add: digits_value_def)

lemma digits_value_decimal [simp]: "digits_value (decimal n) = n"
proof (induction n rule: decimal.induct)
  case (1 n)
  then show ?case
    by (cases "n < 10") (simp_all add: decimal.simps [of n] digits_value_snoc digits_value_def)
qed

lemma decimal_digits [simp]: "list_all is_digit (decimal n)"
proof (induction n rule: decimal.induct)
  case (1 n)
  then show ?case by (cases "n < 10") (simp_all add: decimal.simps [of n])
qed

lemma decimal_not_Nil [simp]: "decimal n \<noteq> []"
  by (simp add: decimal.simps [of n])

lemma length_decimal: "n < 10 ^ k \<Longrightarrow> 0 < k \<Longrightarrow> length (decimal n) \<le> k"
proof (induction k arbitrary: n)
  case (Suc k)
  then show ?case
    by (cases "n < 10"; cases k) (auto simp: decimal.simps [of n] less_mult_imp_div_less mult.commute)
qed simp

lemma digits_value_zeros [simp]:
  "digits_value (replicate k (CHR ''0'') @ s) = digits_value s"
  by (induction k) (simp_all add: digits_value_def)

lemma unat_lt_20: "unat (g :: 64 word) < 10 ^ 20"
  using unsigned_less [of g, where 'a = nat] by simp

lemma sprintf_020d_length [simp]: "length (sprintf_020d g) = 20"
  using length_decimal [OF unat_lt_20, of g] by (simp add: sprintf_020d_def Let_def)

lemma sprintf_020d_digits: "list_all is_digit (sprintf_020d g)"
  by (auto simp: sprintf_020d_def Let_def list_all_iff is_digit_def in_range_def
        dest: decimal_digits [unfolded list_all_iff is_digit_def in_range_def, rule_format])

lemma parse_sprintf [simp]: "parse_uint64 (sprintf_020d g) = Some g"
proof -
  have "digits_value (sprintf_020d g) = unat g" by (simp add: sprintf_020d_def Let_def)
  moreover have "unat g < 2 ^ 64" using unsigned_less [of g, where 'a = nat] by simp
  moreover have "sprintf_020d g \<noteq> []" by (simp add: sprintf_020d_def Let_def)
  ultimately show ?thesis using sprintf_020d_digits [of g] by (simp add: parse_uint64_def)
qed

lemma digits_no_slash: "list_all is_digit s \<Longrightarrow> CHR ''/'' \<notin> set s"
  by (auto simp: list_all_iff is_digit_def in_range_def less_eq_char_def)

lemma lower_hex_no_slash: "list_all is_lower_hex s \<Longrightarrow> CHR ''/'' \<notin> set s"
  by (auto simp: list_all_iff is_lower_hex_def is_digit_def in_range_def less_eq_char_def)

lemma split_n_cons:
  assumes "c \<notin> set p"
  shows "split_n (Suc (Suc n)) c (p @ c # s) = p # split_n (Suc n) c s"
  using assms by (simp add: takeWhile_append dropWhile_append)

section \<open>Printing and parsing lifecycle tags\<close>

lemma lifecycle_state_no_slash: "lifecycle_state s \<Longrightarrow> CHR ''/'' \<notin> set s"
  by (auto simp: lifecycle_state_def)

lemma split_lifecycle_name:
  assumes "lifecycle_state state" "list_all is_lower_hex x"
  shows "split_n 4 (CHR ''/'') (sprintf_020d g @ ''/'' @ state @ ''/'' @ x @ ''/'' @ branch)
         = [sprintf_020d g, state, x, branch]"
  using split_n_cons [OF digits_no_slash [OF sprintf_020d_digits]]
    split_n_cons [OF lifecycle_state_no_slash [OF assms(1)]]
    split_n_cons [OF lower_hex_no_slash [OF assms(2)]]
  by (simp add: eval_nat_numeral)

lemma parse_lifecycle_parts_print:
  assumes "ValidateBranchName branch = None" "length x = 64" "list_all is_lower_hex x"
    "g \<noteq> 0" "lifecycle_state state"
  shows "parse_lifecycle_parts [sprintf_020d g, state, x, branch] =
           Inr \<lparr>ble_Branch = branch, ble_Generation = g, ble_State = state,
                ble_Target = ''sha256:'' @ x, ble_Ref = empty_ref\<rparr>"
  using assms
  by (simp add: parse_lifecycle_parts_def Let_def ValidateContentHash_iff lower_hex_iff)

lemma NewBranchLifecycleRef_Inr:
  "NewBranchLifecycleRef repo branch target g state = Inr ref \<longleftrightarrow>
     ValidateBranchName branch = None \<and> ValidateContentHash target = None \<and> g \<noteq> 0 \<and>
     lifecycle_state state \<and>
     ref = empty_ref\<lparr>ref_Kind := ''tag'',
       ref_Name := BranchLifecycleTagPrefix @ sprintf_020d g @ ''/'' @ state @ ''/''
                   @ trim_prefix ''sha256:'' target @ ''/'' @ branch,
       ref_RepoID := repo, ref_Target := target\<rparr>" (is "?new \<longleftrightarrow> ?a \<and> ?b \<and> ?c \<and> ?d \<and> ref = ?ref")
proof -
  have "ValidateRef ?ref = None" if v: ?a ?b ?c ?d
  proof -
    from v obtain x where x: "target = ''sha256:'' @ x" "length x = 64" "list_all is_lower_hex x"
      by (auto simp: ValidateContentHash_iff)
    have "is_ok (parseBranchLifecycleTagName (ref_Name ?ref))"
      using v x split_lifecycle_name [of state x g branch] parse_lifecycle_parts_print [of branch x g state]
      by (simp add: parseBranchLifecycleTagName_def trim_prefix_append [of "''sha256:''", simplified])
    then show ?thesis using v x
      by (simp add: ValidateRef_def ValidateRefName_def ValidateRefKind_def empty_ref_def contains_any_def)
  qed
  then show ?thesis by (auto simp: NewBranchLifecycleRef_def Let_def)
qed

lemma lifecycle_ref_parses:
  assumes "NewBranchLifecycleRef repo branch target g state = Inr ref"
  shows "ParseBranchLifecycleRef ref =
           Inr (Some \<lparr>ble_Branch = branch, ble_Generation = g, ble_State = state,
                      ble_Target = target, ble_Ref = ref\<rparr>)"
proof -
  from assms obtain x where x: "target = ''sha256:'' @ x" "length x = 64" "list_all is_lower_hex x"
    by (auto simp: NewBranchLifecycleRef_Inr ValidateContentHash_iff)
  with assms split_lifecycle_name [of state x g branch] parse_lifecycle_parts_print [of branch x g state]
  show ?thesis
    by (auto simp: NewBranchLifecycleRef_Inr ParseBranchLifecycleRef_def parseBranchLifecycleTagName_def
        trim_prefix_append [of "''sha256:''", simplified])
qed

text \<open>
  C1: A lifecycle tag that was created can always be read back: parsing the ref built by
  \<open>NewBranchLifecycleRef\<close> recovers exactly the branch, generation, state and target it was built
  from, for every generation of the 64-bit counter.
\<close>

theorem lifecycle_ref_roundtrip:
  assumes "NewBranchLifecycleRef repo branch target g state = Inr ref"
  shows "ParseBranchLifecycleRef ref =
           Inr (Some \<lparr>ble_Branch = branch, ble_Generation = g, ble_State = state,
                      ble_Target = target, ble_Ref = ref\<rparr>)"
  using assms by (rule lifecycle_ref_parses)

text \<open>A concrete tag: generation 7 archives the branch \<open>main\<close> at a hash of sixty-four digits.\<close>

lemma main_valid: "ValidateBranchName ''main'' = None"
  by code_simp

lemma hash_a_valid: "ValidateContentHash (''sha256:'' @ replicate 64 (CHR ''a'')) = None"
  by code_simp

theorem lifecycle_ref_roundtrip_witness:
  "\<exists>ref. NewBranchLifecycleRef ''r'' ''main'' (''sha256:'' @ replicate 64 (CHR ''a'')) 7 ''archived'' = Inr ref \<and>
     ParseBranchLifecycleRef ref =
       Inr (Some \<lparr>ble_Branch = ''main'', ble_Generation = 7, ble_State = ''archived'',
                  ble_Target = ''sha256:'' @ replicate 64 (CHR ''a''), ble_Ref = ref\<rparr>)"
proof -
  obtain ref where "NewBranchLifecycleRef ''r'' ''main'' (''sha256:'' @ replicate 64 (CHR ''a'')) 7 ''archived'' = Inr ref"
    using main_valid hash_a_valid by (simp only: NewBranchLifecycleRef_Inr) (simp add: lifecycle_state_def)
  from this lifecycle_ref_roundtrip [OF this] show ?thesis by blast
qed

section \<open>Election of the latest event\<close>

definition lifecycle_key :: "BranchLifecycleEvent \<Rightarrow> 64 word \<times> bool \<times> string \<times> string" where
  "lifecycle_key e =
     (ble_Generation e, ble_State e = ''active'', ble_Target e, ref_Name (ble_Ref e))"

text \<open>The events of one branch in a list of refs, in the order of the refs.\<close>

definition lifecycle_events :: "Ref list \<Rightarrow> string \<Rightarrow> BranchLifecycleEvent list" where
  "lifecycle_events refs branch =
     concat (map (\<lambda>ref. case ParseBranchLifecycleRef ref of
                          Inr (Some e) \<Rightarrow> if ble_Branch e = branch then [e] else []
                        | _ \<Rightarrow> []) refs)"

lemma parse_lifecycle_parts_state:
  "parse_lifecycle_parts ps = Inr e \<Longrightarrow> lifecycle_state (ble_State e) \<and> ble_Generation e \<noteq> 0"
  by (auto simp: parse_lifecycle_parts_def Let_def split: if_splits option.splits)

lemma ParseBranchLifecycleRef_state:
  "ParseBranchLifecycleRef ref = Inr (Some e) \<Longrightarrow>
     lifecycle_state (ble_State e) \<and> ble_Generation e \<noteq> 0 \<and> ble_Ref e = ref \<and> ref_Kind ref = ''tag''"
  by (auto simp: ParseBranchLifecycleRef_def parseBranchLifecycleTagName_def
      dest!: parse_lifecycle_parts_state split: if_splits option.splits)

lemma branchLifecycleLater_iff:
  assumes "lifecycle_state (ble_State l)" "lifecycle_state (ble_State r)"
  shows "branchLifecycleLater l r \<longleftrightarrow> lifecycle_key r < lifecycle_key l"
  using assms
  by (auto simp: branchLifecycleLater_def lifecycle_key_def lifecycle_state_def less_prod_def')

lemma lifecycle_events_Cons:
  "lifecycle_events (ref # refs) b =
     (case ParseBranchLifecycleRef ref of
        Inr (Some e) \<Rightarrow> if ble_Branch e = b then [e] else [] | _ \<Rightarrow> []) @ lifecycle_events refs b"
  by (simp add: lifecycle_events_def)

lemma latest_loop_spec:
  assumes "latest_loop b refs acc = Inr out" "\<forall>e. acc = Some e \<longrightarrow> lifecycle_state (ble_State e)"
  shows "(\<forall>e \<in> set_option acc \<union> set (lifecycle_events refs b).
            \<exists>m. out = Some m \<and> lifecycle_key e \<le> lifecycle_key m) \<and>
         set_option out \<subseteq> set_option acc \<union> set (lifecycle_events refs b)"
  using assms
proof (induction refs arbitrary: acc)
  case (Cons ref refs)
  then obtain p where p: "ParseBranchLifecycleRef ref = Inr p"
    and loop: "latest_loop b refs (latest_step b p acc) = Inr out" by auto
  let ?acc = "latest_step b p acc" and ?new = "case p of Some e \<Rightarrow> if ble_Branch e = b then [e] else [] | None \<Rightarrow> []"
  have st: "lifecycle_state (ble_State e)" if "e \<in> set ?new" for e
    using that p ParseBranchLifecycleRef_state by (auto split: option.splits if_splits)
  have acc: "\<forall>e. ?acc = Some e \<longrightarrow> lifecycle_state (ble_State e)"
    using Cons.prems(2) p ParseBranchLifecycleRef_state
    by (auto simp: latest_step_def split: option.splits if_splits)
  have up: "\<exists>m. ?acc = Some m \<and> lifecycle_key e \<le> lifecycle_key m"
    if e: "e \<in> set_option acc \<union> set ?new" for e
  proof (cases "set ?new = {}")
    case True
    with e show ?thesis by (auto simp: latest_step_def split: option.splits if_splits)
  next
    case False
    then obtain n where n: "p = Some n" "ble_Branch n = b" by (auto split: option.splits if_splits)
    with st have "lifecycle_state (ble_State n)" by simp
    with e n Cons.prems(2) show ?thesis
      by (cases acc) (auto simp: latest_step_def branchLifecycleLater_iff)
  qed
  have sub: "set_option ?acc \<subseteq> set_option acc \<union> set ?new"
    by (auto simp: latest_step_def split: option.splits if_splits)
  have ev: "set (lifecycle_events (ref # refs) b) = set ?new \<union> set (lifecycle_events refs b)"
    using p by (auto simp: lifecycle_events_Cons split: option.splits)
  show ?case
    unfolding ev
  proof (intro conjI ballI)
    fix e assume "e \<in> set_option acc \<union> (set ?new \<union> set (lifecycle_events refs b))"
    then consider "e \<in> set_option acc \<union> set ?new" | "e \<in> set (lifecycle_events refs b)" by blast
    then show "\<exists>m. out = Some m \<and> lifecycle_key e \<le> lifecycle_key m"
    proof cases
      case 1
      from up [OF this] obtain m where "m \<in> set_option ?acc" "lifecycle_key e \<le> lifecycle_key m" by auto
      with Cons.IH [OF loop acc] show ?thesis by (meson UnI1 order_trans)
    next
      case 2
      with Cons.IH [OF loop acc] show ?thesis by blast
    qed
  next
    show "set_option out \<subseteq> set_option acc \<union> (set ?new \<union> set (lifecycle_events refs b))"
      using subset_trans [OF Cons.IH [OF loop acc, THEN conjunct2] Un_mono [OF sub subset_refl]]
      by (simp only: Un_assoc)
  qed
qed (simp add: lifecycle_events_def)

lemma LatestBranchLifecycle_max:
  assumes "LatestBranchLifecycle refs b = Inr out"
  shows "e \<in> set (lifecycle_events refs b) \<Longrightarrow> \<exists>m. out = Some m \<and> lifecycle_key e \<le> lifecycle_key m"
    and "set_option out \<subseteq> set (lifecycle_events refs b)"
  using latest_loop_spec [of b refs None out] assms by (auto simp: LatestBranchLifecycle_def)

lemma lifecycle_events_iff:
  "e \<in> set (lifecycle_events refs b) \<longleftrightarrow>
     (\<exists>ref \<in> set refs. ParseBranchLifecycleRef ref = Inr (Some e) \<and> ble_Branch e = b)"
  by (force simp: lifecycle_events_def split: sum.splits option.splits if_splits)

lemma latest_loop_ok:
  "is_ok (latest_loop b refs acc) \<longleftrightarrow> (\<forall>ref \<in> set refs. is_ok (ParseBranchLifecycleRef ref))"
proof (induction refs arbitrary: acc)
  case (Cons ref refs)
  then show ?case by (cases "ParseBranchLifecycleRef ref") simp_all
qed simp

text \<open>
  The event elected for a branch is a greatest one: it is recorded by one of the refs, and no
  ref of that branch carries a later generation or, within the same generation, an active state
  against its archived one, or a larger target or name. The election fails exactly when one of
  the refs is a malformed lifecycle tag.
\<close>

theorem LatestBranchLifecycle_greatest:
  "case LatestBranchLifecycle refs b of
     Inl e \<Rightarrow> \<exists>ref \<in> set refs. \<exists>e'. ParseBranchLifecycleRef ref = Inl e'
   | Inr None \<Rightarrow> lifecycle_events refs b = []
   | Inr (Some m) \<Rightarrow> m \<in> set (lifecycle_events refs b) \<and>
       Max (lifecycle_key ` set (lifecycle_events refs b)) = lifecycle_key m"
proof (cases "LatestBranchLifecycle refs b")
  case (Inl e)
  with latest_loop_ok [of b refs None]
  have "\<not> (\<forall>ref \<in> set refs. is_ok (ParseBranchLifecycleRef ref))"
    unfolding LatestBranchLifecycle_def by simp
  then obtain ref where "ref \<in> set refs" "\<not> is_ok (ParseBranchLifecycleRef ref)" by blast
  then have "ref \<in> set refs \<and> (\<exists>e'. ParseBranchLifecycleRef ref = Inl e')"
    by (cases "ParseBranchLifecycleRef ref") auto
  with Inl show ?thesis by auto
next
  case (Inr out)
  show ?thesis
  proof (cases out)
    case None
    with LatestBranchLifecycle_max(1) [OF Inr] have "lifecycle_events refs b = []"
      by (cases "lifecycle_events refs b") auto
    with None Inr show ?thesis by simp
  next
    case (Some m)
    with LatestBranchLifecycle_max(2) [OF Inr] have "m \<in> set (lifecycle_events refs b)" by simp
    moreover have "Max (lifecycle_key ` set (lifecycle_events refs b)) = lifecycle_key m"
      using LatestBranchLifecycle_max(1) [OF Inr] Some calculation by (intro Max_eqI) auto
    ultimately show ?thesis using Inr Some by simp
  qed
qed

subsection \<open>All branches in one pass\<close>

lemma states_step_at: "states_step p st b = latest_step b p (st b)"
  by (auto simp: states_step_def latest_step_def split: option.splits)

lemma states_loop_latest:
  "bind_r (states_loop refs st) (\<lambda>states. Inr (states b)) = latest_loop b refs (st b)"
proof (induction refs arbitrary: st)
  case (Cons ref refs)
  then show ?case by (cases "ParseBranchLifecycleRef ref") (simp_all add: states_step_at)
qed simp

text \<open>
  The single pass over the refs is an optimisation of the per-branch scan: for every branch,
  looking the branch up in \<open>BranchLifecycleStates\<close> gives what \<open>LatestBranchLifecycle\<close>
  computes by rescanning the refs, errors included.
\<close>

theorem BranchLifecycleStates_eq_Latest:
  "bind_r (BranchLifecycleStates refs) (\<lambda>states. Inr (states branch)) = LatestBranchLifecycle refs branch"
  by (simp add: BranchLifecycleStates_def LatestBranchLifecycle_def states_loop_latest)

section \<open>Allocating generations\<close>

lemma word_less_next: "(g :: 64 word) \<noteq> - 1 \<Longrightarrow> g < g + 1"
proof -
  assume "g \<noteq> - 1"
  then have "1 + g \<noteq> 0" by (metis add_eq_0_iff)
  then show ?thesis by (simp add: word_less_nat_alt unatSuc add.commute)
qed

lemma NextBranchLifecycleGeneration_above:
  assumes "NextBranchLifecycleGeneration refs b = Inr g" "e \<in> set (lifecycle_events refs b)"
  shows "ble_Generation e < g"
proof -
  from assms(1) obtain out where out: "LatestBranchLifecycle refs b = Inr out"
    by (auto simp: NextBranchLifecycleGeneration_def)
  from LatestBranchLifecycle_max(1) [OF out assms(2)] obtain m
    where m: "out = Some m" "lifecycle_key e \<le> lifecycle_key m" by blast
  then have "ble_Generation e \<le> ble_Generation m"
    by (auto simp: lifecycle_key_def less_eq_prod_def)
  moreover have "ble_Generation m < g"
    using assms(1) out m(1) word_less_next
    by (auto simp: NextBranchLifecycleGeneration_def split: if_splits)
  ultimately show ?thesis by simp
qed



section \<open>The visible refs\<close>

lemma states_loop_project:
  assumes "\<And>r. ref_Kind r = ''tag'' \<Longrightarrow> P r \<and> f r = r" "\<And>r. ref_Kind (f r) = ref_Kind r"
  shows "states_loop (map f (filter P refs)) st = states_loop refs st"
proof (induction refs arbitrary: st)
  case (Cons r refs)
  show ?case
  proof (cases "ref_Kind r = ''tag''")
    case True
    with assms(1) [OF True] Cons show ?thesis by simp
  next
    case False
    then have "ParseBranchLifecycleRef r = Inr None" "ParseBranchLifecycleRef (f r) = Inr None"
      using assms(2) by (simp_all add: ParseBranchLifecycleRef_def)
    then show ?thesis using Cons by (simp add: states_step_def)
  qed
qed simp

lemma branch_refs_snoc:
  "branch_refs (refs @ [r]) =
     (if ref_Kind r = ''branch'' then (branch_refs refs)(ref_Name r \<mapsto> r) else branch_refs refs)"
  by (simp add: branch_refs_def)

lemma branch_refs_Some:
  "branch_refs refs b = Some raw \<Longrightarrow> raw \<in> set refs \<and> ref_Kind raw = ''branch'' \<and> ref_Name raw = b"
proof (induction refs rule: rev_induct)
  case (snoc r refs)
  then show ?case by (auto simp: branch_refs_snoc split: if_splits)
qed (simp add: branch_refs_def)

lemma branch_refs_None:
  "branch_refs refs b = None \<longleftrightarrow> (\<forall>r \<in> set refs. \<not> (ref_Kind r = ''branch'' \<and> ref_Name r = b))"
proof (induction refs rule: rev_induct)
  case (snoc r refs)
  then show ?case by (auto simp: branch_refs_snoc)
qed (simp add: branch_refs_def)

lemma branch_refs_project:
  assumes "\<And>r. ref_Kind r = ''branch'' \<Longrightarrow> f r = r" "\<And>r. ref_Kind (f r) = ref_Kind r"
    and "branch_refs refs b = Some raw" "P raw"
  shows "branch_refs (map f (filter P refs)) b = Some raw"
  using assms(3)
proof (induction refs rule: rev_induct)
  case (snoc r refs)
  have "ref_Kind r = ''branch'' \<Longrightarrow> f r = r" "ref_Kind (f r) = ref_Kind r" using assms by auto
  with snoc assms(4) show ?case by (auto simp: branch_refs_snoc split: if_splits)
qed (simp add: branch_refs_def)

lemma expose_head_kind [simp]: "ref_Kind (expose_head st br r) = ref_Kind r"
  by (auto simp: expose_head_def Let_def split: option.splits)

lemma expose_head_other: "ref_Kind r \<noteq> ''head'' \<Longrightarrow> expose_head st br r = r"
  by (simp add: expose_head_def)

lemma expose_head_stable:
  assumes "expose_head st br r = r' " "\<And>b raw. br b = Some raw \<Longrightarrow> \<not> hidden_ref st raw \<Longrightarrow> br' b = Some raw"
    "\<And>b raw. br b = Some raw \<Longrightarrow> ref_Kind raw = ''branch'' \<and> ref_Name raw = b"
  shows "expose_head st br' r' = r'"
proof (cases "ref_Kind r = ''head'' \<and> ref_Symbolic r \<noteq> []")
  case True
  let ?b = "trim_prefix ''refs/heads/'' (ref_Symbolic r)"
  show ?thesis
  proof (cases "ref_Symbolic r' = []")
    case False
    with assms(1) have r': "r' = r" by (auto simp: expose_head_def Let_def split: option.splits if_splits)
    have "br' ?b = br ?b" if "st ?b = Some latest" "ble_State latest = ''archived''" for latest
    proof -
      have "r\<lparr>ref_Symbolic := [], ref_Target := t\<rparr> \<noteq> r" for t using True by (cases r) auto
      with that False r' assms(1) True obtain raw
        where raw: "br ?b = Some raw" "ref_Target raw \<noteq> ble_Target latest"
        by (auto simp: expose_head_def Let_def split: option.splits if_splits)
      with assms(3) that have "\<not> hidden_ref st raw" by (auto simp: hidden_ref_def)
      with raw assms(2) show ?thesis by simp
    qed
    with r' assms(1) show ?thesis by (auto simp: expose_head_def Let_def split: option.splits)
  qed (simp add: expose_head_def)
next
  case False
  with assms(1) show ?thesis by (auto simp: expose_head_def)
qed

lemma expose_head_symbolic:
  assumes "h = expose_head st br r" "ref_Kind h = ''head''" "ref_Symbolic h \<noteq> []"
    "br (trim_prefix ''refs/heads/'' (ref_Symbolic h)) = Some raw"
    "ref_Name raw = trim_prefix ''refs/heads/'' (ref_Symbolic h)"
  shows "\<not> hidden_ref st raw"
  using assms by (auto simp: expose_head_def hidden_ref_def Let_def split: option.splits if_splits)



section \<open>Names as paths\<close>

text \<open>
  Ref names become file paths. \<open>walk\<close> follows the components of a relative path from the
  directory \<open>dir\<close> the way a file system does; None is a step above the starting directory.
\<close>

fun walk :: "string list \<Rightarrow> string list \<Rightarrow> string list option" where
  "walk dir [] = Some dir"
| "walk dir (p # ps) =
     (if p = [] \<or> p = ''.'' then walk dir ps
      else if p = ''..'' then (if dir = [] then None else walk (butlast dir) ps)
      else walk (dir @ [p]) ps)"

lemma walk_plain:
  "list_all (\<lambda>p. p \<noteq> [] \<and> p \<noteq> ''.'' \<and> p \<noteq> ''..'') ps \<Longrightarrow> walk dir ps = Some (dir @ ps)"
  by (induction ps arbitrary: dir) auto

lemma split_on_chars: "p \<in> set (split_on c s) \<Longrightarrow> set p \<subseteq> set s"
proof (induction s arbitrary: p)
  case (Cons x s)
  show ?case
  proof (cases "split_on c s")
    case (Cons q qs)
    with Cons.IH have "set q \<subseteq> set s" "\<And>r. r \<in> set qs \<Longrightarrow> set r \<subseteq> set s" by auto
    with Cons Cons.prems show ?thesis by (auto split: if_splits)
  qed simp
qed simp

lemma ValidateBranchName_parts:
  assumes "ValidateBranchName name = None" "p \<in> set (split_on (CHR ''/'') name)"
  shows "\<not> bad_part p" "CHR ''/'' \<notin> set p" "CHR 0x5C \<notin> set p" "CHR 0x00 \<notin> set p"
proof -
  have v: "\<not> contains [CHR 0x5C] name" "\<not> list_ex bad_part (split_on (CHR ''/'') name)"
    "\<not> list_ex bad_ref_char name"
    using assms(1) by (simp_all add: ValidateBranchName_def)
  have "CHR 0x5C \<notin> set name"
    using v(1) split_list [of "CHR 0x5C" name] by (fastforce simp: contains_iff)
  moreover have "bad_ref_char (CHR 0x00)" by (simp add: bad_ref_char_def less_eq_char_def)
  then have "CHR 0x00 \<notin> set name" using v(3) by (auto simp: list_ex_iff)
  ultimately show "CHR 0x5C \<notin> set p" "CHR 0x00 \<notin> set p"
    using split_on_chars [OF assms(2)] by auto
  show "\<not> bad_part p" "CHR ''/'' \<notin> set p"
    using v(2) assms(2) split_on_sep_free by (auto simp: list_ex_iff)
qed

lemma ValidateBranchName_walk:
  assumes "ValidateBranchName name = None"
  shows "walk dir (split_on (CHR ''/'') name) = Some (dir @ split_on (CHR ''/'') name)"
  using ValidateBranchName_parts(1) [OF assms]
  by (intro walk_plain) (auto simp: list_all_iff bad_part_def)

lemma split_on_inj: "split_on c s = split_on c t \<Longrightarrow> s = t"
  by (metis join_split_on)

text \<open>
  C4: A ref name that passes \<open>ValidateBranchName\<close> cannot leave the directory it is resolved in:
  walking its components ends exactly at the components themselves, all of them real directory
  entries without a separator, without a control character and not an option or a lock file; and
  different names end at different places.
\<close>

theorem ValidateBranchName_path_safe:
  assumes "ValidateBranchName name = None" "ValidateBranchName name' = None"
  shows "walk [] (split_on (CHR ''/'') name) = Some (split_on (CHR ''/'') name) \<and>
         list_all (\<lambda>p. p \<noteq> [] \<and> CHR ''/'' \<notin> set p \<and> CHR 0x5C \<notin> set p \<and> CHR 0x00 \<notin> set p
                       \<and> \<not> has_prefix ''.'' p \<and> \<not> has_suffix ''.lock'' p)
           (split_on (CHR ''/'') name) \<and>
         hd name \<noteq> CHR ''-'' \<and> length name \<le> 1024 \<and>
         (walk [] (split_on (CHR ''/'') name) = walk [] (split_on (CHR ''/'') name') \<longleftrightarrow> name = name')"
proof -
  note walk = ValidateBranchName_walk [OF assms(1), of "[]"] ValidateBranchName_walk [OF assms(2), of "[]"]
  have "name \<noteq> []" "\<not> has_prefix ''-'' name" "length name \<le> 1024"
    using assms(1) by (auto simp: ValidateBranchName_def)
  then have "hd name \<noteq> CHR ''-''" "length name \<le> 1024"
    by (auto simp: has_prefix_iff neq_Nil_conv)
  with walk ValidateBranchName_parts [OF assms(1)] split_on_inj [of "CHR ''/''" name name']
  show ?thesis by (auto simp: list_all_iff bad_part_def)
qed

theorem ValidateBranchName_path_safe_witness:
  "ValidateBranchName ''feature/a'' = None \<and> walk [] [''feature'', ''a''] = Some [''feature'', ''a'']"
proof -
  have "ValidateBranchName ''feature/a'' = None" by code_simp
  from this ValidateBranchName_path_safe [OF this this] show ?thesis by simp
qed

end
