(* ===== verification/Events.thy ===== *)
theory Events
  imports Refs
begin

text \<open>
  History events (\<open>cli/internal/domain/history.go\<close>) with the two structures they embed: the
  evidence of a branch creation (\<open>git_creation.go\<close>) and the identity of a merged pull request
  (\<open>pull_request.go\<close>).

  An event is one observed operation. It names up to three earlier operations it depends on
  (\<open>BindingParent\<close>, \<open>NameParent\<close>, \<open>MemorySelectionParent\<close>). The validators are chains of guards
  in the order of the source; the argument loop of \<open>validateCreationCommand\<close> is a recursion over
  the remaining arguments.
\<close>

section \<open>Data\<close>

record PullRequestMerge =
  pr_Number :: int
  pr_BaseBranch :: string
  pr_HeadBranch :: string
  pr_HeadSHA :: string
  pr_MergeSHA :: string

record GitCreation =
  gc_Evidence :: string
  gc_Command :: "string slice"
  gc_StartRef :: string
  gc_StartCommit :: string
  gc_OriginBranch :: string
  gc_OriginBranchID :: string

record HistoryEvent =
  he_Creation :: "GitCreation option"
  he_PRCompleted :: bool
  he_RecoveryEvidence :: string
  he_PR :: "PullRequestMerge option"
  he_SourceBranchID :: string
  he_ID :: string
  he_RepoID :: string
  he_BranchID :: string
  he_Branch :: string
  he_Kind :: string
  he_LocalBranch :: string
  he_PreviousBranch :: string
  he_BindingParent :: string
  he_NameParent :: string
  he_MemorySelectionParent :: string
  he_Source :: string
  he_Target :: string
  he_SharedTarget :: string
  he_MemorySource :: string
  he_MemoryHash :: string
  he_MemoryPinned :: bool
  he_GitBefore :: string
  he_GitAfter :: string
  he_WorktreeID :: string
  he_CreatedAt :: gtime

section \<open>Pull requests\<close>

definition git_oid_length :: "string \<Rightarrow> bool" where
  "git_oid_length s \<longleftrightarrow> length s = 40 \<or> length s = 64"

definition pr_check_sha :: "string \<Rightarrow> check" where
  "pr_check_sha sha = first_error
     [fail_if (\<not> git_oid_length sha \<or> sha \<noteq> to_lower sha)
        (ErrText ''PR promotion requires full Git object IDs''),
      fail_if (\<not> hex_ok sha) (ErrText ''invalid PR Git object ID'')]"

definition ValidatePullRequest :: "PullRequestMerge \<Rightarrow> check" where
  "ValidatePullRequest p = first_error
     ([fail_if (pr_Number p \<le> 0 \<or> pr_BaseBranch p = pr_HeadBranch p)
         (ErrText ''invalid pull request identity'')] @
      map ValidateBranchName [pr_BaseBranch p, pr_HeadBranch p] @
      map pr_check_sha [pr_HeadSHA p, pr_MergeSHA p])"

section \<open>Creation evidence\<close>

text \<open>
  The loop of \<open>validateCreationCommand\<close> over the arguments after the operation, with its
  variables: the target, the two flags and the positional arguments.
\<close>

record creation_scan =
  cs_target :: string
  cs_orphan :: bool
  cs_track :: bool
  cs_positional :: "string list"

definition create_flags :: "string list" where
  "create_flags = [''-b'', ''-B'', ''-c'', ''-C'', ''--create'', ''--force-create'', ''--orphan'']"

definition track_flags :: "string list" where
  "track_flags = [''--track'', ''-t'', ''--track=direct'']"

definition neutral_flags :: "string list" where
  "neutral_flags = [''--track=inherit'', ''--no-track'', ''--no-guess'', ''-q'', ''--quiet'']"

fun creation_args :: "string \<Rightarrow> string list \<Rightarrow> creation_scan \<Rightarrow> creation_scan result" where
  "creation_args op [] cs = Inr cs"
| "creation_args op (v # rest) cs =
     (if v \<in> set create_flags then
        (case rest of
           [] \<Rightarrow> Inl (ErrText ''invalid creation arguments'')
         | target # rest' \<Rightarrow>
             if op = ''branch'' \<or> cs_target cs \<noteq> [] then Inl (ErrText ''invalid creation arguments'')
             else creation_args op rest'
                    (cs\<lparr>cs_target := target, cs_orphan := (v = ''--orphan'')\<rparr>))
      else if v \<in> set track_flags then
        creation_args op rest (cs\<lparr>cs_track := True\<rparr>)
      else if v \<in> set neutral_flags then
        creation_args op rest cs
      else if has_prefix ''-'' v then Inl (ErrText ''unsupported creation argument'')
      else creation_args op rest (cs\<lparr>cs_positional := cs_positional cs @ [v]\<rparr>))"

definition creation_worktree :: "string \<Rightarrow> string list \<Rightarrow> string list result" where
  "creation_worktree op args =
     (if op = ''worktree'' then
        (case args of
           a # rest \<Rightarrow> if a = ''add'' then Inr rest else Inl (ErrText ''invalid worktree creation'')
         | [] \<Rightarrow> Inl (ErrText ''invalid worktree creation''))
      else Inr args)"

text \<open>After the loop: strip the redacted worktree path and take the branch operand.\<close>

definition creation_positional :: "string \<Rightarrow> creation_scan \<Rightarrow> creation_scan result" where
  "creation_positional op cs =
     bind_r
       (if op = ''worktree'' then
          (case cs_positional cs of
             p # ps \<Rightarrow> if p = ''<worktree>'' then Inr (cs\<lparr>cs_positional := ps\<rparr>)
                       else Inl (ErrText ''worktree path must be redacted'')
           | [] \<Rightarrow> Inl (ErrText ''worktree path must be redacted''))
        else Inr cs)
       (\<lambda>cs. if op = ''branch'' then
               (case cs_positional cs of
                  p # ps \<Rightarrow> Inr (cs\<lparr>cs_target := p, cs_positional := ps\<rparr>)
                | [] \<Rightarrow> Inl (ErrText ''missing created branch''))
             else Inr cs)"

definition creation_agrees :: "HistoryEvent \<Rightarrow> GitCreation \<Rightarrow> creation_scan \<Rightarrow> check" where
  "creation_agrees e c cs =
     (let want = (if he_LocalBranch e \<noteq> [] then he_LocalBranch e else he_Branch e);
          target = (case cs_positional cs of
                      [p] \<Rightarrow> if cs_target cs = [] \<and> cs_track cs \<and> has_suffix (''/'' @ want) p
                             then want else cs_target cs
                    | _ \<Rightarrow> cs_target cs);
          start = (case cs_positional cs of [p] \<Rightarrow> p | _ \<Rightarrow> ''HEAD'')
      in first_error
        [fail_if (1 < length (cs_positional cs)) (ErrText ''ambiguous creation start''),
         fail_if (target \<noteq> want \<or> start \<noteq> gc_StartRef c \<or> cs_orphan cs \<noteq> (he_Kind e = ''orphan''))
           (ErrText ''command disagrees with recorded branch or start'')])"

definition validateCreationCommand :: "HistoryEvent \<Rightarrow> GitCreation \<Rightarrow> check" where
  "validateCreationCommand e c =
     (let op = elems (gc_Command c) ! 1 in
      case bind_r (creation_worktree op (drop 2 (elems (gc_Command c)))) (\<lambda>args.
           bind_r (creation_args op args
                     \<lparr>cs_target = [], cs_orphan = False, cs_track = False, cs_positional = []\<rparr>)
                  (creation_positional op)) of
        Inl err \<Rightarrow> Some err
      | Inr cs \<Rightarrow> creation_agrees e c cs)"

definition creation_command :: "HistoryEvent \<Rightarrow> GitCreation \<Rightarrow> check" where
  "creation_command e c =
     (let cmd = elems (gc_Command c) in
      if length cmd < 3 \<or> 12 < length cmd \<or> cmd ! 0 \<noteq> ''git'' \<or> gc_StartRef c = []
        then Some (ErrText ''invalid creation command'')
      else if cmd ! 1 \<in> {''checkout'', ''switch'', ''branch'', ''worktree''}
        then validateCreationCommand e c
      else Some (ErrText ''invalid creation operation''))"

definition creation_value_ok :: "string \<Rightarrow> bool" where
  "creation_value_ok v \<longleftrightarrow>
     length v \<le> 512 \<and> \<not> contains_any [CHR 0x00, CHR 0x0D, CHR 0x0A] v \<and> \<not> contains ''://'' v"

definition creation_start :: "HistoryEvent \<Rightarrow> GitCreation \<Rightarrow> check" where
  "creation_start e c =
     (let expected = (if he_Kind e = ''orphan'' then he_GitBefore e else he_GitAfter e) in
      if gc_StartCommit c = [] then None
      else first_error
        [fail_if (\<not> git_oid_length (gc_StartCommit c)) (ErrText ''invalid creation commit''),
         fail_if (\<not> hex_ok (gc_StartCommit c)) (ErrText ''invalid creation commit''),
         fail_if (gc_StartCommit c \<noteq> expected \<and>
                  \<not> (he_Kind e = ''orphan'' \<and> gc_Evidence c = ''process-argv'' \<and> gc_StartRef c \<noteq> ''HEAD''))
           (ErrText ''creation start commit differs from Git transaction'')])"

definition ValidateGitCreation :: "HistoryEvent \<Rightarrow> check" where
  "ValidateGitCreation e =
     (case he_Creation e of
        None \<Rightarrow> None
      | Some c \<Rightarrow> first_error
          [fail_if (he_Kind e \<noteq> ''birth'' \<and> he_Kind e \<noteq> ''orphan'' \<and> he_Kind e \<noteq> ''attach'')
             (ErrText ''creation evidence requires branch creation''),
           fail_if (gc_Evidence c \<noteq> ''process-argv'' \<and> gc_Evidence c \<noteq> ''unavailable'')
             (ErrText ''invalid creation evidence source''),
           fail_if (gc_Evidence c = ''unavailable'' \<and>
                    (elems (gc_Command c) \<noteq> [] \<or> gc_StartRef c \<noteq> [] \<or> gc_OriginBranch c \<noteq> []
                     \<or> gc_OriginBranchID c \<noteq> []))
             (ErrText ''unknown creation must not claim command or origin''),
           (if gc_Evidence c = ''process-argv'' then creation_command e c else None),
           fail_if (\<not> list_all creation_value_ok
                        (elems (gc_Command c) @ [gc_StartRef c, gc_OriginBranch c, gc_OriginBranchID c]))
             (ErrText ''invalid creation argument''),
           fail_if ((gc_OriginBranch c = []) \<noteq> (gc_OriginBranchID c = []))
             (ErrText ''incomplete origin identity''),
           (if gc_OriginBranch c \<noteq> [] then ValidateBranchName (gc_OriginBranch c) else None),
           fail_if (gc_Evidence c = ''process-argv'' \<and> he_GitAfter e \<noteq> [] \<and> gc_StartCommit c = [])
             (ErrText ''creation commit is missing''),
           creation_start e c])"

section \<open>Events\<close>

text \<open>\<open>ValidGitOID\<close> of \<open>effective_memory.go\<close>, \<open>memoryClaimOID\<close> of \<open>memory_claims.go\<close>.\<close>

definition memoryClaimOID :: "string \<Rightarrow> bool" where
  "memoryClaimOID s \<longleftrightarrow>
     git_oid_length s \<and> to_lower s = s \<and> trim_set ''0'' s \<noteq> [] \<and> hex_ok s"

definition ValidGitOID :: "string \<Rightarrow> bool" where
  "ValidGitOID s = memoryClaimOID s"

definition HistoryDependencies :: "HistoryEvent \<Rightarrow> string list" where
  "HistoryDependencies e =
     foldl (\<lambda>out id. if id = [] then out else if id \<in> set out then out else out @ [id]) []
       [he_BindingParent e, he_NameParent e, he_MemorySelectionParent e]"

definition is_operation_id :: "string \<Rightarrow> bool" where
  "is_operation_id s \<longleftrightarrow> length s = 32 \<and> s = to_lower s \<and> hex_ok s"

definition event_kinds :: "string list" where
  "event_kinds = [''birth'', ''attach'', ''orphan'', ''position'', ''publish'', ''advance'', ''rename'',
                  ''archive'', ''pr-merge'']"

definition check_pr_binding :: "HistoryEvent \<Rightarrow> check" where
  "check_pr_binding e =
     (if he_Kind e = ''pr-merge'' then
        (case he_PR e of
           None \<Rightarrow> Some (ErrText ''invalid PR context binding'')
         | Some pr \<Rightarrow> first_error
             [fail_if (he_SourceBranchID e = [] \<or> 128 < length (he_SourceBranchID e) \<or> he_Source e = []
                       \<or> he_Target e = []
                       \<or> (\<not> he_PRCompleted e \<and> (he_Target e \<noteq> he_Source e \<or> he_Branch e \<noteq> pr_BaseBranch pr)))
                (ErrText ''invalid PR context binding''),
              ValidatePullRequest pr])
      else fail_if (he_PR e \<noteq> None \<or> he_SourceBranchID e \<noteq> [] \<or> he_PRCompleted e)
             (ErrText ''unexpected PR metadata''))"

definition check_rename :: "HistoryEvent \<Rightarrow> check" where
  "check_rename e =
     (if he_Kind e = ''rename'' then first_error
        [ValidateBranchName (he_PreviousBranch e),
         fail_if (he_PreviousBranch e = he_Branch e) (ErrText ''rename requires distinct names'')]
      else fail_if (he_PreviousBranch e \<noteq> [] \<or> he_NameParent e \<noteq> [])
             (ErrText ''unexpected rename metadata''))"

definition check_memory_selection :: "HistoryEvent \<Rightarrow> check" where
  "check_memory_selection e =
     fail_if (he_MemorySelectionParent e \<noteq> [] \<and>
              (he_Kind e \<noteq> ''position'' \<or> he_Target e = [] \<or> he_Source e \<noteq> he_Target e \<or>
               \<not> he_MemoryPinned e \<or> he_MemoryHash e = [] \<or>
               (he_MemorySource e \<noteq> [] \<and> he_MemorySource e \<noteq> he_Target e) \<or>
               he_WorktreeID e = [] \<or> \<not> ValidGitOID (he_GitAfter e)))
       (ErrText ''invalid initial memory selection'')"

definition check_dependency :: "HistoryEvent \<Rightarrow> string \<Rightarrow> check" where
  "check_dependency e parent =
     (if parent = [] then None
      else first_error
        [fail_if (length parent \<noteq> 32 \<or> parent \<noteq> to_lower parent \<or> parent = he_ID e)
           (ErrText ''invalid branch dependency''),
         fail_if (\<not> hex_ok parent) (ErrText ''invalid branch dependency'')])"

definition check_event_oid :: "string \<Rightarrow> check" where
  "check_event_oid oid =
     (if oid = [] then None
      else first_error
        [fail_if (\<not> git_oid_length oid) (ErrText ''invalid Git object ID''),
         fail_if (\<not> hex_ok oid) (ErrText ''invalid Git object ID'')])"

definition ValidateHistoryEvent :: "HistoryEvent \<Rightarrow> check" where
  "ValidateHistoryEvent e = first_error
     ([ValidateGitCreation e,
       fail_if (length (he_ID e) \<noteq> 32 \<or> he_ID e \<noteq> to_lower (he_ID e)) (ErrText ''invalid history operation ID''),
       fail_if (\<not> hex_ok (he_ID e)) (ErrText ''invalid history operation ID''),
       fail_if (he_BranchID e = [] \<or> 128 < length (he_BranchID e)) (ErrText ''invalid context branch identity''),
       ValidateContentHash (he_RepoID e),
       (if he_Branch e \<noteq> [] \<or> he_Kind e \<noteq> ''position'' then ValidateBranchName (he_Branch e) else None),
       fail_if (he_Kind e \<notin> set event_kinds) (ErrText ''invalid history event kind''),
       fail_if (he_Kind e = ''publish'' \<and>
                (he_Target e = [] \<or> he_Source e \<noteq> he_Target e \<or> he_GitAfter e = []
                 \<or> he_GitAfter e \<noteq> to_lower (he_GitAfter e) \<or> trim_set ''0'' (he_GitAfter e) = []))
         (ErrText ''publication requires an exact Git revision and source target''),
       fail_if (he_RecoveryEvidence e \<noteq> [] \<and>
                (he_Kind e \<noteq> ''orphan'' \<or> he_RecoveryEvidence e \<noteq> ''user-confirmed-unborn-head''))
         (ErrText ''invalid recovery evidence''),
       check_pr_binding e,
       (if he_LocalBranch e \<noteq> [] then ValidateBranchName (he_LocalBranch e) else None),
       check_rename e,
       check_memory_selection e] @
      map (check_dependency e) (HistoryDependencies e) @
      [fail_if (time_is_zero (he_CreatedAt e)) (ErrText ''missing history event time'')] @
      map ValidateOptionalContentHash
        [he_Source e, he_Target e, he_SharedTarget e, he_MemorySource e, he_MemoryHash e] @
      map check_event_oid [he_GitBefore e, he_GitAfter e] @
      [fail_if (he_WorktreeID e \<noteq> [] \<and>
                (length (he_WorktreeID e) \<noteq> 32 \<or> he_WorktreeID e \<noteq> to_lower (he_WorktreeID e)))
         (ErrText ''invalid worktree identity''),
       fail_if (he_WorktreeID e \<noteq> [] \<and> \<not> hex_ok (he_WorktreeID e)) (ErrText ''invalid worktree identity''),
       fail_if (he_Kind e = ''advance'' \<and> (he_Source e = [] \<or> he_Target e = []))
         (ErrText ''continuation requires both previous and current context''),
       fail_if (he_Kind e = ''orphan'' \<and> (he_Source e \<noteq> [] \<or> he_Target e \<noteq> []))
         (ErrText ''orphan creation cannot inherit conversation ancestry'')])"

section \<open>Facts about events\<close>

lemma HistoryDependencies_set:
  "set (HistoryDependencies e) =
     {he_BindingParent e, he_NameParent e, he_MemorySelectionParent e} - {[]}"
  by (auto simp: HistoryDependencies_def split: if_splits)

lemma HistoryDependencies_distinct: "distinct (HistoryDependencies e)"
  by (auto simp: HistoryDependencies_def)

lemma HistoryDependencies_no_empty [simp]: "[] \<notin> set (HistoryDependencies e)"
  by (simp add: HistoryDependencies_set)

text \<open>
  An accepted event has a well-formed identity and points only at other well-formed identities:
  its ID is 32 lower-case hexadecimal digits, and each of its at most three distinct dependencies
  is such an ID different from its own.
\<close>

theorem ValidateHistoryEvent_ids:
  assumes "ValidateHistoryEvent e = None"
  shows "is_operation_id (he_ID e) \<and> list_all is_lower_hex (he_ID e) \<and>
         distinct (he_ID e # HistoryDependencies e) \<and> length (HistoryDependencies e) \<le> 3 \<and>
         list_all is_operation_id (HistoryDependencies e)"
proof -
  have id: "is_operation_id (he_ID e)"
    using assms by (simp add: ValidateHistoryEvent_def is_operation_id_def)
  have dep: "is_operation_id d \<and> d \<noteq> he_ID e" if "d \<in> set (HistoryDependencies e)" for d
  proof -
    have "check_dependency e d = None" using assms that by (simp add: ValidateHistoryEvent_def)
    moreover have "d \<noteq> []" using that HistoryDependencies_no_empty by metis
    ultimately show ?thesis by (simp add: check_dependency_def is_operation_id_def)
  qed
  have "card (set (HistoryDependencies e)) \<le> card {he_BindingParent e, he_NameParent e, he_MemorySelectionParent e}"
    by (intro card_mono) (auto simp: HistoryDependencies_set)
  also have "\<dots> \<le> 3" by (simp add: card_insert_if)
  finally have "length (HistoryDependencies e) \<le> 3"
    using HistoryDependencies_distinct [of e] by (simp add: distinct_card)
  moreover have "list_all is_lower_hex (he_ID e)"
    using id by (simp add: is_operation_id_def hex_ok_def lower_hex_iff)
  ultimately show ?thesis
    using id dep HistoryDependencies_distinct [of e] by (auto simp: list_all_iff)
qed

text \<open>A concrete orphan birth, used by the witnesses.\<close>

definition sample_event :: HistoryEvent where
  "sample_event =
     \<lparr>he_Creation = Some \<lparr>gc_Evidence = ''process-argv'',
        gc_Command = Some [''git'', ''checkout'', ''-b'', ''topic'', ''main''], gc_StartRef = ''main'',
        gc_StartCommit = [], gc_OriginBranch = [], gc_OriginBranchID = []\<rparr>,
      he_PRCompleted = False, he_RecoveryEvidence = [], he_PR = None, he_SourceBranchID = [],
      he_ID = replicate 32 (CHR ''1''), he_RepoID = ''sha256:'' @ replicate 64 (CHR ''a''),
      he_BranchID = ''b1'', he_Branch = ''topic'', he_Kind = ''birth'', he_LocalBranch = [],
      he_PreviousBranch = [], he_BindingParent = replicate 32 (CHR ''2''), he_NameParent = [],
      he_MemorySelectionParent = [], he_Source = [], he_Target = [], he_SharedTarget = [],
      he_MemorySource = [], he_MemoryHash = [], he_MemoryPinned = False, he_GitBefore = [],
      he_GitAfter = [], he_WorktreeID = [], he_CreatedAt = \<lparr>instant = 5, repr = 0\<rparr>\<rparr>"

lemma sample_event_valid: "ValidateHistoryEvent sample_event = None"
  by code_simp

theorem ValidateHistoryEvent_ids_witness:
  "ValidateHistoryEvent sample_event = None \<and> is_operation_id (he_ID sample_event) \<and>
   list_all is_operation_id [replicate 32 (CHR ''2'')]"
  using sample_event_valid ValidateHistoryEvent_ids [OF sample_event_valid]
  by (simp add: HistoryDependencies_def sample_event_def)

section \<open>Creation commands\<close>

definition scan_inv :: "string list \<Rightarrow> creation_scan \<Rightarrow> bool" where
  "scan_inv args cs \<longleftrightarrow>
     (cs_target cs = [] \<or> cs_target cs \<in> set args) \<and> set (cs_positional cs) \<subseteq> set args \<and>
     (cs_orphan cs \<longrightarrow> ''--orphan'' \<in> set args)"

lemma creation_args_inv:
  "creation_args op rest cs = Inr cs' \<Longrightarrow> scan_inv args cs \<Longrightarrow> set rest \<subseteq> set args \<Longrightarrow> scan_inv args cs'"
proof (induction op rest cs rule: creation_args.induct)
  case (2 op v rest cs)
  show ?case
  proof (cases "v \<in> set create_flags")
    case True
    with 2 show ?thesis by (auto simp: scan_inv_def split: list.splits if_splits)
  next
    case False
    with 2 show ?thesis by (auto simp: scan_inv_def split: if_splits)
  qed
qed simp

lemma creation_positional_inv:
  assumes "creation_positional op cs = Inr cs'" "scan_inv args cs"
  shows "scan_inv args cs'"
proof (cases "cs_positional cs")
  case Nil
  with assms show ?thesis by (simp add: creation_positional_def split: if_splits)
next
  case (Cons p ps)
  then have "scan_inv args (cs\<lparr>cs_positional := ps\<rparr>)" "scan_inv args (cs\<lparr>cs_target := p, cs_positional := ps\<rparr>)"
    using assms(2) by (simp_all add: scan_inv_def)
  with Cons assms show ?thesis by (simp add: creation_positional_def bind_r_def split: if_splits)
qed

lemma creation_worktree_sub: "creation_worktree op args = Inr args' \<Longrightarrow> set args' \<subseteq> set args"
  by (auto simp: creation_worktree_def split: list.splits if_splits)

lemma validateCreationCommand_scan:
  assumes "validateCreationCommand e c = None"
  obtains cs where "scan_inv (drop 2 (elems (gc_Command c))) cs" "creation_agrees e c cs = None"
proof -
  let ?op = "elems (gc_Command c) ! 1" and ?args = "drop 2 (elems (gc_Command c))"
  let ?init = "\<lparr>cs_target = [], cs_orphan = False, cs_track = False, cs_positional = []\<rparr>"
  from assms obtain args cs1 cs2 where "creation_worktree ?op ?args = Inr args"
    "creation_args ?op args ?init = Inr cs1" "creation_positional ?op cs1 = Inr cs2"
    "creation_agrees e c cs2 = None"
    by (auto simp: validateCreationCommand_def Let_def split: sum.splits)
  then have "scan_inv ?args cs2"
    using creation_worktree_sub [of ?op ?args args] creation_args_inv [of ?op args ?init cs1 ?args]
      creation_positional_inv [of ?op cs1 cs2 ?args]
    by (simp add: scan_inv_def)
  with \<open>creation_agrees e c cs2 = None\<close> that show ?thesis by blast
qed

text \<open>
  A recorded creation command cannot claim a branch or a start it does not name: when the
  evidence of an accepted event is a command line, the branch it says it created is an argument of
  the command (or the tracked remote branch ends in it), the start is HEAD or an argument, and an
  orphan creation was asked for with \<open>--orphan\<close>.
\<close>

theorem creation_command_names_branch:
  assumes "ValidateHistoryEvent e = None" "he_Creation e = Some c" "gc_Evidence c = ''process-argv''"
  defines "want \<equiv> if he_LocalBranch e \<noteq> [] then he_LocalBranch e else he_Branch e"
    and "args \<equiv> drop 2 (elems (gc_Command c))"
  shows "(want \<in> set args \<or> (\<exists>p \<in> set args. has_suffix (''/'' @ want) p)) \<and>
         (gc_StartRef c = ''HEAD'' \<or> gc_StartRef c \<in> set args) \<and>
         (he_Kind e = ''orphan'' \<longrightarrow> ''--orphan'' \<in> set args)"
proof -
  have "ValidateGitCreation e = None" using assms(1) by (simp add: ValidateHistoryEvent_def)
  with assms(2,3) have kind: "he_Kind e \<noteq> ''position''" and cmd: "creation_command e c = None"
    by (auto simp: ValidateGitCreation_def)
  from kind assms(1) have "ValidateBranchName (he_Branch e) = None"
    by (simp add: ValidateHistoryEvent_def)
  then have "want \<noteq> []" by (auto simp: want_def ValidateBranchName_def)
  from cmd have "validateCreationCommand e c = None"
    by (auto simp: creation_command_def Let_def split: if_splits)
  then obtain cs where "scan_inv args cs" "creation_agrees e c cs = None"
    unfolding args_def by (rule validateCreationCommand_scan)
  then show ?thesis using \<open>want \<noteq> []\<close>
    by (auto simp: creation_agrees_def scan_inv_def Let_def want_def split: list.splits if_splits)
qed

theorem creation_command_names_branch_witness:
  "ValidateHistoryEvent sample_event = None \<and> ''main'' \<in> set [''-b'', ''topic'', ''main'']"
  using sample_event_valid creation_command_names_branch [OF sample_event_valid]
  by (simp add: sample_event_def)

end
