(* ===== verification/Kahn.thy ===== *)
theory Kahn
  imports Prelude
begin

text \<open>
  The topological ordering loop that the sources write three times:
  \<open>OrderHistoryEvents\<close> (\<open>context_branch.go\<close>), \<open>orderPublicationDependencies\<close>
  (\<open>publication_plan.go\<close>) and \<open>ReachableHistory\<close> (\<open>history_query.go\<close>).
  Each counts the incoming edges of every node, seeds a \<open>container/heap\<close> with the nodes of
  degree zero and repeatedly pops the least ready node, decrementing the degree of each successor
  (with multiplicity) and pushing those that reach zero.

  The heap is modelled by the collection of its elements: \<open>heap_pop\<close> removes an element of
  least key, which is what \<open>heap.Pop\<close> documents; the keys of the three callers are injective, so
  the popped element is determined. Degrees are integers, as in Go.
  The loop takes fuel equal to the number of nodes; \<open>kahn_graph.kahn_total\<close> shows that it is
  enough, so that the loop always ends.

  The locale \<open>kahn_graph\<close> is the contract of a caller: distinct nodes, successors among the
  nodes, injective keys. Inside it: the loop ends, its result holds every node at most once and
  after all its predecessors, it is complete exactly when the graph is acyclic, it depends on the
  node set and edge multiplicities only, and it is the key order whenever keys increase along edges.
\<close>

section \<open>The loop\<close>

fun min_by :: "('n \<Rightarrow> 'k::linorder) \<Rightarrow> 'n \<Rightarrow> 'n list \<Rightarrow> 'n" where
  "min_by key x [] = x"
| "min_by key x (y # ys) = min_by key (if key y < key x then y else x) ys"

definition heap_pop :: "('n \<Rightarrow> 'k::linorder) \<Rightarrow> 'n list \<Rightarrow> 'n \<times> 'n list" where
  "heap_pop key q = (let m = min_by key (hd q) (tl q) in (m, remove1 m q))"

fun relax :: "('n \<Rightarrow> int) \<Rightarrow> 'n list \<Rightarrow> 'n list \<Rightarrow> ('n \<Rightarrow> int) \<times> 'n list" where
  "relax deg q [] = (deg, q)"
| "relax deg q (c # cs) =
     (let deg' = deg(c := deg c - 1)
      in relax deg' (if deg' c = 0 then c # q else q) cs)"

datatype 'n kahn_result = Done "'n list" | Stopped | Unfinished

fun kahn_loop :: "('n \<Rightarrow> 'n list \<Rightarrow> bool) \<Rightarrow> ('n \<Rightarrow> 'k::linorder) \<Rightarrow> ('n \<Rightarrow> 'n list) \<Rightarrow>
    nat \<Rightarrow> ('n \<Rightarrow> int) \<Rightarrow> 'n list \<Rightarrow> 'n list \<Rightarrow> 'n kahn_result" where
  "kahn_loop stop key succs fuel deg [] out = Done out"
| "kahn_loop stop key succs 0 deg (x # q) out = Unfinished"
| "kahn_loop stop key succs (Suc fuel) deg (x # q) out =
     (case heap_pop key (x # q) of (i, q1) \<Rightarrow>
        if stop i out then Stopped
        else (case relax deg q1 (succs i) of (deg', q') \<Rightarrow>
                kahn_loop stop key succs fuel deg' q' (out @ [i])))"

definition indegree :: "'n list \<Rightarrow> ('n \<Rightarrow> 'n list) \<Rightarrow> 'n \<Rightarrow> int" where
  "indegree nodes succs y = int (count_list (concat (map succs nodes)) y)"

definition kahn :: "('n \<Rightarrow> 'n list \<Rightarrow> bool) \<Rightarrow> ('n \<Rightarrow> 'k::linorder) \<Rightarrow> 'n list \<Rightarrow>
    ('n \<Rightarrow> 'n list) \<Rightarrow> 'n kahn_result" where
  "kahn stop key nodes succs =
     kahn_loop stop key succs (length nodes) (indegree nodes succs)
       (filter (\<lambda>y. indegree nodes succs y = 0) nodes) []"

abbreviation never :: "'n \<Rightarrow> 'n list \<Rightarrow> bool" where
  "never \<equiv> (\<lambda>_ _. False)"

section \<open>The state invariant\<close>

text \<open>The edges the loop follows, and the order it has to respect.\<close>

definition edge_rel :: "'n list \<Rightarrow> ('n \<Rightarrow> 'n list) \<Rightarrow> ('n \<times> 'n) set" where
  "edge_rel nodes succs = {(x, y). x \<in> set nodes \<and> y \<in> set (succs x)}"

definition preds_first :: "'n list \<Rightarrow> ('n \<Rightarrow> 'n list) \<Rightarrow> 'n list \<Rightarrow> bool" where
  "preds_first nodes succs out \<longleftrightarrow>
     (\<forall>k < length out. \<forall>x \<in> set nodes. out ! k \<in> set (succs x) \<longrightarrow> x \<in> set (take k out))"

definition kahn_inv :: "'n list \<Rightarrow> ('n \<Rightarrow> 'n list) \<Rightarrow> ('n \<Rightarrow> int) \<Rightarrow> 'n list \<Rightarrow> 'n list \<Rightarrow> bool" where
  "kahn_inv nodes succs deg q out \<longleftrightarrow>
     distinct (out @ q) \<and> set (out @ q) \<subseteq> set nodes \<and>
     (\<forall>y. deg y = (\<Sum>x \<in> set nodes - set out. int (count_list (succs x) y))) \<and>
     (\<forall>y \<in> set nodes. y \<in> set (out @ q) \<longleftrightarrow> deg y = 0) \<and>
     preds_first nodes succs out"

lemma min_by_in: "min_by key x ys \<in> insert x (set ys)"
  by (induction key x ys rule: min_by.induct) auto

lemma min_by_le: "z \<in> insert x (set ys) \<Longrightarrow> key (min_by key x ys) \<le> key z"
proof (induction key x ys arbitrary: z rule: min_by.induct)
  case (2 key x y ys)
  let ?m = "if key y < key x then y else x"
  have "key (min_by key ?m ys) \<le> key ?m" using "2.IH" by blast
  then have "key (min_by key ?m ys) \<le> key x" "key (min_by key ?m ys) \<le> key y"
    by (auto split: if_splits)
  with "2.IH" "2.prems" show ?case by auto
qed simp

lemma heap_pop_props:
  assumes "q \<noteq> []" and "heap_pop key q = (i, q1)"
  shows "i \<in> set q" and "q1 = remove1 i q" and "\<forall>z \<in> set q. key i \<le> key z"
proof -
  obtain x ys where q: "q = x # ys" using assms(1) by (cases q) auto
  from assms(2) q have i: "i = min_by key x ys" and "q1 = remove1 i q"
    by (auto simp: heap_pop_def Let_def)
  then show "q1 = remove1 i q" by simp
  show "i \<in> set q" using min_by_in [of key x ys] by (simp add: i q)
  show "\<forall>z \<in> set q. key i \<le> key z" using min_by_le [of _ x ys key] by (auto simp: i q)
qed

lemma relax_props:
  assumes "relax deg q cs = (deg', q')"
  shows relax_deg: "deg' y = deg y - int (count_list cs y)"
    and relax_set: "set q' = set q \<union> {y. 0 < deg y \<and> deg y \<le> int (count_list cs y)}"
  using assms by (induction cs arbitrary: deg q) (auto simp: Let_def split: if_splits)

lemma relax_distinct:
  assumes "relax deg q cs = (deg', q')" and "distinct q" and "\<forall>y \<in> set q. deg y \<le> 0"
  shows "distinct q'"
  using assms
proof (induction cs arbitrary: deg q)
  case (Cons c cs)
  let ?deg = "deg(c := deg c - 1)"
  let ?q = "if ?deg c = 0 then c # q else q"
  have "relax ?deg ?q cs = (deg', q')" using Cons.prems(1) by (simp add: Let_def)
  moreover have "distinct ?q" "\<forall>y \<in> set ?q. ?deg y \<le> 0"
    using Cons.prems(2,3) by auto
  ultimately show ?case by (rule Cons.IH)
qed simp

lemma count_list_concat_map:
  "distinct xs \<Longrightarrow> int (count_list (concat (map f xs)) y) = (\<Sum>x \<in> set xs. int (count_list (f x) y))"
  by (induction xs) auto

lemma count_list_zero: "count_list xs y = 0 \<longleftrightarrow> y \<notin> set xs"
  by (simp add: count_list_0_iff)

lemma preds_first_snoc:
  "preds_first nodes succs (out @ [i]) \<longleftrightarrow>
     preds_first nodes succs out \<and> (\<forall>x \<in> set nodes. i \<in> set (succs x) \<longrightarrow> x \<in> set out)"
  by (auto simp: preds_first_def nth_append less_Suc_eq)

lemma preds_firstD:
  assumes "preds_first nodes succs (xs @ y # ys)" and "x \<in> set nodes" and "y \<in> set (succs x)"
  shows "x \<in> set xs"
  using assms by (auto simp: preds_first_def dest: spec [of _ "length xs"])

section \<open>The contract of a caller\<close>

locale kahn_graph =
  fixes nodes :: "'n list"
    and succs :: "'n \<Rightarrow> 'n list"
    and key :: "'n \<Rightarrow> 'k::linorder"
  assumes distinct_nodes: "distinct nodes"
    and succs_closed: "\<And>x. set (succs x) \<subseteq> set nodes"
    and key_inj: "inj_on key (set nodes)"
begin

lemma inv_init:
  "kahn_inv nodes succs (indegree nodes succs) (filter (\<lambda>y. indegree nodes succs y = 0) nodes) []"
  by (auto simp: kahn_inv_def preds_first_def indegree_def count_list_concat_map distinct_nodes)

lemma ready_no_pending_pred:
  assumes inv: "kahn_inv nodes succs deg q out" and "i \<in> set q" and "x \<in> set nodes"
    and "i \<in> set (succs x)"
  shows "x \<in> set out"
proof (rule ccontr)
  assume "x \<notin> set out"
  then have "x \<in> set nodes - set out" using assms(3) by simp
  moreover have "0 < int (count_list (succs x) i)"
    using assms(4) count_list_zero [of "succs x" i] by simp
  ultimately have "0 < (\<Sum>x \<in> set nodes - set out. int (count_list (succs x) i))"
    by (intro sum_pos2) auto
  moreover have "deg i = 0" and "deg i = (\<Sum>x \<in> set nodes - set out. int (count_list (succs x) i))"
    using inv assms(2) by (auto simp: kahn_inv_def)
  ultimately show False by linarith
qed

lemma inv_step:
  assumes inv: "kahn_inv nodes succs deg q out" and "q \<noteq> []"
    and pop: "heap_pop key q = (i, q1)" and rel: "relax deg q1 (succs i) = (deg', q')"
  shows "kahn_inv nodes succs deg' q' (out @ [i])"
proof -
  note popped = heap_pop_props [OF \<open>q \<noteq> []\<close> pop]
  from inv have dq: "distinct (out @ q)" and sub: "set (out @ q) \<subseteq> set nodes"
    and deg: "\<And>y. deg y = (\<Sum>x \<in> set nodes - set out. int (count_list (succs x) y))"
    and zero: "\<And>y. y \<in> set nodes \<Longrightarrow> y \<in> set (out @ q) \<longleftrightarrow> deg y = 0"
    and pf: "preds_first nodes succs out"
    by (auto simp: kahn_inv_def)
  have i: "i \<in> set nodes" "i \<notin> set out" using popped(1) sub dq by auto
  have q1: "set q1 = set q - {i}" "distinct q1" using popped(2) dq by auto
  have sum_split: "(\<Sum>x \<in> set nodes - set out. int (count_list (succs x) y)) =
      int (count_list (succs i) y) + (\<Sum>x \<in> set nodes - set (out @ [i]). int (count_list (succs x) y))" for y
  proof -
    have eq: "set nodes - set (out @ [i]) = set nodes - set out - {i}" by auto
    show ?thesis unfolding eq by (rule sum.remove) (use i in simp_all)
  qed
  have deg': "deg' y = (\<Sum>x \<in> set nodes - set (out @ [i]). int (count_list (succs x) y))" for y
    using relax_deg [OF rel, of y] deg [of y] sum_split [of y] by simp
  have nonneg: "0 \<le> deg' y" for y by (simp add: deg' sum_nonneg)
  have "deg y \<le> int (count_list (succs i) y) \<longleftrightarrow> deg' y = 0" for y
    using relax_deg [OF rel, of y] nonneg [of y] by auto
  then have q': "set q' = set q1 \<union> {y. 0 < deg y \<and> deg' y = 0}"
    by (simp add: relax_set [OF rel])
  have settled: "deg y = 0" if "y \<in> set (out @ q)" for y using zero sub that by blast
  have zero_q: "\<forall>y \<in> set q1. deg y = 0" using q1 settled by auto
  then have "distinct q'" using relax_distinct [OF rel q1(2)] by fastforce
  moreover have "set q' \<inter> set (out @ [i]) = {}"
    using q1 dq settled [of i] settled popped(1) by (fastforce simp: q')
  moreover have mem: "y \<in> set ((out @ [i]) @ q') \<longleftrightarrow> deg' y = 0" if "y \<in> set nodes" for y
  proof (cases "deg y = 0")
    case True
    then have "deg' y = 0" using relax_deg [OF rel, of y] nonneg [of y] by simp
    moreover have "y \<in> set (out @ q)" using zero [OF that] True by simp
    ultimately show ?thesis using q1(1) q' by auto
  next
    case False
    then have "y \<notin> set (out @ q)" using zero [OF that] by simp
    moreover have "0 < deg y" using False deg [of y] by (simp add: sum_nonneg order_less_le)
    ultimately show ?thesis using q1(1) q' popped(1) by auto
  qed
  moreover have "set q' \<subseteq> set nodes"
  proof
    fix y assume "y \<in> set q'"
    then consider "y \<in> set q1" | "0 < deg y" by (auto simp: q')
    then show "y \<in> set nodes"
    proof cases
      case 1
      then show ?thesis using q1 sub by auto
    next
      case 2
      then have "(\<Sum>x \<in> set nodes - set out. int (count_list (succs x) y)) \<noteq> 0"
        by (simp add: deg [of y])
      then obtain x where "int (count_list (succs x) y) \<noteq> 0"
        by (rule sum.not_neutral_contains_not_neutral)
      then show ?thesis using succs_closed [of x] by (auto simp: count_list_zero)
    qed
  qed
  moreover have "preds_first nodes succs (out @ [i])"
    using pf ready_no_pending_pred [OF inv popped(1)] by (simp add: preds_first_snoc)
  ultimately show ?thesis
    using dq sub i by (auto simp: kahn_inv_def deg')
qed

lemma loop_done:
  assumes "kahn_inv nodes succs deg q out" and "length nodes \<le> fuel + length out"
  shows "\<exists>out' deg'. kahn_loop never key succs fuel deg q out = Done out' \<and>
           kahn_inv nodes succs deg' [] out'"
  using assms
proof (induction fuel arbitrary: deg q out)
  case 0
  have "length (out @ q) \<le> length nodes"
  proof -
    have "card (set (out @ q)) \<le> card (set nodes)"
      using 0 by (intro card_mono) (auto simp: kahn_inv_def)
    moreover have "card (set (out @ q)) = length (out @ q)"
      using 0 distinct_card [of "out @ q"] by (simp add: kahn_inv_def)
    ultimately show ?thesis using distinct_card [OF distinct_nodes] by linarith
  qed
  with 0 have "q = []" by (cases q) auto
  with 0 show ?case by auto
next
  case (Suc fuel)
  show ?case
  proof (cases q)
    case Nil
    with Suc show ?thesis by auto
  next
    case (Cons x xs)
    obtain i q1 where pop: "heap_pop key q = (i, q1)" by fastforce
    obtain deg' q' where rel: "relax deg q1 (succs i) = (deg', q')" by fastforce
    have "kahn_inv nodes succs deg' q' (out @ [i])"
      using inv_step [OF Suc.prems(1) _ pop rel] Cons by simp
    from Suc.IH [OF this] Suc.prems(2)
    show ?thesis using pop rel Cons by simp
  qed
qed

lemma kahn_result:
  "\<exists>out deg. kahn never key nodes succs = Done out \<and> kahn_inv nodes succs deg [] out"
  unfolding kahn_def using loop_done [OF inv_init] by simp

lemma kahn_total: "\<exists>out. kahn never key nodes succs = Done out"
  using kahn_result by blast

lemma kahn_sound:
  assumes "kahn never key nodes succs = Done out"
  shows "distinct out" and "set out \<subseteq> set nodes" and "preds_first nodes succs out"
  using kahn_result assms by (auto simp: kahn_inv_def)

lemma kahn_topological:
  assumes "kahn never key nodes succs = Done (xs @ y # ys)" and "x \<in> set nodes"
    and "y \<in> set (succs x)"
  shows "x \<in> set xs"
  using preds_firstD [OF kahn_sound(3) [OF assms(1)] assms(2,3)] .

lemma kahn_complete:
  assumes "kahn never key nodes succs = Done out" and "acyclic (edge_rel nodes succs)"
  shows "set out = set nodes"
proof (rule ccontr)
  assume "set out \<noteq> set nodes"
  moreover from kahn_result assms(1) obtain deg where inv: "kahn_inv nodes succs deg [] out"
    by auto
  ultimately have "set nodes - set out \<noteq> {}" by (auto simp: kahn_inv_def)
  moreover have "finite (edge_rel nodes succs)"
  proof (rule finite_subset)
    show "edge_rel nodes succs \<subseteq> set nodes \<times> set nodes"
      using succs_closed by (auto simp: edge_rel_def)
  qed simp
  then have "wf (edge_rel nodes succs)" using assms(2) by (rule finite_acyclic_wf)
  ultimately obtain z where z: "z \<in> set nodes - set out"
      "\<And>x. (x, z) \<in> edge_rel nodes succs \<Longrightarrow> x \<notin> set nodes - set out"
    by (metis ex_in_conv wfE_min)
  have "deg z = 0"
  proof -
    have "count_list (succs x) z = 0" if "x \<in> set nodes - set out" for x
      using z(2) [of x] that by (auto simp: edge_rel_def count_list_zero)
    then show ?thesis using inv by (simp add: kahn_inv_def)
  qed
  with z(1) inv show False by (auto simp: kahn_inv_def)
qed

lemma kahn_acyclic:
  assumes fin: "kahn never key nodes succs = Done out" and all: "set out = set nodes"
  shows "acyclic (edge_rel nodes succs)"
proof -
  define pos where "pos y = (THE k. k < length out \<and> out ! k = y)" for y
  have pos: "pos (out ! k) = k" if "k < length out" for k
    unfolding pos_def using that kahn_sound(1) [OF fin]
    by (intro the_equality) (auto simp: nth_eq_iff_index_eq)
  have "edge_rel nodes succs \<subseteq> measure pos"
  proof
    fix e assume "e \<in> edge_rel nodes succs"
    then obtain x y where e: "e = (x, y)" "x \<in> set nodes" "y \<in> set (succs x)"
      by (auto simp: edge_rel_def)
    then have "y \<in> set out" using succs_closed all by blast
    then obtain k where k: "k < length out" "out ! k = y" by (auto simp: in_set_conv_nth)
    then have "x \<in> set (take k out)"
      using kahn_sound(3) [OF fin] e by (auto simp: preds_first_def)
    then obtain j where "j < k" "out ! j = x" by (auto simp: in_set_conv_nth)
    then show "e \<in> measure pos" using e k pos by auto
  qed
  then show ?thesis by (meson wf_acyclic wf_measure wf_subset)
qed

lemma kahn_all_iff:
  assumes "kahn never key nodes succs = Done out"
  shows "length out = length nodes \<longleftrightarrow> acyclic (edge_rel nodes succs)"
proof -
  have "length out = length nodes \<longleftrightarrow> set out = set nodes"
  proof -
    have "card (set out) = length out" "card (set nodes) = length nodes"
      using kahn_sound(1) [OF assms] distinct_nodes by (simp_all add: distinct_card)
    then show ?thesis
      using kahn_sound(2) [OF assms] card_subset_eq [of "set nodes" "set out"] by auto
  qed
  then show ?thesis using kahn_complete [OF assms] kahn_acyclic [OF assms] by blast
qed

end

context kahn_graph
begin

text \<open>Keys that increase along every edge: the loop is a sort.\<close>

lemma popped_least:
  assumes inv: "kahn_inv nodes succs deg q out" and "q \<noteq> []" and pop: "heap_pop key q = (i, q1)"
    and mono: "\<And>x y. x \<in> set nodes \<Longrightarrow> y \<in> set (succs x) \<Longrightarrow> key x < key y"
    and y: "y \<in> set nodes - set out"
  shows "key i \<le> key y"
proof -
  let ?R = "set nodes - set out"
  obtain m where m: "m \<in> ?R" "\<And>z. z \<in> ?R \<Longrightarrow> key m \<le> key z"
    using y ex_min_if_finite [of "key ` ?R"] by (auto simp: not_less)
  have "count_list (succs x) m = 0" if "x \<in> ?R" for x
    using mono [of x m] m(2) [OF that] that by (auto simp: count_list_zero)
  then have "deg m = 0" using inv by (simp add: kahn_inv_def)
  then have "m \<in> set q" using inv m(1) by (auto simp: kahn_inv_def)
  then have "key i \<le> key m" using heap_pop_props(3) [OF \<open>q \<noteq> []\<close> pop] by blast
  then show ?thesis using m(2) [OF y] by simp
qed

lemma loop_sorted:
  assumes "kahn_inv nodes succs deg q out" and "kahn_loop never key succs fuel deg q out = Done out'"
    and mono: "\<And>x y. x \<in> set nodes \<Longrightarrow> y \<in> set (succs x) \<Longrightarrow> key x < key y"
    and "sorted (map key out)" and "\<forall>a \<in> set out. \<forall>b \<in> set nodes - set out. key a \<le> key b"
  shows "sorted (map key out')"
  using assms(1,2,4,5)
proof (induction fuel arbitrary: deg q out)
  case 0
  then show ?case by (cases q) auto
next
  case (Suc fuel)
  show ?case
  proof (cases q)
    case Nil
    with Suc.prems show ?thesis by simp
  next
    case (Cons x xs)
    obtain i q1 where pop: "heap_pop key q = (i, q1)" by fastforce
    obtain deg' q' where rel: "relax deg q1 (succs i) = (deg', q')" by fastforce
    have ne: "q \<noteq> []" using Cons by simp
    have i: "i \<in> set nodes - set out"
      using heap_pop_props(1) [OF ne pop] Suc.prems(1) by (auto simp: kahn_inv_def)
    have least: "key i \<le> key y" if "y \<in> set nodes - set out" for y
      using popped_least [OF Suc.prems(1) ne pop mono that] by blast
    show ?thesis
    proof (rule Suc.IH)
      show "kahn_inv nodes succs deg' q' (out @ [i])"
        by (rule inv_step [OF Suc.prems(1) ne pop rel])
      show "kahn_loop never key succs fuel deg' q' (out @ [i]) = Done out'"
        using Suc.prems(2) pop rel Cons by simp
      show "sorted (map key (out @ [i]))"
        using Suc.prems(3,4) i by (auto simp: sorted_append)
      show "\<forall>a \<in> set (out @ [i]). \<forall>b \<in> set nodes - set (out @ [i]). key a \<le> key b"
        using Suc.prems(4) least by auto
    qed
  qed
qed

lemma kahn_sorted:
  assumes mono: "\<And>x y. x \<in> set nodes \<Longrightarrow> y \<in> set (succs x) \<Longrightarrow> key x < key y"
  shows "kahn never key nodes succs = Done (sort_key key nodes)"
proof -
  obtain out where out: "kahn never key nodes succs = Done out" using kahn_total by blast
  have "edge_rel nodes succs \<subseteq> inv_image {(a, b). a < b} key"
    using mono by (auto simp: edge_rel_def)
  moreover have "acyclic (inv_image {(a, b :: 'k). a < b} key)"
  proof -
    have "(inv_image {(a, b :: 'k). a < b} key)\<^sup>+ = inv_image {(a, b). a < b} key"
      by (rule trancl_id) (rule trans_inv_image, simp add: trans_def, metis less_trans)
    then show ?thesis by (simp add: acyclic_def)
  qed
  ultimately have "acyclic (edge_rel nodes succs)" by (rule acyclic_subset [rotated])
  then have "set out = set nodes" by (rule kahn_complete [OF out])
  moreover have "sorted (map key out)"
    by (rule loop_sorted [OF inv_init out [unfolded kahn_def] mono]) simp_all
  ultimately have "out = sort_key key nodes"
    using kahn_sound(1) [OF out] distinct_nodes key_inj
    by (intro map_sorted_distinct_set_unique [of key]) (simp_all add: distinct_map)
  then show ?thesis using out by simp
qed

end

section \<open>Stopping early\<close>

text \<open>
  A loop with a stop test gives the result of the plain loop, unless some element of that result
  fails the test at the moment it is popped.
\<close>

lemma kahn_loop_extends:
  "kahn_loop stop key succs fuel deg q out = Done out' \<Longrightarrow> \<exists>zs. out' = out @ zs"
proof (induction stop key succs fuel deg q out rule: kahn_loop.induct)
  case (3 stop key succs fuel deg x q out)
  then show ?case by (fastforce split: prod.splits if_splits)
qed auto

lemma kahn_loop_stop:
  assumes "kahn_loop never key succs fuel deg q out = Done out'"
  shows "kahn_loop stop key succs fuel deg q out =
    (if \<exists>k. length out \<le> k \<and> k < length out' \<and> stop (out' ! k) (take k out') then Stopped else Done out')"
  using assms
proof (induction fuel arbitrary: deg q out)
  case 0
  then show ?case by (cases q) auto
next
  case (Suc fuel)
  show ?case
  proof (cases q)
    case Nil
    with Suc.prems show ?thesis by simp
  next
    case (Cons x xs)
    obtain i q1 where pop: "heap_pop key q = (i, q1)" by fastforce
    obtain deg' q' where rel: "relax deg q1 (succs i) = (deg', q')" by fastforce
    have rest: "kahn_loop never key succs fuel deg' q' (out @ [i]) = Done out'"
      using Suc.prems pop rel Cons by simp
    obtain zs where zs: "out' = out @ i # zs" using kahn_loop_extends [OF rest] by auto
    have here: "out' ! length out = i" "take (length out) out' = out" by (simp_all add: zs)
    have "(\<exists>k. length out \<le> k \<and> k < length out' \<and> stop (out' ! k) (take k out')) \<longleftrightarrow>
        stop i out \<or> (\<exists>k. length (out @ [i]) \<le> k \<and> k < length out' \<and> stop (out' ! k) (take k out'))"
    proof
      assume "\<exists>k. length out \<le> k \<and> k < length out' \<and> stop (out' ! k) (take k out')"
      then obtain k where k: "length out \<le> k" "k < length out'" "stop (out' ! k) (take k out')"
        by blast
      show "stop i out \<or> (\<exists>k. length (out @ [i]) \<le> k \<and> k < length out' \<and> stop (out' ! k) (take k out'))"
      proof (cases "k = length out")
        case True
        with k here show ?thesis by simp
      next
        case False
        with k show ?thesis by (intro disjI2 exI [of _ k]) simp
      qed
    next
      assume "stop i out \<or> (\<exists>k. length (out @ [i]) \<le> k \<and> k < length out' \<and> stop (out' ! k) (take k out'))"
      then show "\<exists>k. length out \<le> k \<and> k < length out' \<and> stop (out' ! k) (take k out')"
      proof
        assume "stop i out"
        then show ?thesis using here by (intro exI [of _ "length out"]) (simp add: zs)
      next
        assume "\<exists>k. length (out @ [i]) \<le> k \<and> k < length out' \<and> stop (out' ! k) (take k out')"
        then obtain k where "length (out @ [i]) \<le> k" "k < length out'" "stop (out' ! k) (take k out')"
          by blast
        then show ?thesis by (intro exI [of _ k]) simp
      qed
    qed
    then show ?thesis using Suc.IH [OF rest] pop rel Cons by auto
  qed
qed

lemma kahn_stop:
  assumes "kahn never key nodes succs = Done out"
  shows "kahn stop key nodes succs =
    (if \<exists>k < length out. stop (out ! k) (take k out) then Stopped else Done out)"
  using kahn_loop_stop [OF assms [unfolded kahn_def], of stop] by (simp add: kahn_def)

section \<open>Independence of the iteration order\<close>

text \<open>
  Go iterates over maps in an unspecified order. The result depends on the set of nodes and the
  multiplicity of edges only, so the order in which nodes and successors are listed is immaterial.
\<close>

lemma count_list_mset_cong: "mset xs = mset ys \<Longrightarrow> count_list xs y = count_list ys y"
  by (simp add: count_list_eq_length_filter) (metis mset_filter size_mset)

lemma heap_pop_cong:
  assumes "set q = set q'" and "distinct q" and "distinct q'" and "q \<noteq> []" and "inj_on key (set q)"
    and "heap_pop key q = (i, q1)" and "heap_pop key q' = (i', q1')"
  shows "i = i'" and "set q1 = set q1'" and "distinct q1" and "distinct q1'" and "set q1 = set q - {i}"
proof -
  have "q' \<noteq> []" using assms(1,4) by (cases q) auto
  note p = heap_pop_props [OF assms(4,6)] heap_pop_props [OF \<open>q' \<noteq> []\<close> assms(7)]
  have "key i = key i'" using p assms(1) by (simp add: order_antisym)
  then show "i = i'" using p assms(1,5) by (auto dest: inj_onD)
  then show "set q1 = set q1'" "distinct q1" "distinct q1'" "set q1 = set q - {i}"
    using p assms(1-3) by auto
qed

lemma kahn_loop_cong:
  assumes inj: "inj_on key N" and closed: "\<And>x. x \<in> N \<Longrightarrow> set (succs x) \<subseteq> N"
    and same: "\<And>x. x \<in> N \<Longrightarrow> mset (succs x) = mset (succs' x)"
    and "set q = set q'" and "distinct q" and "distinct q'" and "set q \<subseteq> N"
    and "\<forall>y \<in> set q. deg y \<le> 0"
  shows "kahn_loop stop key succs fuel deg q out = kahn_loop stop key succs' fuel deg q' out"
  using assms(4-8)
proof (induction fuel arbitrary: deg q q' out)
  case 0
  then show ?case by (cases q; cases q') auto
next
  case (Suc fuel)
  show ?case
  proof (cases "q = []")
    case True
    with Suc.prems show ?thesis by (cases q') auto
  next
    case False
    then have False': "q' \<noteq> []" using Suc.prems(1) by (cases q) auto
    obtain i q1 where pop: "heap_pop key q = (i, q1)" by fastforce
    obtain i' q1' where pop': "heap_pop key q' = (i', q1')" by fastforce
    have inj_q: "inj_on key (set q)" using inj Suc.prems(4) by (rule inj_on_subset)
    note popped = heap_pop_cong [OF Suc.prems(1-3) False inj_q pop pop']
    have i: "i \<in> N" using heap_pop_props(1) [OF False pop] Suc.prems(4) by blast
    obtain deg1 r1 where rel: "relax deg q1 (succs i) = (deg1, r1)" by fastforce
    obtain deg2 r2 where rel': "relax deg q1' (succs' i) = (deg2, r2)" by fastforce
    have cnt: "count_list (succs i) y = count_list (succs' i) y" for y
      by (rule count_list_mset_cong [OF same [OF i]])
    have "deg1 = deg2"
      using relax_deg [OF rel] relax_deg [OF rel'] cnt by (simp add: fun_eq_iff)
    moreover have "set r1 = set r2"
      using relax_set [OF rel] relax_set [OF rel'] popped(2) cnt by simp
    moreover have le: "\<forall>y \<in> set q1. deg y \<le> 0" using popped(5) Suc.prems(5) by auto
    then have "distinct r1" by (rule relax_distinct [OF rel popped(3)])
    moreover have "distinct r2" using relax_distinct [OF rel' popped(4)] le popped(2) by simp
    moreover have "set r1 \<subseteq> N"
    proof
      fix y assume "y \<in> set r1"
      then have "y \<in> set q1 \<or> count_list (succs i) y \<noteq> 0" using relax_set [OF rel] by auto
      then show "y \<in> N"
        using popped(5) Suc.prems(4) closed [OF i] by (auto simp: count_list_zero)
    qed
    moreover have "\<forall>y \<in> set r1. deg1 y \<le> 0"
      using relax_set [OF rel] relax_deg [OF rel] le by fastforce
    ultimately have "kahn_loop stop key succs fuel deg1 r1 (out @ [i]) =
        kahn_loop stop key succs' fuel deg2 r2 (out @ [i])"
      using Suc.IH [of r1 r2 deg1] by simp
    then show ?thesis using pop pop' rel rel' popped(1) False False' by (cases q; cases q') simp_all
  qed
qed

lemma kahn_cong:
  assumes "distinct nodes" and "distinct nodes'" and "set nodes = set nodes'"
    and "inj_on key (set nodes)" and "\<And>x. x \<in> set nodes \<Longrightarrow> set (succs x) \<subseteq> set nodes"
    and "\<And>x. x \<in> set nodes \<Longrightarrow> mset (succs x) = mset (succs' x)"
  shows "kahn stop key nodes succs = kahn stop key nodes' succs'"
proof -
  have len: "length nodes = length nodes'"
    using assms(1-3) by (metis distinct_card)
  have "indegree nodes succs y = indegree nodes' succs' y" for y
  proof -
    have "(\<Sum>x \<in> set nodes. int (count_list (succs x) y)) = (\<Sum>x \<in> set nodes. int (count_list (succs' x) y))"
      using count_list_mset_cong [OF assms(6)] by (intro sum.cong) simp_all
    then show ?thesis
      using assms(1-3) by (simp add: indegree_def count_list_concat_map)
  qed
  then have ind: "indegree nodes succs = indegree nodes' succs'" by blast
  show ?thesis
    unfolding kahn_def ind len
    by (rule kahn_loop_cong [OF assms(4-6)]) (use assms(1-3) in auto)
qed

end
