(* ===== verification/Branches.thy ===== *)
theory Branches
  imports Events Kahn
begin

text \<open>
  Ordering the event log and projecting it to context branches
  (\<open>cli/internal/domain/context_branch.go\<close>).

  \<open>OrderHistoryEvents\<close> indexes the events by ID, rejects conflicting copies and missing
  dependencies, and runs the heap-driven topological sort of theory \<open>Kahn\<close> with the queue order of
  \<open>historyQueue.Less\<close> (time, then ID). The Go map \<open>byID\<close> is the list of its values in
  insertion order; Go's own iteration order is unspecified and the results are shown not to depend
  on it. \<open>ProjectContextBranches\<close> folds \<open>apply\<close> over the ordered binding events; it is modelled
  as a result, since its callers drop the projection when it comes with an error.
\<close>

section \<open>Ordering events\<close>

definition put_event :: "HistoryEvent \<Rightarrow> HistoryEvent list \<Rightarrow> HistoryEvent list" where
  "put_event e byID =
     (if he_ID e \<in> he_ID ` set byID then map (\<lambda>old. if he_ID old = he_ID e then e else old) byID
      else byID @ [e])"

definition lookup_event :: "string \<Rightarrow> HistoryEvent list \<Rightarrow> HistoryEvent option" where
  "lookup_event i byID = find (\<lambda>e. he_ID e = i) byID"

fun index_history :: "HistoryEvent list \<Rightarrow> HistoryEvent list \<Rightarrow> HistoryEvent list result" where
  "index_history byID [] = Inr byID"
| "index_history byID (e # es) =
     (case lookup_event (he_ID e) byID of
        Some old \<Rightarrow> if old \<noteq> e then Inl (ErrText ''conflicting history operation'')
                    else index_history (put_event e byID) es
      | None \<Rightarrow> index_history (put_event e byID) es)"

definition event_key :: "HistoryEvent \<Rightarrow> int \<times> string" where
  "event_key e = (instant (he_CreatedAt e), he_ID e)"

definition history_children :: "HistoryEvent list \<Rightarrow> HistoryEvent \<Rightarrow> HistoryEvent list" where
  "history_children byID e = filter (\<lambda>c. he_ID e \<in> set (HistoryDependencies c)) byID"

definition missing_dependency :: "HistoryEvent list \<Rightarrow> bool" where
  "missing_dependency byID \<longleftrightarrow>
     list_ex (\<lambda>e. list_ex (\<lambda>parent. parent \<noteq> [] \<and> lookup_event parent byID = None)
                    (HistoryDependencies e)) byID"

definition OrderHistoryEvents :: "HistoryEvent list \<Rightarrow> HistoryEvent list result" where
  "OrderHistoryEvents events =
     bind_r (index_history [] events) (\<lambda>byID.
       if missing_dependency byID then Inl (ErrText ''missing history dependency'')
       else case kahn never event_key byID (history_children byID) of
              Done out \<Rightarrow> if length out \<noteq> length byID then Inl (ErrText ''cyclic history dependency'')
                          else Inr out
            | _ \<Rightarrow> Inl OutOfFuel)"

section \<open>Context branches\<close>

record ContextBranch =
  cb_ID :: string
  cb_Name :: string
  cb_EventID :: string
  cb_Archived :: bool

record ContextBranchProjection =
  Active :: "string \<rightharpoonup> ContextBranch"
  ByID :: "string \<rightharpoonup> ContextBranch"
  Released :: "string \<rightharpoonup> string"

definition empty_projection :: ContextBranchProjection where
  "empty_projection = \<lparr>Active = Map.empty, ByID = Map.empty, Released = Map.empty\<rparr>"

definition released :: "ContextBranchProjection \<Rightarrow> string \<Rightarrow> string" where
  "released p name = (case Released p name of None \<Rightarrow> [] | Some eid \<Rightarrow> eid)"

definition IsBranchBindingEvent :: "HistoryEvent \<Rightarrow> bool" where
  "IsBranchBindingEvent e \<longleftrightarrow>
     he_Kind e = ''birth'' \<or> he_Kind e = ''orphan'' \<or> he_Kind e = ''rename'' \<or> he_Kind e = ''archive''"

definition conflict :: go_error where
  "conflict = ErrText ''context branch identity conflict''"

definition apply_birth ::
  "ContextBranchProjection \<Rightarrow> HistoryEvent \<Rightarrow> ContextBranchProjection result" where
  "apply_birth p e =
     (if ByID p (he_BranchID e) \<noteq> None then Inl conflict
      else if Active p (he_Branch e) \<noteq> None then Inl conflict
      else if released p (he_Branch e) \<noteq> he_BindingParent e then Inl conflict
      else let b = \<lparr>cb_ID = he_BranchID e, cb_Name = he_Branch e, cb_EventID = he_ID e, cb_Archived = False\<rparr>
           in Inr (p\<lparr>Active := (Active p)(cb_Name b \<mapsto> b), ByID := (ByID p)(cb_ID b \<mapsto> b)\<rparr>))"

text \<open>The branch a rename or an archive starts from: the known one, or a legacy identity.\<close>

definition apply_source ::
  "ContextBranchProjection \<Rightarrow> HistoryEvent \<Rightarrow> string \<Rightarrow> ContextBranch result" where
  "apply_source p e oldName =
     (case ByID p (he_BranchID e) of
        Some b \<Rightarrow> Inr b
      | None \<Rightarrow>
          if he_BindingParent e \<noteq> [] \<or> released p oldName \<noteq> []
             \<or> he_BranchID e \<noteq> LegacyContextBranchID (he_RepoID e) oldName then Inl conflict
          else if (case Active p oldName of None \<Rightarrow> False | Some active \<Rightarrow> cb_ID active \<noteq> he_BranchID e)
            then Inl conflict
          else Inr \<lparr>cb_ID = he_BranchID e, cb_Name = oldName, cb_EventID = [], cb_Archived = False\<rparr>)"

definition apply_event ::
  "ContextBranchProjection \<Rightarrow> HistoryEvent \<Rightarrow> ContextBranchProjection result" where
  "apply_event p e =
     (if he_Kind e = ''birth'' \<or> he_Kind e = ''orphan'' then apply_birth p e
      else
        let rename = (he_Kind e = ''rename'');
            oldName = (if rename then he_PreviousBranch e else he_Branch e)
        in bind_r (apply_source p e oldName) (\<lambda>b.
          if cb_Archived b \<or> cb_EventID b \<noteq> he_BindingParent e \<or> cb_Name b \<noteq> oldName then Inl conflict
          else if rename \<and> Active p (he_Branch e) \<noteq> None then Inl conflict
          else if rename \<and> released p (he_Branch e) \<noteq> he_NameParent e then Inl conflict
          else
            let active = (Active p)(oldName := None);
                b = b\<lparr>cb_EventID := he_ID e, cb_Archived := (he_Kind e = ''archive'')\<rparr>;
                b = (if cb_Archived b then b else b\<lparr>cb_Name := he_Branch e\<rparr>)
            in Inr \<lparr>Active = (if cb_Archived b then active else active(cb_Name b \<mapsto> b)),
                    ByID = (ByID p)(cb_ID b \<mapsto> b),
                    Released = (Released p)(oldName \<mapsto> he_ID e)\<rparr>))"

fun apply_all ::
  "ContextBranchProjection \<Rightarrow> HistoryEvent list \<Rightarrow> ContextBranchProjection result" where
  "apply_all p [] = Inr p"
| "apply_all p (e # es) = bind_r (apply_event p e) (\<lambda>p'. apply_all p' es)"

definition ProjectContextBranches :: "HistoryEvent list \<Rightarrow> ContextBranchProjection result" where
  "ProjectContextBranches events =
     bind_r (OrderHistoryEvents (filter IsBranchBindingEvent events)) (apply_all empty_projection)"

definition Identity :: "ContextBranchProjection \<Rightarrow> string \<Rightarrow> string \<Rightarrow> string" where
  "Identity p repo name =
     (case Active p name of Some b \<Rightarrow> cb_ID b | None \<Rightarrow> LegacyContextBranchID repo name)"

definition ValidateHistoryBranch :: "HistoryEvent list \<Rightarrow> HistoryEvent \<Rightarrow> check" where
  "ValidateHistoryBranch events e =
     (if IsBranchBindingEvent e then check_of (ProjectContextBranches (events @ [e]))
      else if he_Kind e \<noteq> ''advance'' then None
      else case ProjectContextBranches events of
             Inl err \<Rightarrow> Some err
           | Inr p \<Rightarrow>
               (case Active p (he_Branch e) of
                  Some b \<Rightarrow> fail_if (cb_ID b \<noteq> he_BranchID e)
                              (ErrText ''branch belongs to a different context identity'')
                | None \<Rightarrow> fail_if (released p (he_Branch e) \<noteq> [] \<or>
                                  (case ByID p (he_BranchID e) of None \<Rightarrow> False | Some b \<Rightarrow> cb_ID b \<noteq> []))
                            (ErrText ''context branch was renamed or archived'')))"

section \<open>The index of events\<close>

text \<open>The map \<open>byID\<close> after all assignments, disregarding conflicts.\<close>

definition history_nodes :: "HistoryEvent list \<Rightarrow> HistoryEvent list" where
  "history_nodes events = foldl (\<lambda>byID e. put_event e byID) [] events"

definition event_conflict :: "HistoryEvent list \<Rightarrow> bool" where
  "event_conflict es \<longleftrightarrow> (\<exists>a \<in> set es. \<exists>b \<in> set es. he_ID a = he_ID b \<and> a \<noteq> b)"

definition distinct_ids :: "HistoryEvent list \<Rightarrow> bool" where
  "distinct_ids es \<longleftrightarrow> distinct (map he_ID es)"

lemma put_event_map_ids:
  "map he_ID (put_event e byID) =
     (if he_ID e \<in> he_ID ` set byID then map he_ID byID else map he_ID byID @ [he_ID e])"
  by (simp add: put_event_def)

lemma put_event_ids: "he_ID ` set (put_event e byID) = insert (he_ID e) (he_ID ` set byID)"
proof -
  have "set (map he_ID (put_event e byID)) = insert (he_ID e) (set (map he_ID byID))"
    unfolding put_event_map_ids by auto
  then show ?thesis by simp
qed

lemma put_event_distinct: "distinct_ids byID \<Longrightarrow> distinct_ids (put_event e byID)"
  unfolding distinct_ids_def put_event_map_ids by auto

lemma history_nodes_distinct [simp]: "distinct_ids (history_nodes es)"
proof -
  have "distinct_ids byID \<Longrightarrow> distinct_ids (foldl (\<lambda>byID e. put_event e byID) byID es)" for byID
    by (induction es arbitrary: byID) (simp_all add: put_event_distinct)
  then show ?thesis by (simp add: history_nodes_def distinct_ids_def)
qed

lemma distinct_ids_inj: "distinct_ids es \<Longrightarrow> inj_on he_ID (set es)"
  by (simp add: distinct_ids_def distinct_map)

lemma distinct_ids_distinct: "distinct_ids es \<Longrightarrow> distinct es"
  by (simp add: distinct_ids_def distinct_map)

lemma lookup_event_None: "lookup_event i byID = None \<longleftrightarrow> i \<notin> he_ID ` set byID"
  by (auto simp: lookup_event_def find_None_iff)

lemma lookup_event_Some:
  "lookup_event i byID = Some e \<Longrightarrow> e \<in> set byID \<and> he_ID e = i"
  by (auto simp: lookup_event_def find_Some_iff)

lemma lookup_event_in:
  "distinct_ids byID \<Longrightarrow> e \<in> set byID \<Longrightarrow> lookup_event (he_ID e) byID = Some e"
  using distinct_ids_inj lookup_event_Some [of "he_ID e" byID]
  by (cases "lookup_event (he_ID e) byID") (auto simp: inj_on_def lookup_event_None)

interpretation hist: kahn_graph "history_nodes es" "history_children (history_nodes es)" event_key
  for es
proof
  show "distinct (history_nodes es)" by (rule distinct_ids_distinct) simp
  show "set (history_children (history_nodes es) x) \<subseteq> set (history_nodes es)" for x
    by (auto simp: history_children_def)
  show "inj_on event_key (set (history_nodes es))"
    using distinct_ids_inj [OF history_nodes_distinct] by (auto simp: inj_on_def event_key_def)
qed

lemma put_event_same: "distinct_ids byID \<Longrightarrow> e \<in> set byID \<Longrightarrow> put_event e byID = byID"
  using distinct_ids_inj by (auto simp: put_event_def inj_on_def intro!: map_idI)

lemma event_conflict_mono: "event_conflict es \<Longrightarrow> set es \<subseteq> set es' \<Longrightarrow> event_conflict es'"
  by (auto simp: event_conflict_def)

lemma event_conflict_cong: "set es = set es' \<Longrightarrow> event_conflict es = event_conflict es'"
  by (simp add: event_conflict_def)

lemma distinct_ids_no_conflict: "distinct_ids es \<Longrightarrow> \<not> event_conflict es"
  using distinct_ids_inj by (auto simp: event_conflict_def inj_on_def)

lemma index_history_eq:
  assumes "distinct_ids byID"
  shows "index_history byID es =
           (if event_conflict (byID @ es) then Inl (ErrText ''conflicting history operation'')
            else Inr (foldl (\<lambda>byID e. put_event e byID) byID es))"
  using assms
proof (induction es arbitrary: byID)
  case (Cons e es)
  show ?case
  proof (cases "lookup_event (he_ID e) byID")
    case None
    then have put: "put_event e byID = byID @ [e]" by (simp add: put_event_def lookup_event_None)
    have "distinct_ids (byID @ [e])" using put_event_distinct [OF Cons.prems, of e] by (simp add: put)
    from Cons.IH [OF this] None show ?thesis by (simp add: put)
  next
    case (Some old)
    then have old: "old \<in> set byID" "he_ID old = he_ID e" using lookup_event_Some by auto
    show ?thesis
    proof (cases "old = e")
      case True
      then have "event_conflict (byID @ e # es) = event_conflict (byID @ es)"
        using old by (intro event_conflict_cong) auto
      then show ?thesis
        using Some True Cons.IH [OF Cons.prems] put_event_same [OF Cons.prems] old by simp
    next
      case False
      then have "event_conflict (byID @ e # es)" using old by (auto simp: event_conflict_def)
      then show ?thesis using Some False by simp
    qed
  qed
qed (simp add: distinct_ids_no_conflict)

lemma index_history_nodes:
  "index_history [] es =
     (if event_conflict es then Inl (ErrText ''conflicting history operation'') else Inr (history_nodes es))"
  by (subst index_history_eq) (simp_all add: distinct_ids_def history_nodes_def)

lemma put_event_set:
  "\<not> event_conflict (e # byID) \<Longrightarrow> set (put_event e byID) = insert e (set byID)"
  by (auto simp: put_event_def event_conflict_def)

lemma foldl_put_event_set:
  "\<not> event_conflict (byID @ es) \<Longrightarrow>
     set (foldl (\<lambda>byID e. put_event e byID) byID es) = set byID \<union> set es"
proof (induction es arbitrary: byID)
  case (Cons e es)
  have "\<not> event_conflict (e # byID)" using Cons.prems event_conflict_mono [of "e # byID" "byID @ e # es"] by auto
  then have put: "set (put_event e byID) = insert e (set byID)" by (rule put_event_set)
  have "\<not> event_conflict (put_event e byID @ es)"
    using Cons.prems put by (subst event_conflict_cong [of _ "byID @ e # es"]) auto
  from Cons.IH [OF this] put show ?case by simp
qed simp

lemma history_nodes_set: "\<not> event_conflict es \<Longrightarrow> set (history_nodes es) = set es"
  unfolding history_nodes_def using foldl_put_event_set [of "[]" es] by simp

section \<open>Correctness of the order\<close>

definition dependency_rel :: "HistoryEvent list \<Rightarrow> (HistoryEvent \<times> HistoryEvent) set" where
  "dependency_rel es =
     {(a, b). a \<in> set es \<and> b \<in> set es \<and> he_ID a \<in> set (HistoryDependencies b)}"

lemma edge_rel_history: "edge_rel nodes (history_children nodes) = dependency_rel nodes"
  by (auto simp: edge_rel_def dependency_rel_def history_children_def)

lemma missing_dependency_iff:
  "missing_dependency nodes \<longleftrightarrow> (\<exists>e \<in> set nodes. \<not> set (HistoryDependencies e) \<subseteq> he_ID ` set nodes)"
  using HistoryDependencies_no_empty by (fastforce simp: missing_dependency_def list_ex_iff lookup_event_None)

lemma OrderHistoryEvents_eq:
  "OrderHistoryEvents es =
     (if event_conflict es then Inl (ErrText ''conflicting history operation'')
      else if missing_dependency (history_nodes es) then Inl (ErrText ''missing history dependency'')
      else case kahn never event_key (history_nodes es) (history_children (history_nodes es)) of
             Done out \<Rightarrow> if length out \<noteq> length (history_nodes es)
                         then Inl (ErrText ''cyclic history dependency'') else Inr out
           | _ \<Rightarrow> Inl OutOfFuel)"
  by (simp add: OrderHistoryEvents_def index_history_nodes)

lemma OrderHistoryEvents_Inr:
  assumes "OrderHistoryEvents es = Inr out"
  shows "\<not> event_conflict es" "\<not> missing_dependency (history_nodes es)"
    "kahn never event_key (history_nodes es) (history_children (history_nodes es)) = Done out"
    "set out = set es" "distinct_ids out"
proof -
  let ?n = "history_nodes es"
  show c: "\<not> event_conflict es" and "\<not> missing_dependency ?n"
    and k: "kahn never event_key ?n (history_children ?n) = Done out"
    using assms by (auto simp: OrderHistoryEvents_eq split: if_splits kahn_result.splits)
  from assms have "length out = length ?n"
    by (auto simp: OrderHistoryEvents_eq split: if_splits kahn_result.splits)
  then have "set out = set ?n"
    using hist.kahn_all_iff [OF k] hist.kahn_complete [OF k] by simp
  then show "set out = set es" using history_nodes_set [OF c] by simp
  show "distinct_ids out"
    using hist.kahn_sound(1) [OF k] distinct_ids_inj [OF history_nodes_distinct, of es] \<open>set out = set ?n\<close>
    by (simp add: distinct_ids_def distinct_map)
qed

lemma OrderHistoryEvents_deps_first:
  assumes "OrderHistoryEvents es = Inr (xs @ e # ys)" "d \<in> set (HistoryDependencies e)"
  shows "d \<in> he_ID ` set xs"
proof -
  note ord = OrderHistoryEvents_Inr [OF assms(1)]
  have e: "e \<in> set (history_nodes es)" using ord(4) history_nodes_set [OF ord(1)] by auto
  with ord(2) assms(2) obtain a where a: "a \<in> set (history_nodes es)" "he_ID a = d"
    by (auto simp: missing_dependency_iff)
  with assms(2) e have "e \<in> set (history_children (history_nodes es) a)" by (simp add: history_children_def)
  from hist.kahn_topological [OF ord(3) a(1) this] a(2) show ?thesis by blast
qed

lemma event_key_inj: "\<not> event_conflict es \<Longrightarrow> inj_on event_key (set es)"
  by (auto simp: inj_on_def event_key_def event_conflict_def)

lemma OrderHistoryEvents_set_cong:
  assumes "set es = set es'"
  shows "OrderHistoryEvents es = OrderHistoryEvents es'"
proof (cases "event_conflict es")
  case True
  then show ?thesis using event_conflict_cong [OF assms] by (simp add: OrderHistoryEvents_eq)
next
  case False
  let ?n = "history_nodes es" and ?n' = "history_nodes es'"
  have c': "\<not> event_conflict es'" using False event_conflict_cong [OF assms] by simp
  have set: "set ?n = set ?n'" using assms history_nodes_set [OF False] history_nodes_set [OF c'] by simp
  have d: "distinct ?n" "distinct ?n'" by (simp_all add: distinct_ids_distinct)
  have "mset ?n = mset ?n'" using d set by (simp add: set_eq_iff_mset_eq_distinct)
  then have "mset (history_children ?n x) = mset (history_children ?n' x)" for x
    by (simp add: history_children_def)
  then have "kahn never event_key ?n (history_children ?n) = kahn never event_key ?n' (history_children ?n')"
    using d set hist.succs_closed [of es] hist.key_inj [of es] by (intro kahn_cong) simp_all
  moreover have "length ?n = length ?n'" using \<open>mset ?n = mset ?n'\<close> by (metis size_mset)
  moreover have "missing_dependency ?n = missing_dependency ?n'" using set by (simp add: missing_dependency_iff)
  ultimately show ?thesis using False c' unfolding OrderHistoryEvents_eq by (simp only: if_False)
qed

text \<open>
  C5: \<open>OrderHistoryEvents\<close> is correct: what it returns holds exactly the given events, each
  operation once, and every event comes after all the operations it depends on.
\<close>

theorem OrderHistoryEvents_sound:
  assumes "OrderHistoryEvents es = Inr out"
  shows "set out = set es \<and> distinct (map he_ID out) \<and>
         (\<forall>k < length out. set (HistoryDependencies (out ! k)) \<subseteq> he_ID ` set (take k out))"
proof (intro conjI allI impI subsetI)
  show "set out = set es" "distinct (map he_ID out)"
    using OrderHistoryEvents_Inr(4,5) [OF assms] by (simp_all add: distinct_ids_def)
  fix k d assume k: "k < length out" and d: "d \<in> set (HistoryDependencies (out ! k))"
  from k have "out = take k out @ out ! k # drop (Suc k) out" by (simp add: id_take_nth_drop)
  with assms have "OrderHistoryEvents es = Inr (take k out @ out ! k # drop (Suc k) out)" by simp
  from OrderHistoryEvents_deps_first [OF this d] show "d \<in> he_ID ` set (take k out)" .
qed

text \<open>
  C6: The sort fails only when there is no valid order: it succeeds exactly when no operation ID
  has two different contents, every dependency is present and the dependencies are acyclic. In
  particular its loop always ends.
\<close>

theorem OrderHistoryEvents_complete:
  "(\<exists>out. OrderHistoryEvents es = Inr out) \<longleftrightarrow>
     \<not> event_conflict es \<and> (\<Union>e \<in> set es. set (HistoryDependencies e)) \<subseteq> he_ID ` set es \<and>
     acyclic (dependency_rel es)"
proof (cases "event_conflict es")
  case True
  then show ?thesis by (simp add: OrderHistoryEvents_eq)
next
  case False
  let ?n = "history_nodes es"
  obtain out where k: "kahn never event_key ?n (history_children ?n) = Done out"
    using hist.kahn_total by blast
  have set: "set ?n = set es" using False by (rule history_nodes_set)
  then have "dependency_rel ?n = dependency_rel es" by (simp add: dependency_rel_def)
  then have "length out = length ?n \<longleftrightarrow> acyclic (dependency_rel es)"
    using hist.kahn_all_iff [OF k] by (simp add: edge_rel_history)
  moreover have "\<not> missing_dependency ?n \<longleftrightarrow> (\<Union>e \<in> set es. set (HistoryDependencies e)) \<subseteq> he_ID ` set es"
    using set by (auto simp: missing_dependency_iff)
  ultimately show ?thesis using False k by (auto simp: OrderHistoryEvents_eq)
qed

text \<open>
  C7: The order of arrival is irrelevant: two lists with the same events, in any order and with any
  repetitions (retries), are ordered identically or rejected with the same error.
\<close>

theorem OrderHistoryEvents_order_independent:
  assumes "set es = set es'"
  shows "OrderHistoryEvents es = OrderHistoryEvents es'"
  using assms by (rule OrderHistoryEvents_set_cong)

text \<open>
  Ordinary observation order is kept: when no clock moved back across a dependency (every
  dependency is earlier in the order of time, then ID), the result is the events sorted by time
  and ID.
\<close>

theorem OrderHistoryEvents_observation_order:
  assumes "OrderHistoryEvents es = Inr out"
    and "\<And>a b. (a, b) \<in> dependency_rel es \<Longrightarrow> event_key a < event_key b"
  shows "sorted (map event_key out)"
proof -
  note ord = OrderHistoryEvents_Inr [OF assms(1)]
  have "kahn never event_key (history_nodes es) (history_children (history_nodes es)) =
          Done (sort_key event_key (history_nodes es))"
    using assms(2) history_nodes_set [OF ord(1)]
    by (intro hist.kahn_sorted) (auto simp: history_children_def dependency_rel_def)
  with ord(3) have "out = sort_key event_key (history_nodes es)" by simp
  then show ?thesis by simp
qed

text \<open>Two concrete events: the birth of a branch and its rename, recorded with an earlier clock.\<close>

definition sample_birth :: HistoryEvent where
  "sample_birth = sample_event\<lparr>he_Creation := None, he_BindingParent := []\<rparr>"

definition sample_rename :: HistoryEvent where
  "sample_rename = sample_birth\<lparr>he_ID := replicate 32 (CHR ''3''), he_Kind := ''rename'',
     he_Branch := ''feature'', he_PreviousBranch := ''topic'', he_BindingParent := he_ID sample_birth,
     he_CreatedAt := \<lparr>instant = 4, repr = 0\<rparr>\<rparr>"

definition sample_archive :: HistoryEvent where
  "sample_archive = sample_birth\<lparr>he_ID := replicate 32 (CHR ''4''), he_Kind := ''archive'',
     he_Branch := ''feature'', he_BindingParent := he_ID sample_rename,
     he_CreatedAt := \<lparr>instant = 6, repr = 0\<rparr>\<rparr>"

lemma sample_order:
  "OrderHistoryEvents [sample_rename, sample_birth] = Inr [sample_birth, sample_rename]"
  "OrderHistoryEvents [sample_birth] = Inr [sample_birth]"
  by code_simp+

theorem OrderHistoryEvents_sound_witness:
  "OrderHistoryEvents [sample_rename, sample_birth] = Inr [sample_birth, sample_rename] \<and>
   set (HistoryDependencies sample_rename) \<subseteq> he_ID ` {sample_birth}"
  using sample_order(1) OrderHistoryEvents_sound [OF sample_order(1)] by (simp add: All_less_Suc eval_nat_numeral)

theorem OrderHistoryEvents_order_independent_witness:
  "OrderHistoryEvents [sample_birth, sample_rename, sample_birth] = Inr [sample_birth, sample_rename]"
  using OrderHistoryEvents_order_independent
    [of "[sample_birth, sample_rename, sample_birth]" "[sample_rename, sample_birth]"] sample_order(1)
  by (simp add: insert_commute)

theorem OrderHistoryEvents_observation_order_witness:
  "let r = sample_rename\<lparr>he_BindingParent := []\<rparr> in
   OrderHistoryEvents [sample_archive, r] = Inr [r, sample_archive] \<and>
   sorted (map event_key [r, sample_archive])"
proof -
  let ?r = "sample_rename\<lparr>he_BindingParent := []\<rparr>"
  have ord: "OrderHistoryEvents [sample_archive, ?r] = Inr [?r, sample_archive]" by code_simp
  have "event_key a < event_key b" if "(a, b) \<in> dependency_rel [sample_archive, ?r]" for a b
    using that by (auto simp: dependency_rel_def HistoryDependencies_def sample_archive_def
        sample_rename_def sample_birth_def sample_event_def event_key_def)
  from ord OrderHistoryEvents_observation_order [OF ord this] show ?thesis by (simp add: Let_def)
qed

section \<open>Correctness of the projection\<close>

definition projection_inv :: "ContextBranchProjection \<Rightarrow> bool" where
  "projection_inv p \<longleftrightarrow>
     (\<forall>n b. Active p n = Some b \<longrightarrow> cb_Name b = n \<and> \<not> cb_Archived b \<and> ByID p (cb_ID b) = Some b) \<and>
     (\<forall>i b. ByID p i = Some b \<longrightarrow> cb_ID b = i \<and> (\<not> cb_Archived b \<longrightarrow> Active p (cb_Name b) = Some b))"

lemma projection_invD:
  assumes "projection_inv p"
  shows "Active p n = Some b \<Longrightarrow> cb_Name b = n \<and> \<not> cb_Archived b \<and> ByID p (cb_ID b) = Some b"
    and "ByID p i = Some b \<Longrightarrow> cb_ID b = i \<and> (\<not> cb_Archived b \<longrightarrow> Active p (cb_Name b) = Some b)"
  using assms by (auto simp: projection_inv_def)

definition is_birth :: "HistoryEvent \<Rightarrow> bool" where
  "is_birth e \<longleftrightarrow> he_Kind e = ''birth'' \<or> he_Kind e = ''orphan''"

lemma apply_birth_inv:
  assumes "projection_inv p" "apply_birth p e = Inr p'"
  shows "projection_inv p'"
proof -
  note inv = projection_invD [OF assms(1)]
  let ?b = "\<lparr>cb_ID = he_BranchID e, cb_Name = he_Branch e, cb_EventID = he_ID e, cb_Archived = False\<rparr>"
  from assms(2) have none: "ByID p (he_BranchID e) = None" "Active p (he_Branch e) = None"
    and p': "p' = p\<lparr>Active := (Active p)(he_Branch e \<mapsto> ?b), ByID := (ByID p)(he_BranchID e \<mapsto> ?b)\<rparr>"
    by (auto simp: apply_birth_def Let_def split: if_splits)
  have "cb_Name b = n \<and> \<not> cb_Archived b \<and> ByID p' (cb_ID b) = Some b" if "Active p' n = Some b" for n b
    using that inv(1) [of n b] none p' by (auto split: if_splits)
  moreover have "cb_ID b = i \<and> (\<not> cb_Archived b \<longrightarrow> Active p' (cb_Name b) = Some b)" if "ByID p' i = Some b" for i b
    using that inv(2) [of i b] none p' by (auto split: if_splits)
  ultimately show ?thesis by (simp add: projection_inv_def)
qed

text \<open>What a successful rename or archive does, in terms of the branch it starts from.\<close>

lemma apply_event_move:
  assumes "apply_event p e = Inr p'" "\<not> is_birth e"
  obtains b b' old where "apply_source p e old = Inr b" "\<not> cb_Archived b" "cb_EventID b = he_BindingParent e"
    "cb_Name b = old" "he_Kind e = ''rename'' \<Longrightarrow> Active p (he_Branch e) = None"
    "cb_ID b' = cb_ID b" "cb_EventID b' = he_ID e" "cb_Archived b' = (he_Kind e = ''archive'')"
    "\<not> cb_Archived b' \<Longrightarrow> cb_Name b' = he_Branch e" "he_Kind e \<noteq> ''rename'' \<Longrightarrow> old = he_Branch e"
    "Active p' = (if cb_Archived b' then (Active p)(old := None) else (Active p)(old := None, cb_Name b' \<mapsto> b'))"
    "ByID p' = (ByID p)(cb_ID b' \<mapsto> b')"
proof -
  define old where "old = (if he_Kind e = ''rename'' then he_PreviousBranch e else he_Branch e)"
  from assms obtain b where b: "apply_source p e old = Inr b"
    by (auto simp: apply_event_def is_birth_def old_def Let_def split: if_splits)
  define b1 where "b1 = b\<lparr>cb_EventID := he_ID e, cb_Archived := (he_Kind e = ''archive'')\<rparr>"
  define b' where "b' = (if cb_Archived b1 then b1 else b1\<lparr>cb_Name := he_Branch e\<rparr>)"
  have arch: "cb_Archived b' = (he_Kind e = ''archive'')" by (simp add: b'_def b1_def)
  from assms b have g: "\<not> (cb_Archived b \<or> cb_EventID b \<noteq> he_BindingParent e \<or> cb_Name b \<noteq> old)"
    "\<not> (he_Kind e = ''rename'' \<and> Active p (he_Branch e) \<noteq> None)"
    and p': "p' = \<lparr>Active = (if cb_Archived b' then (Active p)(old := None) else (Active p)(old := None, cb_Name b' \<mapsto> b')),
                  ByID = (ByID p)(cb_ID b' \<mapsto> b'), Released = (Released p)(old \<mapsto> he_ID e)\<rparr>"
    unfolding apply_event_def is_birth_def b'_def b1_def by (auto simp: old_def Let_def split: if_splits)
  show ?thesis
    by (rule that [of old b b']) (use b g p' arch in \<open>auto simp: b'_def b1_def old_def\<close>)
qed

lemma apply_source_cases:
  assumes "projection_inv p" "apply_source p e old = Inr b"
  shows "cb_ID b = he_BranchID e"
    and "ByID p (he_BranchID e) = Some b \<or>
         (ByID p (he_BranchID e) = None \<and> cb_EventID b = [] \<and> Active p old = None)"
proof -
  have "Active p old = None" if "ByID p (he_BranchID e) = None"
  proof (cases "Active p old")
    case (Some a)
    with projection_invD(1) [OF assms(1) Some] that assms(2) show ?thesis
      by (auto simp: apply_source_def split: if_splits)
  qed simp
  then show "ByID p (he_BranchID e) = Some b \<or>
         (ByID p (he_BranchID e) = None \<and> cb_EventID b = [] \<and> Active p old = None)"
    using assms(2) by (auto simp: apply_source_def split: option.splits if_splits)
  show "cb_ID b = he_BranchID e"
    using assms projection_invD(2) by (auto simp: apply_source_def split: option.splits if_splits)
qed

lemma apply_event_inv:
  assumes inv: "projection_inv p" and app: "apply_event p e = Inr p'"
  shows "projection_inv p'"
proof (cases "is_birth e")
  case True
  with app apply_birth_inv [OF inv] show ?thesis by (simp add: apply_event_def is_birth_def)
next
  case False
  note D = projection_invD [OF inv]
  from apply_event_move [OF app False] obtain b b' old
    where src: "apply_source p e old = Inr b" and b: "\<not> cb_Archived b" "cb_Name b = old"
      and free: "he_Kind e = ''rename'' \<Longrightarrow> Active p (he_Branch e) = None"
      and b': "cb_ID b' = cb_ID b" "cb_Archived b' = (he_Kind e = ''archive'')"
        "\<not> cb_Archived b' \<Longrightarrow> cb_Name b' = he_Branch e" "he_Kind e \<noteq> ''rename'' \<Longrightarrow> old = he_Branch e"
      and p': "Active p' = (if cb_Archived b' then (Active p)(old := None) else (Active p)(old := None, cb_Name b' \<mapsto> b'))"
        "ByID p' = (ByID p)(cb_ID b' \<mapsto> b')"
    by blast
  let ?i = "cb_ID b"
  have src': "ByID p ?i = Some b \<or> (ByID p ?i = None \<and> Active p old = None)"
    using apply_source_cases [OF inv src] by auto
  have own: "c = b" if c: "Active p n = Some c" "cb_ID c = ?i \<or> n = old" for n c
  proof (cases "ByID p ?i")
    case None
    with src' c D(1) [OF c(1)] show ?thesis by auto
  next
    case (Some b0)
    with src' have "ByID p ?i = Some b" by simp
    moreover from D(2) [OF this] b have "Active p old = Some b" by simp
    ultimately show ?thesis using c D(1) [OF c(1)] by auto
  qed
  have clear: "Active p (cb_Name b') = None \<or> cb_Name b' = old" if "\<not> cb_Archived b'"
    using that b' free by (cases "he_Kind e = ''rename''") auto
  have "cb_Name c = n \<and> \<not> cb_Archived c \<and> ByID p' (cb_ID c) = Some c" if "Active p' n = Some c" for n c
  proof (cases "\<not> cb_Archived b' \<and> n = cb_Name b'")
    case True
    with that show ?thesis by (simp add: p')
  next
    case False
    with that have c: "n \<noteq> old" "Active p n = Some c" by (auto simp: p' split: if_splits)
    from D(1) [OF c(2)] own [OF c(2)] c(1) b(2) have "cb_ID c \<noteq> ?i" by auto
    with D(1) [OF c(2)] show ?thesis by (simp add: p' b'(1))
  qed
  moreover have "cb_ID c = i \<and> (\<not> cb_Archived c \<longrightarrow> Active p' (cb_Name c) = Some c)"
    if "ByID p' i = Some c" for i c
  proof (cases "i = ?i")
    case True
    with that b'(1) show ?thesis by (auto simp: p')
  next
    case False
    with that have c: "ByID p i = Some c" by (simp add: p' b'(1))
    with D(2) have ci: "cb_ID c = i" "\<not> cb_Archived c \<longrightarrow> Active p (cb_Name c) = Some c" by auto
    with own False have "\<not> cb_Archived c \<longrightarrow> cb_Name c \<noteq> old" by auto
    with ci clear show ?thesis by (auto simp: p')
  qed
  ultimately show ?thesis by (simp add: projection_inv_def)
qed

lemma apply_all_inv: "projection_inv p \<Longrightarrow> apply_all p es = Inr p' \<Longrightarrow> projection_inv p'"
  by (induction es arbitrary: p) (auto dest: apply_event_inv)

lemma empty_projection_inv: "projection_inv empty_projection"
  by (simp add: projection_inv_def empty_projection_def)

text \<open>
  The causal chain of an identity: what the events applied so far say about the token
  (\<open>EventID\<close>) each identity carries.
\<close>

definition chain_inv :: "HistoryEvent list \<Rightarrow> ContextBranchProjection \<Rightarrow> bool" where
  "chain_inv past p \<longleftrightarrow>
     (\<forall>i b. ByID p i = Some b \<longrightarrow> cb_EventID b \<in> he_ID ` set past) \<and>
     (\<forall>f \<in> set past. ByID p (he_BranchID f) \<noteq> None \<and>
        (\<not> is_birth f \<longrightarrow> he_BindingParent f \<in> insert [] (he_ID ` set past) \<and>
           (\<forall>b. ByID p (he_BranchID f) = Some b \<longrightarrow> he_BindingParent f \<noteq> cb_EventID b)))"

definition linear_events :: "HistoryEvent list \<Rightarrow> bool" where
  "linear_events es \<longleftrightarrow>
     (\<forall>f \<in> set es. \<forall>g \<in> set es. he_BranchID f = he_BranchID g \<and> f \<noteq> g \<longrightarrow>
        \<not> (is_birth f \<and> is_birth g) \<and>
        (\<not> is_birth f \<and> \<not> is_birth g \<longrightarrow> he_BindingParent f \<noteq> he_BindingParent g))"

lemma apply_birth_ByID:
  assumes "apply_event p e = Inr p'" "is_birth e"
  shows "ByID p (he_BranchID e) = None" "\<exists>b. ByID p' = (ByID p)(he_BranchID e \<mapsto> b) \<and> cb_EventID b = he_ID e"
  using assms by (auto simp: apply_event_def apply_birth_def is_birth_def Let_def split: if_splits)

lemma apply_move_ByID:
  assumes "projection_inv p" "apply_event p e = Inr p'" "\<not> is_birth e"
  shows "\<exists>b. ByID p' = (ByID p)(he_BranchID e \<mapsto> b) \<and> cb_EventID b = he_ID e"
    and "case ByID p (he_BranchID e) of Some b \<Rightarrow> he_BindingParent e = cb_EventID b | None \<Rightarrow> he_BindingParent e = []"
proof -
  from apply_event_move [OF assms(2,3)] obtain b b' old
    where src: "apply_source p e old = Inr b" "cb_EventID b = he_BindingParent e"
      and b': "cb_ID b' = cb_ID b" "cb_EventID b' = he_ID e" "ByID p' = (ByID p)(cb_ID b' \<mapsto> b')"
    by metis
  note c = apply_source_cases [OF assms(1) src(1)]
  from b' c(1) show "\<exists>b. ByID p' = (ByID p)(he_BranchID e \<mapsto> b) \<and> cb_EventID b = he_ID e" by auto
  from c(2) src(2) show "case ByID p (he_BranchID e) of Some b \<Rightarrow> he_BindingParent e = cb_EventID b | None \<Rightarrow> he_BindingParent e = []"
    by (auto split: option.splits)
qed

lemma apply_event_chain:
  assumes inv: "projection_inv p" "chain_inv past p" "linear_events past"
    and app: "apply_event p e = Inr p'" and new: "he_ID e \<notin> insert [] (he_ID ` set past)"
  shows "chain_inv (past @ [e]) p' \<and> linear_events (past @ [e])"
proof -
  have upd: "\<exists>b. ByID p' = (ByID p)(he_BranchID e \<mapsto> b) \<and> cb_EventID b = he_ID e"
    using apply_birth_ByID(2) [OF app] apply_move_ByID(1) [OF inv(1) app] by (cases "is_birth e") auto
  then obtain b where b: "ByID p' = (ByID p)(he_BranchID e \<mapsto> b)" "cb_EventID b = he_ID e" by blast
  have tok: "cb_EventID c \<in> he_ID ` set past" if "ByID p i = Some c" for i c
    using that inv(2) by (auto simp: chain_inv_def)
  have known: "ByID p (he_BranchID f) \<noteq> None" if "f \<in> set past" for f
    using that inv(2) by (auto simp: chain_inv_def)
  have old: "he_BindingParent f \<in> insert [] (he_ID ` set past)"
      "\<And>c. ByID p (he_BranchID f) = Some c \<Longrightarrow> he_BindingParent f \<noteq> cb_EventID c"
    if "f \<in> set past" "\<not> is_birth f" for f
    using that inv(2) by (auto simp: chain_inv_def)
  have par: "he_BindingParent e \<in> insert [] (he_ID ` set past)" if "\<not> is_birth e"
    using apply_move_ByID(2) [OF inv(1) app that] tok by (auto split: option.splits)
  have "he_BindingParent f \<noteq> he_ID e" if "f \<in> set (past @ [e])" "\<not> is_birth f" for f
    using that old(1) [of f] par new by auto
  then have "chain_inv (past @ [e]) p'"
    unfolding chain_inv_def b(1) using b(2) tok known old par by (auto split: if_splits)
  moreover have "\<not> is_birth e \<and> (\<not> is_birth f \<longrightarrow> he_BindingParent f \<noteq> he_BindingParent e)"
    if f: "f \<in> set past" "he_BranchID f = he_BranchID e" for f
    using known [OF f(1)] f old(2) [OF f(1)] apply_birth_ByID(1) [OF app] apply_move_ByID(2) [OF inv(1) app]
    by (cases "is_birth e") (auto split: option.splits)
  then have "linear_events (past @ [e])"
    using inv(3) unfolding linear_events_def by (auto simp: eq_commute)
  ultimately show ?thesis ..
qed

lemma apply_all_chain:
  assumes "projection_inv p" "chain_inv past p" "linear_events past" "apply_all p es = Inr p'"
    and "distinct_ids (past @ es)" "[] \<notin> he_ID ` set es"
  shows "linear_events (past @ es)"
  using assms
proof (induction es arbitrary: past p)
  case (Cons e es)
  then obtain q where q: "apply_event p e = Inr q" "apply_all q es = Inr p'" by auto
  have "he_ID e \<notin> insert [] (he_ID ` set past)"
    using Cons.prems(5,6) by (auto simp: distinct_ids_def)
  from apply_event_chain [OF Cons.prems(1-3) q(1) this]
  show ?case using Cons.IH [OF apply_event_inv [OF Cons.prems(1) q(1)], of "past @ [e]"] q(2) Cons.prems(5,6)
    by simp
qed simp

text \<open>
  C8: The projection of the log to context branches is consistent: the active names and the
  identities that are not archived correspond one to one (an active name leads to a live identity
  that bears this name, a live identity is found under its name), so no two names share an
  identity; and the result does not depend on the order or repetition of the events.
\<close>

theorem ProjectContextBranches_consistent:
  assumes "ProjectContextBranches es = Inr p"
  shows "projection_inv p \<and> inj_on (\<lambda>name. map_option cb_ID (Active p name)) (dom (Active p)) \<and>
         (set es' = set es \<longrightarrow> ProjectContextBranches es' = Inr p)"
proof (intro conjI impI)
  from assms obtain out where "apply_all empty_projection out = Inr p"
    by (auto simp: ProjectContextBranches_def)
  with apply_all_inv [OF empty_projection_inv] show inv: "projection_inv p" by blast
  show "inj_on (\<lambda>name. map_option cb_ID (Active p name)) (dom (Active p))"
  proof (rule inj_onI)
    fix m n assume "m \<in> dom (Active p)" "n \<in> dom (Active p)"
      and eq: "map_option cb_ID (Active p m) = map_option cb_ID (Active p n)"
    then obtain a b where ab: "Active p m = Some a" "Active p n = Some b" by auto
    with eq have ids: "cb_ID a = cb_ID b" by simp
    have "ByID p (cb_ID a) = Some a" "ByID p (cb_ID b) = Some b" "cb_Name a = m" "cb_Name b = n"
      using projection_invD(1) [OF inv ab(1)] projection_invD(1) [OF inv ab(2)] by blast+
    with ids show "m = n" by (metis option.inject)
  qed
  assume "set es' = set es"
  then have "OrderHistoryEvents (filter IsBranchBindingEvent es') = OrderHistoryEvents (filter IsBranchBindingEvent es)"
    by (intro OrderHistoryEvents_set_cong) simp
  with assms show "ProjectContextBranches es' = Inr p" by (simp add: ProjectContextBranches_def)
qed

lemma sample_projection:
  "\<exists>p. ProjectContextBranches [sample_archive, sample_rename, sample_birth] = Inr p"
proof -
  have "OrderHistoryEvents (filter IsBranchBindingEvent [sample_archive, sample_rename, sample_birth]) =
          Inr [sample_birth, sample_rename, sample_archive]" by code_simp
  moreover have "\<exists>p. apply_all empty_projection [sample_birth, sample_rename, sample_archive] = Inr p"
    by (simp add: apply_event_def apply_birth_def apply_source_def empty_projection_def released_def Let_def
        sample_archive_def sample_rename_def sample_birth_def sample_event_def)
  ultimately show ?thesis by (simp add: ProjectContextBranches_def)
qed

theorem ProjectContextBranches_consistent_witness:
  "\<exists>p. ProjectContextBranches [sample_archive, sample_rename, sample_birth] = Inr p \<and> projection_inv p \<and>
       ProjectContextBranches [sample_birth, sample_birth, sample_rename, sample_archive] = Inr p"
proof -
  obtain p where p: "ProjectContextBranches [sample_archive, sample_rename, sample_birth] = Inr p"
    using sample_projection by blast
  from p ProjectContextBranches_consistent [OF p, of "[sample_birth, sample_birth, sample_rename, sample_archive]"]
  show ?thesis by (auto simp: insert_commute)
qed

text \<open>
  C9: Identity changes are compare-and-swap: in a log that projects, an identity is born at most
  once, and no two renames or archives of one identity start from the same binding event, so
  competing offline changes are never both accepted.
\<close>

theorem ProjectContextBranches_linear:
  assumes "ProjectContextBranches es = Inr p" and "[] \<notin> he_ID ` set es"
    and "a \<in> set es" "b \<in> set es" "IsBranchBindingEvent a" "IsBranchBindingEvent b"
    and "he_BranchID a = he_BranchID b" "is_birth a = is_birth b"
    and "is_birth a \<or> he_BindingParent a = he_BindingParent b"
  shows "a = b"
proof -
  from assms(1) obtain out where ord: "OrderHistoryEvents (filter IsBranchBindingEvent es) = Inr out"
    and app: "apply_all empty_projection out = Inr p"
    by (auto simp: ProjectContextBranches_def)
  note o = OrderHistoryEvents_Inr [OF ord]
  have "linear_events ([] @ out)"
    using o(4,5) assms(2)
    by (intro apply_all_chain [OF empty_projection_inv _ _ app])
       (auto simp: chain_inv_def linear_events_def empty_projection_def)
  moreover have "a \<in> set out" "b \<in> set out" using assms o(4) by auto
  ultimately show ?thesis using assms(7-9) unfolding linear_events_def append_Nil by blast
qed

theorem ProjectContextBranches_linear_witness:
  "\<exists>p a b. ProjectContextBranches [sample_archive, sample_rename, sample_birth] = Inr p \<and>
     [a, b] = filter (\<lambda>e. he_Kind e = ''rename'') [sample_rename, sample_birth, sample_archive, sample_rename] \<and> a = b"
proof -
  obtain p where p: "ProjectContextBranches [sample_archive, sample_rename, sample_birth] = Inr p"
    using sample_projection by blast
  have *: "[] \<notin> he_ID ` set [sample_archive, sample_rename, sample_birth]"
    by (simp add: sample_archive_def sample_rename_def sample_birth_def sample_event_def)
  have "[sample_rename, sample_rename] =
      filter (\<lambda>e. he_Kind e = ''rename'') [sample_rename, sample_birth, sample_archive, sample_rename]"
    by (simp add: sample_archive_def sample_rename_def sample_birth_def sample_event_def)
  moreover have "sample_rename = sample_rename"
    by (rule ProjectContextBranches_linear [OF p *])
       (simp_all add: IsBranchBindingEvent_def sample_rename_def sample_event_def)
  ultimately show ?thesis using p by blast
qed

end
