(* ===== verification/Snapshots.thy ===== *)
theory Snapshots
  imports Refs
begin

text \<open>
  Snapshots (\<open>cli/internal/domain/entities.go\<close>), the parents a reachability walk follows, and the
  ancestry computation \<open>publicationAncestry\<close> of \<open>publication_plan.go\<close>.

  The recursive closure \<open>walk\<close> of the source is \<open>walk_snapshot\<close>, with the depth as fuel: the set
  \<open>active\<close> (the path from the root) only ever holds distinct known snapshots, so one more than
  the number of snapshots is enough, and the theorem below shows that the fuel never runs out.
  \<open>active\<close> is an argument, because the source deletes the entry again when a call succeeds and
  abandons the whole computation when a call fails.
\<close>

record TeamIdentity =
  ti_Name :: string
  ti_Email :: string
  ti_Team :: string

record Snapshot =
  sn_ID :: string
  sn_RepoID :: string
  sn_Branch :: string
  sn_Parents :: "string slice"
  sn_DocHash :: string
  sn_DocIdentity :: string
  sn_MemoryHash :: string
  sn_ClaudeSettings :: string
  sn_AgentsSettings :: string
  sn_CodexSettings :: string
  sn_Provider :: string
  sn_Fidelity :: string
  sn_Message :: string
  sn_Author :: TeamIdentity
  sn_CreatedAt :: gtime
  sn_Grafted :: bool
  sn_GraftParents :: "string slice"
  sn_GraftSeq :: "64 word"
  sn_SessionID :: string
  sn_Models :: "string slice"
  sn_CompactionCount :: int

fun graft_loop :: "string list \<Rightarrow> string list \<Rightarrow> string list \<Rightarrow> string list" where
  "graft_loop seen out [] = out"
| "graft_loop seen out (g # gs) =
     (if g \<in> set seen then graft_loop seen out gs else graft_loop (g # seen) (out @ [g]) gs)"

definition ReachabilityParents :: "Snapshot \<Rightarrow> string list" where
  "ReachabilityParents s =
     (if elems (sn_GraftParents s) = [] then elems (sn_Parents s)
      else graft_loop (elems (sn_Parents s)) (elems (sn_Parents s)) (elems (sn_GraftParents s)))"

section \<open>The ancestry of publication targets\<close>

definition put_snapshot :: "Snapshot \<Rightarrow> Snapshot list \<Rightarrow> Snapshot list" where
  "put_snapshot s byID = (if sn_ID s \<in> sn_ID ` set byID then byID else byID @ [s])"

fun index_snapshots :: "Snapshot list \<Rightarrow> Snapshot list \<Rightarrow> Snapshot list result" where
  "index_snapshots byID [] = Inr byID"
| "index_snapshots byID (s # ss) =
     (case find (\<lambda>old. sn_ID old = sn_ID s) byID of
        Some old \<Rightarrow> if old \<noteq> s then Inl ErrHashMismatch else index_snapshots byID ss
      | None \<Rightarrow> index_snapshots (put_snapshot s byID) ss)"

text \<open>\<open>walk_list f\<close> is the loop over the parents, with \<open>f\<close> the recursive call.\<close>

fun walk_list :: "('a \<Rightarrow> 's \<Rightarrow> 's result) \<Rightarrow> 'a list \<Rightarrow> 's \<Rightarrow> 's result" where
  "walk_list f [] seen = Inr seen"
| "walk_list f (p # ps) seen = bind_r (f p seen) (walk_list f ps)"

fun walk_snapshot ::
  "nat \<Rightarrow> string \<Rightarrow> Snapshot list \<Rightarrow> string list \<Rightarrow> string \<Rightarrow> string list \<Rightarrow> string list result" where
  "walk_snapshot 0 repo byID active i seen = Inl OutOfFuel"
| "walk_snapshot (Suc n) repo byID active i seen =
     (if i \<in> set active then Inl ErrSyncConflict
      else if i \<in> set seen then Inr seen
      else case find (\<lambda>s. sn_ID s = i) byID of
             None \<Rightarrow> Inl ErrNotFound
           | Some s \<Rightarrow>
               if sn_ID s \<noteq> i \<or> sn_RepoID s \<noteq> repo \<or> ValidateContentHash i \<noteq> None then Inl ErrHashMismatch
               else bind_r (walk_list (walk_snapshot n repo byID (i # active)) (ReachabilityParents s) seen)
                      (\<lambda>seen'. Inr (i # seen')))"

fun ancestry_roots ::
  "string \<Rightarrow> Snapshot list \<Rightarrow> string list \<Rightarrow> (string \<times> string list) list \<Rightarrow> (string \<times> string list) list result"
  where
  "ancestry_roots repo byID [] out = Inr out"
| "ancestry_roots repo byID (root # roots) out =
     (if map_of out root \<noteq> None then ancestry_roots repo byID roots out
      else bind_r (walk_snapshot (Suc (length byID)) repo byID [] root [])
             (\<lambda>seen. ancestry_roots repo byID roots (out @ [(root, seen)])))"

definition publicationAncestry ::
  "string \<Rightarrow> Snapshot list \<Rightarrow> string list \<Rightarrow> (string \<times> string list) list result" where
  "publicationAncestry repo snapshots roots =
     bind_r (index_snapshots [] snapshots) (\<lambda>byID. ancestry_roots repo byID roots [])"

section \<open>Reachability\<close>

declare walk_snapshot.simps(2) [simp del]

lemma graft_loop_out: "set seen \<subseteq> set out \<Longrightarrow> set (graft_loop seen out gs) = set out \<union> set gs"
  by (induction seen out gs rule: graft_loop.induct) auto

lemma ReachabilityParents_set:
  "set (ReachabilityParents s) = set (elems (sn_Parents s)) \<union> set (elems (sn_GraftParents s))"
  by (simp add: ReachabilityParents_def graft_loop_out)

definition snapshot_edges :: "Snapshot list \<Rightarrow> (string \<times> string) set" where
  "snapshot_edges byID = {(sn_ID s, p) |s p. s \<in> set byID \<and> p \<in> set (ReachabilityParents s)}"

definition usable_snapshot :: "string \<Rightarrow> Snapshot list \<Rightarrow> string \<Rightarrow> bool" where
  "usable_snapshot repo byID i \<longleftrightarrow>
     (\<exists>s. find (\<lambda>s. sn_ID s = i) byID = Some s \<and> sn_RepoID s = repo) \<and> ValidateContentHash i = None"

text \<open>A completed visit order: every snapshot is followed by its parents, so it is acyclic.\<close>

fun post_order :: "string \<Rightarrow> Snapshot list \<Rightarrow> string list \<Rightarrow> bool" where
  "post_order repo byID [] = True"
| "post_order repo byID (i # seen) \<longleftrightarrow>
     i \<notin> set seen \<and> usable_snapshot repo byID i \<and>
     (\<forall>p. (i, p) \<in> snapshot_edges byID \<longrightarrow> p \<in> set seen) \<and> post_order repo byID seen"

definition distinct_snapshots :: "Snapshot list \<Rightarrow> bool" where
  "distinct_snapshots byID \<longleftrightarrow> distinct (map sn_ID byID)"

lemma find_id: "distinct (map f xs) \<Longrightarrow> x \<in> set xs \<Longrightarrow> find (\<lambda>y. f y = f x) xs = Some x"
  by (induction xs) (auto simp: image_iff)

lemma snapshot_edgesD:
  assumes "distinct_snapshots byID" "find (\<lambda>s. sn_ID s = i) byID = Some s" "(i, p) \<in> snapshot_edges byID"
  shows "p \<in> set (ReachabilityParents s)"
proof -
  from assms(3) obtain t where t: "t \<in> set byID" "sn_ID t = i" "p \<in> set (ReachabilityParents t)"
    by (auto simp: snapshot_edges_def)
  with find_id [of sn_ID byID t] assms(1,2) show ?thesis by (simp add: distinct_snapshots_def)
qed

lemma snapshot_edgesI:
  "find (\<lambda>s. sn_ID s = i) byID = Some s \<Longrightarrow> p \<in> set (ReachabilityParents s) \<Longrightarrow> (i, p) \<in> snapshot_edges byID"
  by (auto simp: snapshot_edges_def find_Some_iff)

lemma find_Some_id: "find (\<lambda>s. sn_ID s = i) byID = Some s \<Longrightarrow> sn_ID s = i"
  by (auto simp: find_Some_iff)

lemma walk_snapshot_eq:
  "walk_snapshot (Suc n) repo byID active i seen =
     (if i \<in> set active then Inl ErrSyncConflict
      else if i \<in> set seen then Inr seen
      else case find (\<lambda>s. sn_ID s = i) byID of
             None \<Rightarrow> Inl ErrNotFound
           | Some s \<Rightarrow>
               if \<not> usable_snapshot repo byID i then Inl ErrHashMismatch
               else bind_r (walk_list (walk_snapshot n repo byID (i # active)) (ReachabilityParents s) seen)
                      (\<lambda>seen'. Inr (i # seen')))"
proof (cases "find (\<lambda>s. sn_ID s = i) byID")
  case (Some s)
  with find_Some_id [OF Some] show ?thesis by (simp add: usable_snapshot_def walk_snapshot.simps(2))
qed (simp add: walk_snapshot.simps(2))

lemma post_order_closed:
  "post_order repo byID seen \<Longrightarrow> (x, y) \<in> (snapshot_edges byID)\<^sup>* \<Longrightarrow> x \<in> set seen \<Longrightarrow> y \<in> set seen"
proof (induction seen arbitrary: x)
  case (Cons i seen)
  show ?case
  proof (cases "x = y \<or> x \<in> set seen")
    case True
    with Cons show ?thesis by auto
  next
    case False
    with Cons.prems obtain p where "(i, p) \<in> snapshot_edges byID" "(p, y) \<in> (snapshot_edges byID)\<^sup>*"
      by (auto elim: converse_rtranclE)
    with Cons show ?thesis by auto
  qed
qed simp

lemma post_order_acyclic:
  "post_order repo byID seen \<Longrightarrow> x \<in> set seen \<Longrightarrow> (x, x) \<notin> (snapshot_edges byID)\<^sup>+"
proof (induction seen)
  case (Cons i seen)
  show ?case
  proof (cases "x = i")
    case True
    show ?thesis
    proof
      assume "(x, x) \<in> (snapshot_edges byID)\<^sup>+"
      with True obtain p where "(i, p) \<in> snapshot_edges byID" "(p, i) \<in> (snapshot_edges byID)\<^sup>*"
        by (metis tranclD)
      with Cons.prems(1) post_order_closed [of repo byID seen p i] show False by auto
    qed
  qed (use Cons in auto)
qed simp

lemma post_order_usable: "post_order repo byID seen \<Longrightarrow> x \<in> set seen \<Longrightarrow> usable_snapshot repo byID x"
  by (induction seen) auto

lemma walk_list_sound:
  assumes step: "\<And>p seen seen'. p \<in> set ps \<Longrightarrow> f p seen = Inr seen' \<Longrightarrow> Q seen \<Longrightarrow>
      Q seen' \<and> p \<in> set seen' \<and> (\<exists>pre. seen' = pre @ seen \<and> set pre \<subseteq> R p)"
    and "walk_list f ps seen = Inr seen'" "Q seen"
  shows "Q seen' \<and> set ps \<subseteq> set seen' \<and> (\<exists>pre. seen' = pre @ seen \<and> set pre \<subseteq> (\<Union>p \<in> set ps. R p))"
  using assms
proof (induction ps arbitrary: seen)
  case (Cons p ps)
  from Cons.prems(2) obtain mid where mid: "f p seen = Inr mid" "walk_list f ps mid = Inr seen'" by auto
  from Cons.prems(1) [OF _ mid(1) Cons.prems(3)] obtain pre where
    a: "Q mid" "p \<in> set mid" "mid = pre @ seen" "set pre \<subseteq> R p" by auto
  have "Q seen' \<and> set ps \<subseteq> set seen' \<and> (\<exists>pre. seen' = pre @ mid \<and> set pre \<subseteq> (\<Union>p \<in> set ps. R p))"
    using Cons.IH [OF Cons.prems(1) mid(2) a(1)] by simp
  then obtain pre2 where b: "Q seen'" "set ps \<subseteq> set seen'" "seen' = pre2 @ mid" "set pre2 \<subseteq> (\<Union>p \<in> set ps. R p)"
    by blast
  with a have "seen' = (pre2 @ pre) @ seen" "set (pre2 @ pre) \<subseteq> (\<Union>p \<in> set (p # ps). R p)" by auto
  with a b show ?case by (intro conjI exI [of _ "pre2 @ pre"]) auto
qed simp

lemma walk_snapshot_sound:
  assumes "distinct_snapshots byID"
    and "walk_snapshot n repo byID active i seen = Inr seen'" "post_order repo byID seen"
    and "set active \<inter> set seen = {}"
  shows "post_order repo byID seen' \<and> i \<in> set seen' \<and>
         (\<exists>pre. seen' = pre @ seen \<and> set pre \<subseteq> (snapshot_edges byID)\<^sup>* `` {i} - set active)"
  using assms(2-)
proof (induction n arbitrary: active i seen seen')
  case (Suc n)
  note def = Suc.prems(1) [unfolded walk_snapshot_eq]
  show ?case
  proof (cases "i \<in> set seen")
    case True
    with def Suc.prems(2,3) show ?thesis by (auto split: if_splits)
  next
    case False
    with def obtain s mid where s: "find (\<lambda>s. sn_ID s = i) byID = Some s" "usable_snapshot repo byID i"
      and i: "i \<notin> set active" and seen': "seen' = i # mid"
      and mid: "walk_list (walk_snapshot n repo byID (i # active)) (ReachabilityParents s) seen = Inr mid"
      by (auto split: if_splits option.splits)
    let ?R = "\<lambda>p. (snapshot_edges byID)\<^sup>* `` {p} - set (i # active)"
    let ?Q = "\<lambda>seen. post_order repo byID seen \<and> set (i # active) \<inter> set seen = {}"
    have "?Q mid \<and> set (ReachabilityParents s) \<subseteq> set mid \<and>
          (\<exists>pre. mid = pre @ seen \<and> set pre \<subseteq> (\<Union>p \<in> set (ReachabilityParents s). ?R p))"
    proof (rule walk_list_sound [OF _ mid, where Q = ?Q and R = ?R])
      fix p a b assume "walk_snapshot n repo byID (i # active) p a = Inr b" "?Q a"
      with Suc.IH [of "i # active" p a b] obtain pre where
        "post_order repo byID b" "p \<in> set b" "b = pre @ a" "set pre \<subseteq> ?R p" by auto
      with \<open>?Q a\<close> show "?Q b \<and> p \<in> set b \<and> (\<exists>pre. b = pre @ a \<and> set pre \<subseteq> ?R p)" by auto
    qed (use Suc.prems False i in auto)
    then obtain pre where m: "post_order repo byID mid" "i \<notin> set mid" "set (ReachabilityParents s) \<subseteq> set mid"
      "mid = pre @ seen" "set pre \<subseteq> (\<Union>p \<in> set (ReachabilityParents s). ?R p)" by auto
    have edges: "(i, p) \<in> snapshot_edges byID \<longleftrightarrow> p \<in> set (ReachabilityParents s)" for p
      using snapshot_edgesD [OF assms(1) s(1)] snapshot_edgesI [OF s(1)] by blast
    have "post_order repo byID seen'" using m(1-3) s(2) by (auto simp: seen' edges)
    moreover have "set (i # pre) \<subseteq> (snapshot_edges byID)\<^sup>* `` {i} - set active"
      using m(5) i edges by (auto intro: converse_rtrancl_into_rtrancl)
    ultimately show ?thesis by (auto simp: seen' m(4))
  qed
qed simp

lemma walk_list_complete:
  assumes "\<And>p seen. p \<in> set ps \<Longrightarrow> Q seen \<Longrightarrow> \<exists>seen'. f p seen = Inr seen' \<and> Q seen'" "Q seen"
  shows "\<exists>seen'. walk_list f ps seen = Inr seen'"
  using assms
proof (induction ps arbitrary: seen)
  case (Cons p ps)
  from Cons.prems(1) [OF _ Cons.prems(2)] obtain mid where mid: "f p seen = Inr mid" "Q mid" by auto
  from Cons.IH [OF Cons.prems(1) mid(2)] mid(1) show ?case by simp
qed simp

lemma active_bound:
  assumes "distinct active" "set active \<subseteq> sn_ID ` set byID"
  shows "length active \<le> length byID"
proof -
  have "length active = card (set active)" using assms(1) by (simp add: distinct_card)
  also have "\<dots> \<le> card (sn_ID ` set byID)" using assms(2) by (intro card_mono) simp_all
  also have "\<dots> \<le> length byID" using card_image_le card_length by (metis List.finite_set order_trans)
  finally show ?thesis .
qed

lemma find_in_ids: "find (\<lambda>s. sn_ID s = i) byID = Some s \<Longrightarrow> i \<in> sn_ID ` set byID"
  by (auto simp: find_Some_iff)

lemma walk_snapshot_complete:
  assumes "distinct_snapshots byID"
    and "\<And>x. (i, x) \<in> (snapshot_edges byID)\<^sup>* \<Longrightarrow> usable_snapshot repo byID x \<and> (x, x) \<notin> (snapshot_edges byID)\<^sup>+"
    and "\<forall>a \<in> set active. (a, i) \<in> (snapshot_edges byID)\<^sup>+" "distinct active" "set active \<subseteq> sn_ID ` set byID"
    and "length byID < n + length active"
  shows "\<exists>seen'. walk_snapshot n repo byID active i seen = Inr seen'"
  using assms(2-)
proof (induction n arbitrary: active i seen)
  case 0
  with active_bound [of active byID] show ?case by simp
next
  case (Suc n)
  have u: "usable_snapshot repo byID i" "(i, i) \<notin> (snapshot_edges byID)\<^sup>+" using Suc.prems(1) [of i] by auto
  then obtain s where s: "find (\<lambda>s. sn_ID s = i) byID = Some s" by (auto simp: usable_snapshot_def)
  have i: "i \<notin> set active" using Suc.prems(2) u(2) by auto
  have "\<exists>mid. walk_list (walk_snapshot n repo byID (i # active)) (ReachabilityParents s) seen = Inr mid"
  proof (rule walk_list_complete [where Q = "\<lambda>_. True"])
    fix p seen assume "p \<in> set (ReachabilityParents s)"
    then have e: "(i, p) \<in> snapshot_edges byID" by (rule snapshot_edgesI [OF s])
    have "\<exists>b. walk_snapshot n repo byID (i # active) p seen = Inr b"
    proof (rule Suc.IH)
      show "usable_snapshot repo byID x \<and> (x, x) \<notin> (snapshot_edges byID)\<^sup>+"
        if "(p, x) \<in> (snapshot_edges byID)\<^sup>*" for x
        using Suc.prems(1) e that by (meson converse_rtrancl_into_rtrancl)
      show "\<forall>a \<in> set (i # active). (a, p) \<in> (snapshot_edges byID)\<^sup>+"
        using Suc.prems(2) e by (auto intro: trancl_into_trancl)
      show "set (i # active) \<subseteq> sn_ID ` set byID" using Suc.prems(4) find_in_ids [OF s] by simp
    qed (use Suc.prems i in auto)
    then show "\<exists>b. walk_snapshot n repo byID (i # active) p seen = Inr b \<and> True" by simp
  qed simp
  then show ?case using i u(1) s unfolding walk_snapshot_eq by auto
qed

lemma walk_list_fuel:
  assumes "\<And>p seen. p \<in> set ps \<Longrightarrow> f p seen \<noteq> Inl OutOfFuel"
  shows "walk_list f ps seen \<noteq> Inl OutOfFuel"
  using assms
proof (induction ps arbitrary: seen)
  case (Cons p ps)
  then show ?case by (cases "f p seen") auto
qed simp

lemma walk_snapshot_fuel:
  assumes "distinct active" "set active \<subseteq> sn_ID ` set byID" "length byID < n + length active"
  shows "walk_snapshot n repo byID active i seen \<noteq> Inl OutOfFuel"
  using assms
proof (induction n arbitrary: active i seen)
  case 0
  with active_bound [of active byID] show ?case by simp
next
  case (Suc n)
  show ?case
  proof (cases "find (\<lambda>s. sn_ID s = i) byID")
    case (Some s)
    have "walk_list (walk_snapshot n repo byID (i # active)) (ReachabilityParents s) seen \<noteq> Inl OutOfFuel"
      if "i \<notin> set active"
      using that Suc.prems find_in_ids [OF Some] by (intro walk_list_fuel Suc.IH) auto
    with Some show ?thesis unfolding walk_snapshot_eq by (auto simp: bind_r_def split: sum.splits)
  qed (simp add: walk_snapshot_eq)
qed

section \<open>Exactness of the ancestry\<close>

definition snapshot_conflict :: "Snapshot list \<Rightarrow> bool" where
  "snapshot_conflict ss \<longleftrightarrow> (\<exists>a \<in> set ss. \<exists>b \<in> set ss. sn_ID a = sn_ID b \<and> a \<noteq> b)"

lemma index_snapshots_spec:
  assumes "index_snapshots byID ss = Inr out" "distinct_snapshots byID"
  shows "distinct_snapshots out \<and> set out = set byID \<union> set ss"
  using assms
proof (induction ss arbitrary: byID)
  case (Cons s ss)
  show ?case
  proof (cases "find (\<lambda>old. sn_ID old = sn_ID s) byID")
    case None
    then have "put_snapshot s byID = byID @ [s]" by (auto simp: put_snapshot_def find_None_iff)
    with None Cons.prems(1) have "index_snapshots (byID @ [s]) ss = Inr out" by simp
    moreover have "distinct_snapshots (byID @ [s])"
      using None Cons.prems(2) by (auto simp: distinct_snapshots_def find_None_iff)
    ultimately show ?thesis using Cons.IH [of "byID @ [s]"] by auto
  next
    case (Some old)
    then have "old \<in> set byID" by (auto simp: find_Some_iff)
    with Some Cons.prems Cons.IH [of byID] show ?thesis by (auto split: if_splits)
  qed
qed simp

lemma index_snapshots_ok:
  assumes "\<not> snapshot_conflict (byID @ ss)"
  shows "\<exists>out. index_snapshots byID ss = Inr out"
  using assms
proof (induction ss arbitrary: byID)
  case (Cons s ss)
  show ?case
  proof (cases "find (\<lambda>old. sn_ID old = sn_ID s) byID")
    case None
    then have "put_snapshot s byID = byID @ [s]" by (auto simp: put_snapshot_def find_None_iff)
    with None Cons show ?thesis by simp
  next
    case (Some old)
    then have "old \<in> set byID" "sn_ID old = sn_ID s" by (auto simp: find_Some_iff)
    with Cons.prems have "old = s" by (auto simp: snapshot_conflict_def)
    with Some Cons show ?thesis by (simp add: snapshot_conflict_def)
  qed
qed simp

lemma snapshot_conflict_index:
  assumes "index_snapshots [] ss = Inr byID"
  shows "distinct_snapshots byID" "set byID = set ss" "\<not> snapshot_conflict ss"
    "snapshot_edges byID = snapshot_edges ss"
proof -
  from index_snapshots_spec [OF assms] show d: "distinct_snapshots byID" and s: "set byID = set ss"
    by (auto simp: distinct_snapshots_def)
  then show "\<not> snapshot_conflict ss"
    by (auto simp: snapshot_conflict_def distinct_snapshots_def distinct_map inj_on_def)
  show "snapshot_edges byID = snapshot_edges ss" using s by (simp add: snapshot_edges_def)
qed

lemma ancestry_roots_sound:
  assumes "distinct_snapshots byID" "ancestry_roots repo byID roots out = Inr out'"
    and "distinct (map fst out)"
  shows "distinct (map fst out') \<and> set (map fst out') = set (map fst out) \<union> set roots \<and>
         (\<forall>root seen. (root, seen) \<in> set out' - set out \<longrightarrow>
            (\<exists>n. walk_snapshot n repo byID [] root [] = Inr seen))"
  using assms(2,3)
proof (induction roots arbitrary: out)
  case (Cons root roots)
  show ?case
  proof (cases "map_of out root")
    case None
    with Cons.prems obtain seen where seen: "walk_snapshot (Suc (length byID)) repo byID [] root [] = Inr seen"
      and rest: "ancestry_roots repo byID roots (out @ [(root, seen)]) = Inr out'" by auto
    have "distinct (map fst (out @ [(root, seen)]))" using None Cons.prems(2) by (simp add: map_of_eq_None_iff)
    note IH = Cons.IH [OF rest this]
    have "\<exists>n. walk_snapshot n repo byID [] r [] = Inr v" if "(r, v) \<in> set out' - set out" for r v
      using that seen IH by (cases "(r, v) = (root, seen)") auto
    with IH show ?thesis by auto
  next
    case (Some x)
    then have "root \<in> set (map fst out)" by (force dest: map_of_SomeD)
    with Some Cons show ?thesis by auto
  qed
qed simp

lemma walk_root_exact:
  assumes "distinct_snapshots byID" "walk_snapshot n repo byID [] root [] = Inr seen"
  shows "set seen = (snapshot_edges byID)\<^sup>* `` {root}"
    and "x \<in> set seen \<Longrightarrow> usable_snapshot repo byID x \<and> (x, x) \<notin> (snapshot_edges byID)\<^sup>+"
proof -
  from walk_snapshot_sound [OF assms] have p: "post_order repo byID seen" "root \<in> set seen"
    and "set seen \<subseteq> (snapshot_edges byID)\<^sup>* `` {root}" by auto
  with post_order_closed [OF p(1) _ p(2)] show "set seen = (snapshot_edges byID)\<^sup>* `` {root}" by auto
  show "usable_snapshot repo byID x \<and> (x, x) \<notin> (snapshot_edges byID)\<^sup>+" if "x \<in> set seen"
    using that post_order_usable [OF p(1)] post_order_acyclic [OF p(1)] by blast
qed

lemma publicationAncestry_roots:
  assumes "publicationAncestry repo snapshots roots = Inr out"
  shows "distinct (map fst out)" "set (map fst out) = set roots"
    "\<And>root seen. (root, seen) \<in> set out \<Longrightarrow>
       set seen = (snapshot_edges snapshots)\<^sup>* `` {root} \<and> (\<forall>x \<in> set seen. (x, x) \<notin> (snapshot_edges snapshots)\<^sup>+)"
proof -
  from assms obtain byID where byID: "index_snapshots [] snapshots = Inr byID"
    and out: "ancestry_roots repo byID roots [] = Inr out"
    by (auto simp: publicationAncestry_def)
  note i = snapshot_conflict_index [OF byID]
  note a = ancestry_roots_sound [OF i(1) out]
  from a show "distinct (map fst out)" "set (map fst out) = set roots" by auto
  fix root seen assume "(root, seen) \<in> set out"
  with a have "\<exists>n. walk_snapshot n repo byID [] root [] = Inr seen" by simp
  then obtain n where w: "walk_snapshot n repo byID [] root [] = Inr seen" ..
  show "set seen = (snapshot_edges snapshots)\<^sup>* `` {root} \<and> (\<forall>x \<in> set seen. (x, x) \<notin> (snapshot_edges snapshots)\<^sup>+)"
    using walk_root_exact [OF i(1) w] unfolding i(4) by blast
qed

lemmas publicationAncestry_reach = publicationAncestry_roots(3)

text \<open>
  C10: The ancestry computed for the publication targets is exact: there is one entry per target, it
  holds precisely the snapshots reachable from the target over natural and graft parents (itself
  included), and none of them lies on a cycle. So "is an ancestor of" in the publication policy is
  true reachability.
\<close>

theorem publicationAncestry_exact:
  assumes "publicationAncestry repo snapshots roots = Inr out"
  shows "distinct (map fst out) \<and> set (map fst out) = set roots \<and>
         (\<forall>root seen. (root, seen) \<in> set out \<longrightarrow>
            set seen = (snapshot_edges snapshots)\<^sup>* `` {root} \<and>
            (\<forall>x \<in> set seen. (x, x) \<notin> (snapshot_edges snapshots)\<^sup>+))"
  using publicationAncestry_roots [OF assms] by blast

definition sample_hash :: "char \<Rightarrow> string" where
  "sample_hash c = ''sha256:'' @ replicate 64 c"

definition sample_snapshot :: "string \<Rightarrow> string slice \<Rightarrow> Snapshot" where
  "sample_snapshot i ps =
     \<lparr>sn_ID = i, sn_RepoID = ''r'', sn_Branch = ''main'', sn_Parents = ps, sn_DocHash = i,
      sn_DocIdentity = [], sn_MemoryHash = [], sn_ClaudeSettings = [], sn_AgentsSettings = [],
      sn_CodexSettings = [], sn_Provider = ''claude'', sn_Fidelity = ''full'', sn_Message = [],
      sn_Author = \<lparr>ti_Name = [], ti_Email = [], ti_Team = []\<rparr>,
      sn_CreatedAt = \<lparr>instant = 1, repr = 0\<rparr>, sn_Grafted = False, sn_GraftParents = None,
      sn_GraftSeq = 0, sn_SessionID = [], sn_Models = None, sn_CompactionCount = 0\<rparr>"

theorem publicationAncestry_exact_witness:
  "let a = sample_hash (CHR ''a''); b = sample_hash (CHR ''b'');
       ss = [sample_snapshot a (Some [b]), sample_snapshot b None]
   in publicationAncestry ''r'' ss [a] = Inr [(a, [a, b])] \<and>
      {a, b} = (snapshot_edges ss)\<^sup>* `` {a}"
proof -
  let ?a = "sample_hash (CHR ''a'')" and ?b = "sample_hash (CHR ''b'')"
  let ?ss = "[sample_snapshot ?a (Some [?b]), sample_snapshot ?b None]"
  have eval: "publicationAncestry ''r'' ?ss [?a] = Inr [(?a, [?a, ?b])]" by code_simp
  from eval publicationAncestry_exact [OF eval] show ?thesis by (simp add: Let_def)
qed

lemma ancestry_roots_ok:
  assumes "distinct_snapshots byID"
    and "\<And>root x. root \<in> set roots \<Longrightarrow> (root, x) \<in> (snapshot_edges byID)\<^sup>* \<Longrightarrow>
           usable_snapshot repo byID x \<and> (x, x) \<notin> (snapshot_edges byID)\<^sup>+"
  shows "\<exists>out'. ancestry_roots repo byID roots out = Inr out'"
  using assms(2)
proof (induction roots arbitrary: out)
  case (Cons root roots)
  have "\<exists>seen. walk_snapshot (Suc (length byID)) repo byID [] root [] = Inr seen"
    using Cons.prems [of root] by (intro walk_snapshot_complete [OF assms(1)]) auto
  then obtain seen where seen: "walk_snapshot (Suc (length byID)) repo byID [] root [] = Inr seen" ..
  have "\<exists>out'. ancestry_roots repo byID roots out = Inr out'" for out
    by (rule Cons.IH) (use Cons.prems in auto)
  with seen show ?case by simp
qed simp

lemma usable_snapshot_set:
  assumes "distinct_snapshots byID" "set byID = set ss"
  shows "usable_snapshot repo byID x \<longleftrightarrow> ValidateContentHash x = None \<and> (\<exists>s \<in> set ss. sn_ID s = x \<and> sn_RepoID s = repo)"
proof -
  have "(\<exists>s. find (\<lambda>s. sn_ID s = x) byID = Some s \<and> sn_RepoID s = repo) \<longleftrightarrow>
        (\<exists>s \<in> set byID. sn_ID s = x \<and> sn_RepoID s = repo)"
  proof
    assume "\<exists>s. find (\<lambda>s. sn_ID s = x) byID = Some s \<and> sn_RepoID s = repo"
    then show "\<exists>s \<in> set byID. sn_ID s = x \<and> sn_RepoID s = repo" by (auto simp: find_Some_iff)
  next
    assume "\<exists>s \<in> set byID. sn_ID s = x \<and> sn_RepoID s = repo"
    then obtain s where "s \<in> set byID" "sn_ID s = x" "sn_RepoID s = repo" by blast
    with find_id [of sn_ID byID s] assms(1)
    show "\<exists>s. find (\<lambda>s. sn_ID s = x) byID = Some s \<and> sn_RepoID s = repo"
      by (simp add: distinct_snapshots_def)
  qed
  then show ?thesis by (auto simp: usable_snapshot_def assms(2))
qed

lemma publicationAncestry_fuel: "publicationAncestry repo snapshots roots \<noteq> Inl OutOfFuel"
proof (cases "index_snapshots [] snapshots")
  case (Inr byID)
  have "ancestry_roots repo byID rs out \<noteq> Inl OutOfFuel" for rs out
  proof (induction rs arbitrary: out)
    case (Cons root rs)
    have "walk_snapshot (Suc (length byID)) repo byID [] root [] \<noteq> Inl OutOfFuel"
      by (intro walk_snapshot_fuel) auto
    with Cons show ?case by (cases "walk_snapshot (Suc (length byID)) repo byID [] root []") auto
  qed simp
  with Inr show ?thesis by (simp add: publicationAncestry_def)
next
  case (Inl e)
  have "index_snapshots byID ss \<noteq> Inl OutOfFuel" for byID ss
    by (induction byID ss rule: index_snapshots.induct) (auto split: option.splits)
  with Inl show ?thesis by (auto simp: publicationAncestry_def)
qed

lemma publicationAncestry_iff:
  "(\<exists>out. publicationAncestry repo snapshots roots = Inr out) \<longleftrightarrow>
    \<not> snapshot_conflict snapshots \<and> (snapshot_edges snapshots)\<^sup>* `` set roots \<subseteq>
      {x. ValidateContentHash x = None \<and> (\<exists>s \<in> set snapshots. sn_ID s = x \<and> sn_RepoID s = repo) \<and>
          (x, x) \<notin> (snapshot_edges snapshots)\<^sup>+}" (is "_ \<longleftrightarrow> _ \<and> ?reach")
proof (cases "snapshot_conflict snapshots")
  case True
  then show ?thesis using snapshot_conflict_index(3) by (auto simp: publicationAncestry_def)
next
  case False
  then obtain byID where byID: "index_snapshots [] snapshots = Inr byID"
    using index_snapshots_ok [of "[]" snapshots] by auto
  note i = snapshot_conflict_index [OF byID]
  have reach: "?reach \<longleftrightarrow> (\<forall>root \<in> set roots. \<forall>x. (root, x) \<in> (snapshot_edges byID)\<^sup>* \<longrightarrow>
      usable_snapshot repo byID x \<and> (x, x) \<notin> (snapshot_edges byID)\<^sup>+)"
    by (auto simp: usable_snapshot_set [OF i(1,2)] i(4))
  have "(\<exists>out. ancestry_roots repo byID roots [] = Inr out) \<longleftrightarrow> ?reach"
  proof
    assume "\<exists>out. ancestry_roots repo byID roots [] = Inr out"
    then obtain out where "ancestry_roots repo byID roots [] = Inr out" ..
    note a = ancestry_roots_sound [OF i(1) this]
    have "usable_snapshot repo byID x \<and> (x, x) \<notin> (snapshot_edges byID)\<^sup>+"
      if root: "root \<in> set roots" and x: "(root, x) \<in> (snapshot_edges byID)\<^sup>*" for root x
    proof -
      from a root have "root \<in> fst ` set out" by simp
      then obtain seen where "(root, seen) \<in> set out" by auto
      with a have "\<exists>n. walk_snapshot n repo byID [] root [] = Inr seen" by simp
      then obtain n where "walk_snapshot n repo byID [] root [] = Inr seen" ..
      from walk_root_exact [OF i(1) this] x show ?thesis by blast
    qed
    then show ?reach unfolding reach by blast
  qed (use ancestry_roots_ok [OF i(1)] in \<open>simp add: reach\<close>)
  with False byID show ?thesis by (simp add: publicationAncestry_def)
qed

text \<open>
  C11: The recursive walk always returns, and it refuses the graph only for cause: it succeeds
  exactly when no two snapshots with one ID differ and every snapshot reachable from a target is
  present, belongs to the repository, has a well-formed hash and is not its own ancestor.
\<close>

theorem publicationAncestry_complete:
  "publicationAncestry repo snapshots roots \<noteq> Inl OutOfFuel \<and>
   ((\<exists>out. publicationAncestry repo snapshots roots = Inr out) \<longleftrightarrow>
    \<not> snapshot_conflict snapshots \<and>
    (snapshot_edges snapshots)\<^sup>* `` set roots \<subseteq>
      {x. ValidateContentHash x = None \<and> (\<exists>s \<in> set snapshots. sn_ID s = x \<and> sn_RepoID s = repo) \<and>
          (x, x) \<notin> (snapshot_edges snapshots)\<^sup>+})"
  using publicationAncestry_fuel publicationAncestry_iff by blast

end
