(* ===== verification/Publication.thy ===== *)
theory Publication
  imports Branches Snapshots
begin

text \<open>
  Completion groups of a publication (\<open>cli/internal/domain/publication_groups.go\<close>): the catalogue of
  local and accepted events, competing targets, and the order of the completions.

  The catalogue keeps the Go map \<open>byID\<close> implicitly: \<open>byID\<close> and \<open>all\<close> are always extended
  together, so a lookup is \<open>lookup_event\<close> in \<open>cat_all\<close>. The map \<open>groups\<close> with its list of
  \<open>keys\<close> is an association list in order of first insertion. A nil map \<open>selected\<close> ("no
  selection") is None.
\<close>

section \<open>The catalogue\<close>

record publicationCatalog =
  cat_all :: "HistoryEvent list"
  cat_pending :: "HistoryEvent list"
  cat_accepted :: "string list"

fun index_publication ::
  "string \<Rightarrow> HistoryEvent list \<Rightarrow> HistoryEvent list \<Rightarrow> HistoryEvent list result" where
  "index_publication repo all [] = Inr all"
| "index_publication repo all (e # es) =
     (if he_RepoID e \<noteq> repo then Inl ErrHashMismatch
      else check_then (ValidateHistoryEvent e)
        (case lookup_event (he_ID e) all of
           Some old \<Rightarrow> if old \<noteq> e then Inl ErrHashMismatch else index_publication repo all es
         | None \<Rightarrow> index_publication repo (all @ [e]) es))"

fun pending_events :: "string list \<Rightarrow> string list \<Rightarrow> HistoryEvent list \<Rightarrow> HistoryEvent list" where
  "pending_events accepted seen [] = []"
| "pending_events accepted seen (e # es) =
     (if he_ID e \<notin> set accepted \<and> he_ID e \<notin> set seen
      then e # pending_events accepted (he_ID e # seen) es
      else pending_events accepted seen es)"

definition indexPublicationHistory ::
  "string \<Rightarrow> HistoryEvent list \<Rightarrow> HistoryEvent list \<Rightarrow> publicationCatalog result" where
  "indexPublicationHistory repo events accepted =
     bind_r (index_publication repo [] (accepted @ events)) (\<lambda>all.
       Inr \<lparr>cat_all = all, cat_pending = pending_events (map he_ID accepted) [] events,
            cat_accepted = map he_ID accepted\<rparr>)"

section \<open>Proofs and names of a completion\<close>

definition publicationProof :: "HistoryEvent \<Rightarrow> HistoryEvent \<Rightarrow> bool" where
  "publicationProof p e \<longleftrightarrow>
     he_Kind p = ''publish'' \<and> he_Kind e \<noteq> ''publish'' \<and> he_Kind e \<noteq> ''pr-merge'' \<and>
     he_RepoID e = he_RepoID p \<and> he_BranchID e = he_BranchID p \<and> he_Branch e = he_Branch p \<and>
     he_LocalBranch e = he_LocalBranch p \<and> he_WorktreeID e = he_WorktreeID p \<and>
     he_GitAfter e = he_GitAfter p \<and> he_Target e = he_Target p"

definition publicationAliasAttachment :: "HistoryEvent \<Rightarrow> HistoryEvent \<Rightarrow> HistoryEvent \<Rightarrow> bool" where
  "publicationAliasAttachment p pf a \<longleftrightarrow>
     he_Kind a = ''attach'' \<and> he_RepoID a = he_RepoID p \<and> he_BranchID a = he_BranchID p \<and>
     he_LocalBranch a \<noteq> [] \<and> he_WorktreeID a \<noteq> [] \<and>
     (he_WorktreeID a = he_WorktreeID p \<or> he_LocalBranch a = he_LocalBranch p) \<and>
     \<not> instant (he_CreatedAt pf) < instant (he_CreatedAt a)"

definition PublicationSourceNames :: "HistoryEvent \<Rightarrow> HistoryEvent list \<Rightarrow> string list" where
  "PublicationSourceNames p events =
     (if he_LocalBranch p = [] \<or> he_LocalBranch p = he_Branch p \<or> he_WorktreeID p = [] then [he_Branch p]
      else if list_ex (\<lambda>pf. publicationProof p pf \<and> list_ex (publicationAliasAttachment p pf) events) events
        then [he_Branch p, he_LocalBranch p]
      else [he_Branch p])"

section \<open>Competing targets\<close>

definition is_selected :: "string list option \<Rightarrow> string \<Rightarrow> bool" where
  "is_selected selected i = (case selected of None \<Rightarrow> True | Some ids \<Rightarrow> i \<in> set ids)"

definition competing_targets :: "HistoryEvent list \<Rightarrow> HistoryEvent \<Rightarrow> string list" where
  "competing_targets ps e =
     remdups (map he_Target
       (filter (\<lambda>f. he_BranchID f = he_BranchID e \<and> he_GitAfter f = he_GitAfter e) ps))"

definition ancestryRoots :: "publicationCatalog \<Rightarrow> string list option \<Rightarrow> string list" where
  "ancestryRoots c selected =
     (let ps = filter (\<lambda>e. he_Kind e = ''publish'' \<and> is_selected selected (he_BranchID e)) (cat_pending c)
      in sort (remdups (map he_Target (filter (\<lambda>e. 1 < length (competing_targets ps e)) ps))))"

definition PublicationAncestryRoots ::
  "string \<Rightarrow> HistoryEvent list \<Rightarrow> HistoryEvent list \<Rightarrow> string list result" where
  "PublicationAncestryRoots repo events accepted =
     bind_r (indexPublicationHistory repo events accepted) (\<lambda>c. Inr (ancestryRoots c None))"

section \<open>Ordering the completions\<close>

type_synonym publication_key = "string \<times> string \<times> string"

record order_state =
  os_ordinary :: "HistoryEvent list"
  os_groups :: "(publication_key \<times> HistoryEvent list) list"
  os_identities :: "publication_key \<Rightarrow> string"

fun add_group :: "'k \<Rightarrow> 'v \<Rightarrow> ('k \<times> 'v list) list \<Rightarrow> ('k \<times> 'v list) list" where
  "add_group k v [] = [(k, [v])]"
| "add_group k v ((k', vs) # gs) = (if k = k' then (k', vs @ [v]) # gs else (k', vs) # add_group k v gs)"

text \<open>The check of the canonical name and the local alias against other identities.\<close>

fun claim_names ::
  "string list option \<Rightarrow> HistoryEvent \<Rightarrow> string list \<Rightarrow> (publication_key \<Rightarrow> string)
   \<Rightarrow> (publication_key \<Rightarrow> string) result" where
  "claim_names selected e [] identities = Inr identities"
| "claim_names selected e (name # names) identities =
     (if name = [] then claim_names selected e names identities
      else
        let key = (he_RepoID e, name, he_GitAfter e); old = identities key in
        if old \<noteq> [] \<and> old \<noteq> he_BranchID e \<and>
           (selected = None \<or> is_selected selected old \<or> is_selected selected (he_BranchID e))
        then Inl ErrSyncConflict
        else claim_names selected e names
               (if old = [] then identities(key := he_BranchID e) else identities))"

definition scan_event :: "string \<Rightarrow> string list option \<Rightarrow> HistoryEvent \<Rightarrow> order_state \<Rightarrow> order_state result" where
  "scan_event repo selected e st =
     (if he_Kind e \<noteq> ''publish'' then
        Inr (if is_selected selected (he_BranchID e) then st\<lparr>os_ordinary := os_ordinary st @ [e]\<rparr> else st)
      else if he_RepoID e \<noteq> repo then Inl ErrHashMismatch
      else check_then (ValidateHistoryEvent e)
        (bind_r (claim_names selected e [he_Branch e, he_LocalBranch e] (os_identities st)) (\<lambda>identities.
           let st = st\<lparr>os_identities := identities\<rparr> in
           if \<not> is_selected selected (he_BranchID e) then Inr st
           else Inr (st\<lparr>os_groups := add_group (he_RepoID e, he_BranchID e, he_GitAfter e) e (os_groups st)\<rparr>))))"

fun scan_pending ::
  "string \<Rightarrow> string list option \<Rightarrow> HistoryEvent list \<Rightarrow> order_state \<Rightarrow> order_state result" where
  "scan_pending repo selected [] st = Inr st"
| "scan_pending repo selected (e # es) st =
     bind_r (scan_event repo selected e st) (scan_pending repo selected es)"

definition target_rank :: "(string \<times> string list) list \<Rightarrow> string list \<Rightarrow> string \<Rightarrow> nat" where
  "target_rank ancestry targets t =
     (if length targets = 1 then 0
      else case map_of ancestry t of
             None \<Rightarrow> 0
           | Some ancestors \<Rightarrow> length (filter (\<lambda>u. u \<in> set ancestors) targets))"

definition maximal_target :: "(string \<times> string list) list \<Rightarrow> string list \<Rightarrow> string result" where
  "maximal_target ancestry targets =
     (if length targets = 1 then Inr (hd targets)
      else if list_ex (\<lambda>t. map_of ancestry t = None) targets then Inl ErrSyncConflict
      else case filter (\<lambda>t. target_rank ancestry targets t = length targets) targets of
             [] \<Rightarrow> Inl ErrSyncConflict
           | t # ts \<Rightarrow> Inr (last (t # ts)))"

definition order_group ::
  "HistoryEvent list \<Rightarrow> (string \<times> string list) list \<Rightarrow> HistoryEvent list \<Rightarrow> HistoryEvent list result" where
  "order_group observations ancestry grp =
     (let targets = remdups (map he_Target grp) in
      bind_r (maximal_target ancestry targets) (\<lambda>maximal.
        let covered = concat (map (\<lambda>e. PublicationSourceNames e observations)
                                (filter (\<lambda>e. he_Target e = maximal) grp)) in
        if maximal = [] then Inl ErrSyncConflict
        else if list_ex (\<lambda>e. list_ex (\<lambda>name. name \<notin> set covered) (PublicationSourceNames e observations)) grp
          then Inl ErrSyncConflict
        else Inr (sort_key (\<lambda>e. (- int (target_rank ancestry targets (he_Target e)), he_ID e)) grp)))"

fun order_groups ::
  "HistoryEvent list \<Rightarrow> (string \<times> string list) list \<Rightarrow> (publication_key \<times> HistoryEvent list) list
   \<Rightarrow> HistoryEvent list \<Rightarrow> HistoryEvent list result" where
  "order_groups observations ancestry [] ordinary = Inr ordinary"
| "order_groups observations ancestry ((key, grp) # gs) ordinary =
     bind_r (order_group observations ancestry grp)
       (\<lambda>sorted. order_groups observations ancestry gs (ordinary @ sorted))"

definition order_publications ::
  "publicationCatalog \<Rightarrow> string \<Rightarrow> string list option \<Rightarrow> (string \<times> string list) list
   \<Rightarrow> HistoryEvent list result" where
  "order_publications c repo selected ancestry =
     bind_r (scan_pending repo selected (cat_pending c)
               \<lparr>os_ordinary = [], os_groups = [], os_identities = (\<lambda>_. [])\<rparr>)
       (\<lambda>st. order_groups (cat_all c) ancestry (os_groups st) (os_ordinary st))"

definition OrderHistoryPublications ::
  "string \<Rightarrow> HistoryEvent list \<Rightarrow> HistoryEvent list \<Rightarrow> (string \<times> string list) list
   \<Rightarrow> HistoryEvent list result" where
  "OrderHistoryPublications repo events accepted ancestry =
     bind_r (indexPublicationHistory repo events accepted)
       (\<lambda>c. order_publications c repo None ancestry)"

section \<open>Correctness of the catalogue\<close>

lemma filter_less:
  assumes "\<And>x. P x \<Longrightarrow> Q x" "t \<in> set xs" "Q t" "\<not> P t"
  shows "length (filter P xs) < length (filter Q xs)"
proof -
  have le: "length (filter P ys) \<le> length (filter Q ys)" for ys
    using assms(1) by (induction ys) auto
  from assms(2) obtain ys zs where "xs = ys @ t # zs" by (auto simp: in_set_conv_decomp)
  with assms(3,4) le [of ys] le [of zs] show ?thesis by simp
qed

lemma index_publication_spec:
  assumes "index_publication repo all es = Inr out" "distinct_ids all"
  shows "distinct_ids out \<and> set out = set all \<union> set es \<and>
         (\<forall>e \<in> set es. he_RepoID e = repo \<and> ValidateHistoryEvent e = None)"
  using assms
proof (induction es arbitrary: all)
  case (Cons e es)
  show ?case
  proof (cases "lookup_event (he_ID e) all")
    case None
    have "distinct_ids (all @ [e])"
      using None Cons.prems(2) by (auto simp: distinct_ids_def lookup_event_None)
    with None Cons.prems(1) Cons.IH [of "all @ [e]"] show ?thesis by (auto split: if_splits)
  next
    case (Some old)
    with Cons.prems(1) lookup_event_Some [OF Some] have "e \<in> set all" by (auto split: if_splits)
    with Some Cons.prems Cons.IH [of all] show ?thesis by (auto split: if_splits)
  qed
qed simp

lemma index_publication_ok:
  assumes "\<not> event_conflict (all @ es)" "\<And>e. e \<in> set es \<Longrightarrow> he_RepoID e = repo \<and> ValidateHistoryEvent e = None"
  shows "\<exists>out. index_publication repo all es = Inr out"
  using assms
proof (induction es arbitrary: all)
  case (Cons e es)
  have ok: "he_RepoID e = repo" "ValidateHistoryEvent e = None" using Cons.prems(2) by auto
  have IH: "\<exists>out. index_publication repo a es = Inr out" if "\<not> event_conflict (a @ es)" for a
    using that Cons.prems(2) by (intro Cons.IH) auto
  show ?case
  proof (cases "lookup_event (he_ID e) all")
    case None
    with ok IH [of "all @ [e]"] Cons.prems(1) show ?thesis by simp
  next
    case (Some old)
    with lookup_event_Some [OF Some] Cons.prems(1) have "old = e" by (auto simp: event_conflict_def)
    moreover have "\<not> event_conflict (all @ es)"
      using Cons.prems(1) event_conflict_mono [of "all @ es" "all @ e # es"] by auto
    ultimately show ?thesis using Some ok IH by simp
  qed
qed simp

lemma pending_events_set:
  assumes "\<not> event_conflict es"
  shows "set (pending_events acc seen es) = {e \<in> set es. he_ID e \<notin> set acc \<and> he_ID e \<notin> set seen}"
  using assms
proof (induction es arbitrary: seen)
  case (Cons e es)
  have "\<not> event_conflict es" using Cons.prems event_conflict_mono [of es "e # es"] by auto
  with Cons.IH have IH: "set (pending_events acc s es) = {e \<in> set es. he_ID e \<notin> set acc \<and> he_ID e \<notin> set s}" for s
    by blast
  have "f = e" if "f \<in> set es" "he_ID f = he_ID e" for f using that Cons.prems by (auto simp: event_conflict_def)
  then show ?case by (auto simp: IH)
qed simp

lemma pending_events_distinct:
  "distinct_ids (pending_events acc seen es) \<and> he_ID ` set (pending_events acc seen es) \<inter> set seen = {}"
  by (induction acc seen es rule: pending_events.induct) (auto simp: distinct_ids_def)

lemma indexPublicationHistory_spec:
  assumes "indexPublicationHistory repo events accepted = Inr c"
  shows "distinct_ids (cat_all c)" "set (cat_all c) = set accepted \<union> set events"
    "cat_accepted c = map he_ID accepted" "distinct_ids (cat_pending c)"
    "set (cat_pending c) = {e \<in> set events. he_ID e \<notin> he_ID ` set accepted}"
    "\<And>e. e \<in> set (cat_all c) \<Longrightarrow> he_RepoID e = repo \<and> ValidateHistoryEvent e = None"
proof -
  from assms obtain all where all: "index_publication repo [] (accepted @ events) = Inr all"
    and c: "c = \<lparr>cat_all = all, cat_pending = pending_events (map he_ID accepted) [] events,
            cat_accepted = map he_ID accepted\<rparr>"
    by (auto simp: indexPublicationHistory_def)
  from index_publication_spec [OF all] have spec: "distinct_ids all" "set all = set accepted \<union> set events"
    "\<forall>e \<in> set accepted \<union> set events. he_RepoID e = repo \<and> ValidateHistoryEvent e = None"
    by (auto simp: distinct_ids_def)
  then have "\<not> event_conflict events"
    using distinct_ids_no_conflict [OF spec(1)] event_conflict_mono [of events all] by auto
  with spec pending_events_set [of events "map he_ID accepted" "[]"] pending_events_distinct
  show "distinct_ids (cat_all c)" "set (cat_all c) = set accepted \<union> set events"
    "cat_accepted c = map he_ID accepted" "distinct_ids (cat_pending c)"
    "set (cat_pending c) = {e \<in> set events. he_ID e \<notin> he_ID ` set accepted}"
    "\<And>e. e \<in> set (cat_all c) \<Longrightarrow> he_RepoID e = repo \<and> ValidateHistoryEvent e = None"
    by (auto simp: c)
qed

text \<open>
  Indexing accepts a local and an accepted history exactly when every event is valid and of the
  repository and no operation ID occurs with two different payloads. Then the catalogue holds every
  event once, and the pending events are exactly the local ones the server has not accepted.
\<close>

theorem indexPublicationHistory_correct:
  "case indexPublicationHistory repo events accepted of
     Inl _ \<Rightarrow> event_conflict (accepted @ events) \<or>
        (\<exists>e \<in> set accepted \<union> set events. \<not> (he_RepoID e = repo \<and> ValidateHistoryEvent e = None))
   | Inr c \<Rightarrow> distinct (map he_ID (cat_all c)) \<and> set (cat_all c) = set accepted \<union> set events \<and>
        distinct (map he_ID (cat_pending c)) \<and>
        set (cat_pending c) = {e \<in> set events. he_ID e \<notin> he_ID ` set accepted}"
proof (cases "indexPublicationHistory repo events accepted")
  case (Inl err)
  then have none: "\<nexists>out. index_publication repo [] (accepted @ events) = Inr out"
    by (auto simp: indexPublicationHistory_def)
  have "event_conflict (accepted @ events) \<or>
        (\<exists>e \<in> set accepted \<union> set events. \<not> (he_RepoID e = repo \<and> ValidateHistoryEvent e = None))"
  proof (rule ccontr)
    assume "\<not> ?thesis"
    then have "\<exists>out. index_publication repo [] (accepted @ events) = Inr out"
      by (intro index_publication_ok) auto
    with none show False by blast
  qed
  with Inl show ?thesis by simp
next
  case (Inr c)
  from indexPublicationHistory_spec [OF Inr] Inr show ?thesis by (simp add: distinct_ids_def)
qed

section \<open>Correctness of the completion groups\<close>

definition event_names :: "HistoryEvent \<Rightarrow> string set" where
  "event_names e = {he_Branch e, he_LocalBranch e} - {[]}"

definition group_key :: "HistoryEvent \<Rightarrow> publication_key" where
  "group_key e = (he_RepoID e, he_BranchID e, he_GitAfter e)"

lemma add_group_mset:
  "mset (concat (map snd (add_group k v gs))) = add_mset v (mset (concat (map snd gs)))"
  by (induction k v gs rule: add_group.induct) auto

lemma add_group_keys: "fst ` set (add_group k v gs) = insert k (fst ` set gs)"
  by (induction k v gs rule: add_group.induct) auto

lemma add_group_distinct: "distinct (map fst gs) \<Longrightarrow> distinct (map fst (add_group k v gs))"
  by (induction k v gs rule: add_group.induct) (auto simp: add_group_keys)

lemma add_group_all:
  assumes "\<And>k' es e. (k', es) \<in> set gs \<Longrightarrow> e \<in> set es \<Longrightarrow> P k' e" "P k v"
    and "(k', es) \<in> set (add_group k v gs)" "e \<in> set es"
  shows "P k' e"
  using assms
proof (induction k v gs rule: add_group.induct)
  case (2 k v k'' vs gs)
  show ?case
  proof (cases "k = k''")
    case True
    with "2.prems" "2.prems"(1) [of k'' vs e] "2.prems"(1) [of k' es e] show ?thesis by auto
  next
    case False
    have "P k' e" if "(k', es) \<in> set (add_group k v gs)"
      by (rule "2.IH" [OF False _ "2.prems"(2) that "2.prems"(4)]) (use "2.prems"(1) in auto)
    with False "2.prems" "2.prems"(1) [of k'' vs e] show ?thesis by auto
  qed
qed auto

definition groups_inv :: "order_state \<Rightarrow> bool" where
  "groups_inv st \<longleftrightarrow> distinct (map fst (os_groups st)) \<and>
     (\<forall>k es e. (k, es) \<in> set (os_groups st) \<and> e \<in> set es \<longrightarrow> group_key e = k \<and> he_Kind e = ''publish'')"

lemma groups_inv_simps [simp]:
  "groups_inv (st\<lparr>os_identities := ids\<rparr>) = groups_inv st"
  "groups_inv (st\<lparr>os_ordinary := es\<rparr>) = groups_inv st"
  by (simp_all add: groups_inv_def)

lemma groups_inv_add:
  assumes "groups_inv st" "he_Kind e = ''publish''"
  shows "groups_inv (st\<lparr>os_identities := ids, os_groups := add_group (group_key e) e (os_groups st)\<rparr>)"
proof -
  let ?P = "\<lambda>k f. group_key f = k \<and> he_Kind f = ''publish''"
  have old: "?P k f" if "(k, es) \<in> set (os_groups st)" "f \<in> set es" for k es f
    using that assms(1) unfolding groups_inv_def by blast
  have "?P k f" if "(k, es) \<in> set (add_group (group_key e) e (os_groups st))" "f \<in> set es" for k es f
    by (rule add_group_all [where P = ?P, OF old _ that]) (use assms(2) in auto)
  moreover have "distinct (map fst (add_group (group_key e) e (os_groups st)))"
    using assms(1) by (simp add: groups_inv_def add_group_distinct)
  moreover have "os_groups (st\<lparr>os_identities := ids, os_groups := add_group (group_key e) e (os_groups st)\<rparr>)
      = add_group (group_key e) e (os_groups st)" by simp
  ultimately show ?thesis unfolding groups_inv_def by metis
qed

lemma scan_event_publish:
  assumes "scan_event repo selected e st = Inr st1" "he_Kind e = ''publish''"
  obtains ids where "claim_names selected e [he_Branch e, he_LocalBranch e] (os_identities st) = Inr ids"
    "st1 = (if is_selected selected (he_BranchID e)
            then st\<lparr>os_identities := ids, os_groups := add_group (group_key e) e (os_groups st)\<rparr>
            else st\<lparr>os_identities := ids\<rparr>)"
  using assms
  by (auto simp: scan_event_def Let_def group_key_def simp del: claim_names.simps split: if_splits)

lemma scan_event_ordinary:
  "he_Kind e \<noteq> ''publish'' \<Longrightarrow> scan_event repo selected e st =
     Inr (if is_selected selected (he_BranchID e) then st\<lparr>os_ordinary := os_ordinary st @ [e]\<rparr> else st)"
  by (simp add: scan_event_def)

lemma scan_pending_spec:
  assumes "scan_pending repo selected es st = Inr st'" "groups_inv st"
  shows "groups_inv st' \<and>
         os_ordinary st' = os_ordinary st @
           filter (\<lambda>e. he_Kind e \<noteq> ''publish'' \<and> is_selected selected (he_BranchID e)) es \<and>
         mset (concat (map snd (os_groups st'))) = mset (concat (map snd (os_groups st))) +
           mset (filter (\<lambda>e. he_Kind e = ''publish'' \<and> is_selected selected (he_BranchID e)) es)"
  using assms
proof (induction es arbitrary: st)
  case (Cons e es)
  from Cons.prems(1) obtain st1 where e: "scan_event repo selected e st = Inr st1"
    and rest: "scan_pending repo selected es st1 = Inr st'" by auto
  consider (ord) "he_Kind e \<noteq> ''publish''"
      "st1 = (if is_selected selected (he_BranchID e) then st\<lparr>os_ordinary := os_ordinary st @ [e]\<rparr> else st)"
    | (skip) ids where "he_Kind e = ''publish''" "\<not> is_selected selected (he_BranchID e)" "st1 = st\<lparr>os_identities := ids\<rparr>"
    | (add) ids where "he_Kind e = ''publish''" "is_selected selected (he_BranchID e)"
      "st1 = st\<lparr>os_identities := ids, os_groups := add_group (group_key e) e (os_groups st)\<rparr>"
  proof (cases "he_Kind e = ''publish''")
    case True
    from e True obtain ids where "st1 = (if is_selected selected (he_BranchID e)
            then st\<lparr>os_identities := ids, os_groups := add_group (group_key e) e (os_groups st)\<rparr>
            else st\<lparr>os_identities := ids\<rparr>)" by (rule scan_event_publish)
    with True skip add show ?thesis by (cases "is_selected selected (he_BranchID e)") auto
  qed (use e ord in \<open>simp add: scan_event_ordinary\<close>)
  then show ?case
  proof cases
    case ord
    then have "groups_inv st1" using Cons.prems(2) by simp
    from Cons.IH [OF rest this] ord show ?thesis by simp
  next
    case skip
    then have "groups_inv st1" using Cons.prems(2) by simp
    from Cons.IH [OF rest this] skip show ?thesis by simp
  next
    case add
    then have "groups_inv st1" using Cons.prems(2) by (simp add: groups_inv_add)
    from Cons.IH [OF rest this] add show ?thesis by (simp add: add_group_mset)
  qed
qed simp

text \<open>
  The owner of a name at a Git revision is the first identity that published it; a later event
  is compatible with it when it has the same identity or neither of the two is selected.
\<close>

definition compatible :: "string list option \<Rightarrow> HistoryEvent \<Rightarrow> string \<Rightarrow> bool" where
  "compatible selected e owner \<longleftrightarrow> owner \<noteq> [] \<and>
     (owner = he_BranchID e \<or> (\<not> is_selected selected owner \<and> \<not> is_selected selected (he_BranchID e)))"

lemma is_selected_None [simp]: "is_selected None i"
  by (simp add: is_selected_def)

lemma claim_names_spec:
  assumes "claim_names selected e names ids = Inr ids'" "he_BranchID e \<noteq> []"
  shows "(\<forall>k. ids k \<noteq> [] \<longrightarrow> ids' k = ids k) \<and>
         (\<forall>name \<in> set names - {[]}. compatible selected e (ids' (he_RepoID e, name, he_GitAfter e)))"
  using assms
proof (induction names arbitrary: ids)
  case (Cons name names)
  show ?case
  proof (cases "name = []")
    case True
    with Cons show ?thesis by simp
  next
    case False
    let ?k = "(he_RepoID e, name, he_GitAfter e)"
    define ids1 where "ids1 = (if ids ?k = [] then ids(?k := he_BranchID e) else ids)"
    from Cons.prems(1) False have ok: "compatible selected e (ids1 ?k)"
      and rest: "claim_names selected e names ids1 = Inr ids'"
      using Cons.prems(2) by (auto simp: Let_def compatible_def ids1_def split: if_splits)
    note IH = Cons.IH [OF rest Cons.prems(2)]
    have old: "ids1 k = ids k" if "ids k \<noteq> []" for k using that by (auto simp: ids1_def)
    have "ids' ?k = ids1 ?k" using IH ok by (simp add: compatible_def)
    then have "compatible selected e (ids' ?k)" using ok by simp
    moreover have "ids' k = ids k" if "ids k \<noteq> []" for k using old [OF that] IH that by metis
    ultimately show ?thesis using IH by auto
  qed
qed simp

lemma valid_branch_id: "ValidateHistoryEvent e = None \<Longrightarrow> he_BranchID e \<noteq> []"
  by (simp add: ValidateHistoryEvent_def)

lemma scan_event_names:
  assumes "scan_event repo selected e st = Inr st1" "he_BranchID e \<noteq> []"
  shows "(\<forall>k. os_identities st k \<noteq> [] \<longrightarrow> os_identities st1 k = os_identities st k) \<and>
         (he_Kind e = ''publish'' \<longrightarrow>
            (\<forall>name \<in> event_names e. compatible selected e (os_identities st1 (he_RepoID e, name, he_GitAfter e))))"
proof (cases "he_Kind e = ''publish''")
  case True
  from assms(1) True obtain ids where
    c: "claim_names selected e [he_Branch e, he_LocalBranch e] (os_identities st) = Inr ids"
    and st1: "os_identities st1 = ids"
    by (rule scan_event_publish) (auto split: if_splits)
  from claim_names_spec [OF c assms(2)] show ?thesis by (simp add: st1 event_names_def)
qed (use assms(1) in \<open>auto simp: scan_event_ordinary split: if_splits\<close>)

lemma scan_pending_names:
  assumes "scan_pending repo selected es st = Inr st'" "\<And>e. e \<in> set es \<Longrightarrow> he_BranchID e \<noteq> []"
  shows "(\<forall>k. os_identities st k \<noteq> [] \<longrightarrow> os_identities st' k = os_identities st k) \<and>
         (\<forall>e \<in> set es. he_Kind e = ''publish'' \<longrightarrow>
            (\<forall>name \<in> event_names e. compatible selected e (os_identities st' (he_RepoID e, name, he_GitAfter e))))"
  using assms
proof (induction es arbitrary: st)
  case (Cons e es)
  from Cons.prems(1) obtain st1 where e: "scan_event repo selected e st = Inr st1"
    and rest: "scan_pending repo selected es st1 = Inr st'" by auto
  note e1 = scan_event_names [OF e Cons.prems(2) [of e]]
  have IH: "(\<forall>k. os_identities st1 k \<noteq> [] \<longrightarrow> os_identities st' k = os_identities st1 k) \<and>
         (\<forall>e \<in> set es. he_Kind e = ''publish'' \<longrightarrow>
            (\<forall>name \<in> event_names e. compatible selected e (os_identities st' (he_RepoID e, name, he_GitAfter e))))"
    using Cons.prems(2) by (intro Cons.IH [OF rest]) auto
  have "compatible selected e (os_identities st' (he_RepoID e, name, he_GitAfter e))"
    if "he_Kind e = ''publish''" "name \<in> event_names e" for name
    using that e1 IH by (auto simp: compatible_def)
  with e1 IH show ?case by (metis list.set_intros(1) set_ConsD)
qed simp

lemma order_groups_spec:
  "order_groups obs anc gs ordinary = Inr out \<Longrightarrow>
     \<exists>ss. list_all2 (\<lambda>g s. order_group obs anc (snd g) = Inr s) gs ss \<and> out = ordinary @ concat ss"
proof (induction gs arbitrary: ordinary)
  case (Cons g gs)
  obtain k grp where g: "g = (k, grp)" by (cases g)
  from Cons.prems obtain s where s: "order_group obs anc grp = Inr s"
    and rest: "order_groups obs anc gs (ordinary @ s) = Inr out" by (auto simp: g)
  from Cons.IH [OF rest] obtain ss where "list_all2 (\<lambda>g s. order_group obs anc (snd g) = Inr s) gs ss"
    "out = (ordinary @ s) @ concat ss" by blast
  with s show ?case by (intro exI [of _ "s # ss"]) (simp add: g)
qed simp

lemma order_group_mset: "order_group obs anc grp = Inr s \<Longrightarrow> mset s = mset grp"
  by (auto simp: order_group_def Let_def split: if_splits)

lemma order_groups_mset:
  assumes "list_all2 (\<lambda>g s. order_group obs anc (snd g) = Inr s) gs ss"
  shows "mset (concat ss) = mset (concat (map snd gs))"
  using assms by (induction rule: list_all2_induct) (simp_all add: order_group_mset)

lemma order_publications_spec:
  assumes "order_publications c repo selected anc = Inr out"
  obtains st ss where "scan_pending repo selected (cat_pending c) \<lparr>os_ordinary = [], os_groups = [], os_identities = (\<lambda>_. [])\<rparr> = Inr st"
    "groups_inv st" "out = os_ordinary st @ concat ss"
    "list_all2 (\<lambda>g s. order_group (cat_all c) anc (snd g) = Inr s) (os_groups st) ss"
    "os_ordinary st = filter (\<lambda>e. he_Kind e \<noteq> ''publish'' \<and> is_selected selected (he_BranchID e)) (cat_pending c)"
    "mset (concat ss) = mset (filter (\<lambda>e. he_Kind e = ''publish'' \<and> is_selected selected (he_BranchID e)) (cat_pending c))"
proof -
  let ?init = "\<lparr>os_ordinary = [], os_groups = [], os_identities = (\<lambda>_. [])\<rparr>"
  from assms obtain st where st: "scan_pending repo selected (cat_pending c) ?init = Inr st"
    and gr: "order_groups (cat_all c) anc (os_groups st) (os_ordinary st) = Inr out"
    by (auto simp: order_publications_def)
  have "groups_inv ?init" by (simp add: groups_inv_def)
  note spec = scan_pending_spec [OF st this]
  from order_groups_spec [OF gr] obtain ss where
    ss: "list_all2 (\<lambda>g s. order_group (cat_all c) anc (snd g) = Inr s) (os_groups st) ss" "out = os_ordinary st @ concat ss"
    by blast
  show ?thesis by (rule that [of st ss]) (use st spec ss order_groups_mset [OF ss(1)] in simp_all)
qed

lemma mset_filter_split:
  "mset (filter (\<lambda>x. \<not> P x \<and> Q x) xs) + mset (filter (\<lambda>x. P x \<and> Q x) xs) = mset (filter Q xs)"
  by (induction xs) auto

text \<open>
  The order of a publication batch is complete and unambiguous: it holds every selected pending
  event exactly once, the ordinary ones first; and no name (canonical or local alias) is published
  at one Git revision by two identities when one of them is selected.
\<close>

theorem order_publications_correct:
  assumes "indexPublicationHistory repo events accepted = Inr c"
    and "order_publications c repo selected anc = Inr out"
  shows "mset out = mset (filter (\<lambda>e. is_selected selected (he_BranchID e)) (cat_pending c)) \<and>
         (\<exists>xs ys. out = xs @ ys \<and> list_all (\<lambda>e. he_Kind e \<noteq> ''publish'') xs \<and>
                  list_all (\<lambda>e. he_Kind e = ''publish'') ys) \<and>
         (\<forall>e f. e \<in> set (cat_pending c) \<and> f \<in> set (cat_pending c) \<and>
                he_Kind e = ''publish'' \<and> he_Kind f = ''publish'' \<and> he_GitAfter e = he_GitAfter f \<and>
                event_names e \<inter> event_names f \<noteq> {} \<and> is_selected selected (he_BranchID e)
                \<longrightarrow> he_BranchID e = he_BranchID f)"
proof -
  note cat = indexPublicationHistory_spec [OF assms(1)]
  from assms(2) obtain st ss where
    st: "scan_pending repo selected (cat_pending c) \<lparr>os_ordinary = [], os_groups = [], os_identities = (\<lambda>_. [])\<rparr> = Inr st"
    and out: "out = os_ordinary st @ concat ss"
    and ord: "os_ordinary st = filter (\<lambda>e. he_Kind e \<noteq> ''publish'' \<and> is_selected selected (he_BranchID e)) (cat_pending c)"
    and pub: "mset (concat ss) = mset (filter (\<lambda>e. he_Kind e = ''publish'' \<and> is_selected selected (he_BranchID e)) (cat_pending c))"
    by (rule order_publications_spec)
  have sub: "e \<in> set (cat_all c)" if "e \<in> set (cat_pending c)" for e using that cat(2,5) by auto
  have "mset out = mset (filter (\<lambda>e. is_selected selected (he_BranchID e)) (cat_pending c))"
    unfolding out mset_append ord pub by (rule mset_filter_split)
  moreover have "list_all (\<lambda>e. he_Kind e = ''publish'') (concat ss)"
    using mset_eq_setD [OF pub] by (auto simp: list_all_iff)
  then have "\<exists>xs ys. out = xs @ ys \<and> list_all (\<lambda>e. he_Kind e \<noteq> ''publish'') xs \<and> list_all (\<lambda>e. he_Kind e = ''publish'') ys"
    using out ord by (intro exI [of _ "os_ordinary st"] exI [of _ "concat ss"]) (simp add: list_all_iff)
  moreover have "he_BranchID e = he_BranchID f"
    if ef: "e \<in> set (cat_pending c)" "f \<in> set (cat_pending c)" "he_Kind e = ''publish''" "he_Kind f = ''publish''"
      "he_GitAfter e = he_GitAfter f" "name \<in> event_names e" "name \<in> event_names f" "is_selected selected (he_BranchID e)"
    for e f name
  proof -
    have "he_BranchID x \<noteq> []" if "x \<in> set (cat_pending c)" for x using cat(6) [OF sub [OF that]] valid_branch_id by blast
    from scan_pending_names [OF st this] ef
    have "compatible selected e (os_identities st (he_RepoID e, name, he_GitAfter e))"
      "compatible selected f (os_identities st (he_RepoID f, name, he_GitAfter f))" by blast+
    moreover have "he_RepoID e = he_RepoID f" using cat(6) [OF sub [OF ef(1)]] cat(6) [OF sub [OF ef(2)]] by simp
    ultimately show ?thesis using ef(5,8) by (auto simp: compatible_def)
  qed
  then have "\<forall>e f. e \<in> set (cat_pending c) \<and> f \<in> set (cat_pending c) \<and>
                he_Kind e = ''publish'' \<and> he_Kind f = ''publish'' \<and> he_GitAfter e = he_GitAfter f \<and>
                event_names e \<inter> event_names f \<noteq> {} \<and> is_selected selected (he_BranchID e)
                \<longrightarrow> he_BranchID e = he_BranchID f" by blast
  ultimately show ?thesis by blast
qed

subsection \<open>Descendants first\<close>

lemma rank_less:
  assumes anc: "publicationAncestry repo snaps roots = Inr anc"
    and "t \<in> set targets" "u \<in> set targets" "map_of anc t \<noteq> None" "map_of anc u \<noteq> None"
    and "length targets \<noteq> 1" and "(t, u) \<in> (snapshot_edges snaps)\<^sup>+"
  shows "target_rank anc targets u < target_rank anc targets t"
proof -
  let ?E = "snapshot_edges snaps"
  from assms(4,5) obtain at au where at: "map_of anc t = Some at" and au: "map_of anc u = Some au" by auto
  note ex = publicationAncestry_reach [OF anc]
  from ex [OF map_of_SomeD [OF at]] have t: "set at = ?E\<^sup>* `` {t}" "\<And>x. x \<in> set at \<Longrightarrow> (x, x) \<notin> ?E\<^sup>+" by auto
  from ex [OF map_of_SomeD [OF au]] have u: "set au = ?E\<^sup>* `` {u}" by auto
  have "t \<in> set at" using t(1) by simp
  moreover have "t \<notin> set au"
  proof
    assume "t \<in> set au"
    with u have "(u, t) \<in> ?E\<^sup>*" by simp
    with assms(7) have "(t, t) \<in> ?E\<^sup>+" by (rule trancl_rtrancl_trancl)
    with t(2) \<open>t \<in> set at\<close> show False by blast
  qed
  moreover have "set au \<subseteq> set at"
    using t(1) u assms(7) by (auto intro: rtrancl_trans trancl_into_rtrancl)
  ultimately have "length (filter (\<lambda>x. x \<in> set au) targets) < length (filter (\<lambda>x. x \<in> set at) targets)"
    using assms(2) by (intro filter_less [where t = t]) auto
  then show ?thesis using assms(6) at au by (simp add: target_rank_def)
qed

lemma maximal_target_known:
  "maximal_target anc targets = Inr m \<Longrightarrow> length targets \<noteq> 1 \<Longrightarrow>
     m \<in> set targets \<and> target_rank anc targets m = length targets \<and> (\<forall>t \<in> set targets. map_of anc t \<noteq> None)"
proof -
  assume m: "maximal_target anc targets = Inr m" "length targets \<noteq> 1"
  then obtain t ts where f: "filter (\<lambda>t. target_rank anc targets t = length targets) targets = t # ts"
    and m': "m = last (t # ts)" and all: "\<not> list_ex (\<lambda>t. map_of anc t = None) targets"
    by (auto simp: maximal_target_def split: if_splits list.splits)
  have "m \<in> set (t # ts)" unfolding m' by (rule last_in_set) simp
  then have "m \<in> set (filter (\<lambda>t. target_rank anc targets t = length targets) targets)" using f by simp
  then show ?thesis using all by (auto simp: list_ex_iff)
qed

lemma target_rank_le: "target_rank anc targets t \<le> length targets"
  by (simp add: target_rank_def length_filter_le split: option.splits)

lemma full_rank:
  assumes "target_rank anc targets t = length targets" "length targets \<noteq> 1" "u \<in> set targets"
  shows "\<exists>as. map_of anc t = Some as \<and> u \<in> set as"
proof (cases "map_of anc t")
  case None
  with assms show ?thesis by (simp add: target_rank_def)
next
  case (Some as)
  with assms(1,2) have "length (filter (\<lambda>u. u \<in> set as) targets) = length targets" by (simp add: target_rank_def)
  then have "filter (\<lambda>u. u \<in> set as) targets = targets" by (simp add: filter_id_conv length_filter_conv_card) (metis filter_True length_filter_less less_irrefl \<open>length (filter (\<lambda>u. u \<in> set as) targets) = length targets\<close>)
  with assms(3) Some show ?thesis by (auto simp: filter_id_conv)
qed

lemma order_group_descending:
  assumes anc: "publicationAncestry repo snaps roots = Inr anc" and g: "order_group obs anc grp = Inr s"
  shows "sorted_wrt (\<lambda>a b. he_Target a \<noteq> he_Target b \<longrightarrow> (he_Target b, he_Target a) \<notin> (snapshot_edges snaps)\<^sup>+) s"
    and "e \<in> set s \<Longrightarrow> (he_Target (hd s), he_Target e) \<in> (snapshot_edges snaps)\<^sup>*"
proof -
  let ?T = "remdups (map he_Target grp)"
  let ?key = "\<lambda>e. (- int (target_rank anc ?T (he_Target e)), he_ID e)"
  from g obtain m where m: "maximal_target anc ?T = Inr m" and s: "s = sort_key ?key grp"
    by (auto simp: order_group_def Let_def split: if_splits)
  have set: "set s = set grp" by (simp add: s)
  have srt: "sorted_wrt (\<lambda>a b. ?key a \<le> ?key b) s"
    unfolding s by (metis (mono_tags) sorted_map sorted_sort_key)
  have rank: "target_rank anc ?T (he_Target b) \<le> target_rank anc ?T (he_Target a)" if "?key a \<le> ?key b" for a b
    using that by auto
  show "sorted_wrt (\<lambda>a b. he_Target a \<noteq> he_Target b \<longrightarrow> (he_Target b, he_Target a) \<notin> (snapshot_edges snaps)\<^sup>+) s"
  proof (rule sorted_wrt_mono_rel [OF _ srt], intro impI notI)
    fix a b assume ab: "a \<in> set s" "b \<in> set s" "?key a \<le> ?key b" "he_Target a \<noteq> he_Target b"
      and anc': "(he_Target b, he_Target a) \<in> (snapshot_edges snaps)\<^sup>+"
    then have T: "he_Target a \<in> set ?T" "he_Target b \<in> set ?T" by (simp_all add: set)
    with ab(4) have len: "length ?T \<noteq> 1" by (metis (no_types) One_nat_def length_Suc_conv_rev length_0_conv append_Nil list.set(1,2) singletonD)
    with maximal_target_known [OF m len] T rank_less [OF anc T(2,1) _ _ len anc'] rank [OF ab(3)] show False by auto
  qed
  show "(he_Target (hd s), he_Target e) \<in> (snapshot_edges snaps)\<^sup>*" if e: "e \<in> set s"
  proof (cases "length ?T = 1")
    case True
    then obtain t where "set ?T = {t}" by (metis One_nat_def length_0_conv length_Suc_conv list.simps(15) set_empty)
    moreover have "hd s \<in> set s" using e by (cases s) auto
    with e have "he_Target (hd s) \<in> set ?T" "he_Target e \<in> set ?T" by (simp_all add: set)
    ultimately show ?thesis by simp
  next
    case len: False
    from maximal_target_known [OF m len] obtain g0 where g0: "g0 \<in> set s"
      "target_rank anc ?T (he_Target g0) = length ?T" by (auto simp: set)
    have "?key (hd s) \<le> ?key g0" using srt g0(1) by (cases s) auto
    from rank [OF this] g0(2) target_rank_le [of anc ?T "he_Target (hd s)"]
    have "target_rank anc ?T (he_Target (hd s)) = length ?T" by simp
    from full_rank [OF this len, of "he_Target e"] e obtain as
      where as: "map_of anc (he_Target (hd s)) = Some as" "he_Target e \<in> set as" by (auto simp: set)
    from publicationAncestry_reach [OF anc map_of_SomeD [OF as(1)]] as(2) show ?thesis by auto
  qed
qed

lemma filter_groups:
  assumes "list_all2 (\<lambda>g s. order_group obs anc (snd g) = Inr s) gs ss" "distinct (map fst gs)"
    and "\<And>k es e. (k, es) \<in> set gs \<Longrightarrow> e \<in> set es \<Longrightarrow> key e = k"
  shows "filter (\<lambda>e. key e = k) (concat ss) = [] \<or> filter (\<lambda>e. key e = k) (concat ss) \<in> set ss"
  using assms
proof (induction rule: list_all2_induct)
  case (Cons g gs s ss)
  obtain k' es where g: "g = (k', es)" by (cases g)
  have s: "key e = k'" if "e \<in> set s" for e
    using that Cons.prems(2) [of k' es e] mset_eq_setD [OF order_group_mset [OF Cons.hyps(1)]] by (simp add: g)
  have sub: "key e \<in> fst ` set gs" if "e \<in> set (concat ss)" for e
  proof -
    from that mset_eq_setD [OF order_groups_mset [OF Cons.hyps(2)]] have "e \<in> set (concat (map snd gs))" by blast
    then obtain g' where g': "g' \<in> set gs" "e \<in> set (snd g')" by auto
    then have "key e = fst g'" using Cons.prems(2) [of "fst g'" "snd g'" e] by simp
    with g' show ?thesis by simp
  qed
  have IH: "filter (\<lambda>e. key e = k) (concat ss) = [] \<or> filter (\<lambda>e. key e = k) (concat ss) \<in> set ss"
    using Cons.prems by (intro Cons.IH) auto
  show ?case
  proof (cases "k = k'")
    case True
    then have "filter (\<lambda>e. key e = k) s = s" using s by (simp add: filter_id_conv)
    moreover have "filter (\<lambda>e. key e = k) (concat ss) = []"
      using sub Cons.prems(1) True by (auto simp: g filter_empty_conv)
    ultimately show ?thesis by simp
  next
    case False
    then have "filter (\<lambda>e. key e = k) s = []" using s by (auto simp: filter_empty_conv)
    with IH show ?thesis by auto
  qed
qed simp

lemma publication_groups_descending:
  assumes anc: "publicationAncestry repo snaps roots = Inr anc"
    and out: "order_publications c repo selected anc = Inr out"
    and grp: "grp = filter (\<lambda>e. he_Kind e = ''publish'' \<and> group_key e = k) out"
  shows "sorted_wrt (\<lambda>a b. he_Target a \<noteq> he_Target b \<longrightarrow>
            (he_Target b, he_Target a) \<notin> (snapshot_edges snaps)\<^sup>+) grp \<and>
         list_all (\<lambda>e. (he_Target (hd grp), he_Target e) \<in> (snapshot_edges snaps)\<^sup>*) grp"
proof -
  from out obtain st ss where inv: "groups_inv st" and o: "out = os_ordinary st @ concat ss"
    and ss: "list_all2 (\<lambda>g s. order_group (cat_all c) anc (snd g) = Inr s) (os_groups st) ss"
    and ord: "os_ordinary st = filter (\<lambda>e. he_Kind e \<noteq> ''publish'' \<and> is_selected selected (he_BranchID e)) (cat_pending c)"
    and pub: "mset (concat ss) = mset (filter (\<lambda>e. he_Kind e = ''publish'' \<and> is_selected selected (he_BranchID e)) (cat_pending c))"
    by (rule order_publications_spec)
  have "filter (\<lambda>e. he_Kind e = ''publish'' \<and> group_key e = k) (concat ss) = filter (\<lambda>e. group_key e = k) (concat ss)"
    using mset_eq_setD [OF pub] by (intro filter_cong) auto
  then have grp': "grp = filter (\<lambda>e. group_key e = k) (concat ss)"
    by (auto simp: grp o ord filter_empty_conv)
  have "distinct (map fst (os_groups st))"
    and "\<And>k es e. (k, es) \<in> set (os_groups st) \<Longrightarrow> e \<in> set es \<Longrightarrow> group_key e = k"
    using inv unfolding groups_inv_def by blast+
  from filter_groups [where k = k, OF ss this] have "grp = [] \<or> grp \<in> set ss" unfolding grp' .
  moreover have "\<exists>g. order_group (cat_all c) anc g = Inr s" if "s \<in> set ss" for s
    using ss that by (auto simp: list_all2_conv_all_nth in_set_conv_nth)
  ultimately consider "grp = []" | g where "order_group (cat_all c) anc g = Inr grp" by blast
  then show ?thesis
  proof cases
    case 2
    from order_group_descending [OF anc 2] show ?thesis by (simp add: list_all_iff)
  qed simp
qed

text \<open>
  C12: Within one branch identity at one Git revision, completions are published descendants first:
  the first one reaches the targets of all the others, and no completion is followed by one whose
  target descends from its own. So a worker that binds the first completion binds the maximal one.
\<close>

theorem order_publications_descendants_first:
  assumes anc: "publicationAncestry repo snaps roots = Inr anc"
    and out: "order_publications c repo selected anc = Inr out"
    and grp: "grp = filter (\<lambda>e. he_Kind e = ''publish'' \<and> group_key e = k) out"
  shows "sorted_wrt (\<lambda>a b. he_Target a \<noteq> he_Target b \<longrightarrow>
            (he_Target b, he_Target a) \<notin> (snapshot_edges snaps)\<^sup>+) grp \<and>
         list_all (\<lambda>e. (he_Target (hd grp), he_Target e) \<in> (snapshot_edges snaps)\<^sup>*) grp"
  by (rule publication_groups_descending [OF assms])

text \<open>Two completions of one branch at one revision, the second with the descendant target.\<close>

definition sample_publish :: "char \<Rightarrow> char \<Rightarrow> HistoryEvent" where
  "sample_publish i t =
     sample_birth\<lparr>he_ID := replicate 32 i, he_Kind := ''publish'', he_Source := sample_hash t,
       he_Target := sample_hash t, he_GitAfter := replicate 40 (CHR ''1'')\<rparr>"

definition sample_snaps :: "Snapshot list" where
  "sample_snaps =
     [(sample_snapshot (sample_hash (CHR ''b'')) None)\<lparr>sn_RepoID := he_RepoID sample_birth\<rparr>,
      (sample_snapshot (sample_hash (CHR ''c'')) (Some [sample_hash (CHR ''b'')]))\<lparr>sn_RepoID := he_RepoID sample_birth\<rparr>]"

definition sample_anc :: "(string \<times> string list) list" where
  "sample_anc = [(sample_hash (CHR ''b''), [sample_hash (CHR ''b'')]),
                 (sample_hash (CHR ''c''), [sample_hash (CHR ''c''), sample_hash (CHR ''b'')])]"

definition sample_catalog :: publicationCatalog where
  "sample_catalog =
     \<lparr>cat_all = [sample_publish (CHR ''5'') (CHR ''b''), sample_publish (CHR ''6'') (CHR ''c'')],
      cat_pending = [sample_publish (CHR ''5'') (CHR ''b''), sample_publish (CHR ''6'') (CHR ''c'')],
      cat_accepted = []\<rparr>"

lemma sample_catalog_index:
  "indexPublicationHistory (he_RepoID sample_birth)
     [sample_publish (CHR ''5'') (CHR ''b''), sample_publish (CHR ''6'') (CHR ''c'')] [] = Inr sample_catalog"
  by code_simp

lemma sample_anc_eval:
  "publicationAncestry (he_RepoID sample_birth) sample_snaps [sample_hash (CHR ''b''), sample_hash (CHR ''c'')] = Inr sample_anc"
  by code_simp

lemma sample_catalog_order:
  "order_publications sample_catalog (he_RepoID sample_birth) None sample_anc =
     Inr [sample_publish (CHR ''6'') (CHR ''c''), sample_publish (CHR ''5'') (CHR ''b'')]"
  by code_simp

theorem order_publications_correct_witness:
  "mset [sample_publish (CHR ''6'') (CHR ''c''), sample_publish (CHR ''5'') (CHR ''b'')] =
     mset (filter (\<lambda>e. is_selected None (he_BranchID e)) (cat_pending sample_catalog))"
  using order_publications_correct [OF sample_catalog_index sample_catalog_order] by blast

theorem order_publications_descendants_first_witness:
  "(sample_hash (CHR ''b''), sample_hash (CHR ''c'')) \<notin> (snapshot_edges sample_snaps)\<^sup>+"
proof -
  let ?out = "[sample_publish (CHR ''6'') (CHR ''c''), sample_publish (CHR ''5'') (CHR ''b'')]"
  let ?k = "group_key (sample_publish (CHR ''5'') (CHR ''b''))"
  have "?out = filter (\<lambda>e. he_Kind e = ''publish'' \<and> group_key e = ?k) ?out" by code_simp
  from order_publications_descendants_first [OF sample_anc_eval sample_catalog_order this]
  show ?thesis by (simp add: sample_publish_def sample_hash_def)
qed

end
