(* ===== verification/Projection.thy ===== *)
theory Projection
  imports Publication
begin

text \<open>
  The projection restricted to selected branches (\<open>cli/internal/domain/publication_projection.go\<close>)
  and the enumeration of local identities for a history-only drain (\<open>publication_history.go\<close>).

  The first collects, with a work queue, the binding events that can influence the selected names
  and identities, and projects only those. The theorems show that the collected component is
  exactly the set of events connected to the selection, so an unrelated dispute elsewhere in the
  repository cannot block a publication and a related one is never missed.
\<close>

section \<open>The projection of the selected branches\<close>

record PublicationBranch =
  pb_Branch :: string
  pb_BranchID :: string

fun binding_index :: "HistoryEvent list \<Rightarrow> HistoryEvent list \<Rightarrow> HistoryEvent list" where
  "binding_index byID [] = byID"
| "binding_index byID (e # es) =
     (if \<not> IsBranchBindingEvent e \<or> lookup_event (he_ID e) byID \<noteq> None then binding_index byID es
      else binding_index (byID @ [e]) es)"

definition has_name :: "string \<Rightarrow> HistoryEvent \<Rightarrow> bool" where
  "has_name name e \<longleftrightarrow>
     he_Branch e = name \<or>
     (he_PreviousBranch e \<noteq> [] \<and> he_PreviousBranch e \<noteq> he_Branch e \<and> he_PreviousBranch e = name)"

definition add_identity ::
  "HistoryEvent list \<Rightarrow> string \<Rightarrow> string list \<Rightarrow> string list \<Rightarrow> string list \<times> string list" where
  "add_identity byID i identities queue =
     (if i \<noteq> [] \<and> i \<notin> set identities
      then (i # identities, queue @ map he_ID (filter (\<lambda>e. he_BranchID e = i) byID))
      else (identities, queue))"

definition add_name ::
  "HistoryEvent list \<Rightarrow> string \<Rightarrow> string list \<Rightarrow> string list \<Rightarrow> string list \<times> string list" where
  "add_name byID name names queue =
     (if name \<noteq> [] \<and> name \<notin> set names
      then (name # names, queue @ map he_ID (filter (has_name name) byID))
      else (names, queue))"

definition unseen :: "HistoryEvent list \<Rightarrow> string list \<Rightarrow> nat" where
  "unseen byID seen = card (he_ID ` set byID - set seen)"

lemma unseen_mono: "unseen byID (i # seen) \<le> unseen byID seen"
  unfolding unseen_def by (intro card_mono) auto

lemma unseen_less:
  assumes "lookup_event i byID = Some e" "i \<notin> set seen"
  shows "unseen byID (i # seen) < unseen byID seen"
proof -
  have "i \<in> he_ID ` set byID" using lookup_event_Some [OF assms(1)] by auto
  then show ?thesis unfolding unseen_def using assms(2) by (intro psubset_card_mono) auto
qed

text \<open>The work queue: the argument \<open>queue\<close> is the part the index \<open>i\<close> has not passed yet.\<close>

function component_loop ::
  "HistoryEvent list \<Rightarrow> string list \<Rightarrow> string list \<Rightarrow> string list \<Rightarrow> string list
   \<Rightarrow> HistoryEvent list \<Rightarrow> HistoryEvent list" where
  "component_loop byID identities names seen [] component = component"
| "component_loop byID identities names seen (i # queue) component =
     (if i \<in> set seen then component_loop byID identities names seen queue component
      else case lookup_event i byID of
             None \<Rightarrow> component_loop byID identities names (i # seen) queue component
           | Some e \<Rightarrow>
               (case add_identity byID (he_BranchID e) identities queue of (identities1, queue1) \<Rightarrow>
                case add_name byID (he_Branch e) names queue1 of (names1, queue2) \<Rightarrow>
                case add_name byID (he_PreviousBranch e) names1 queue2 of (names2, queue3) \<Rightarrow>
                  component_loop byID identities1 names2 (i # seen)
                    (queue3 @ HistoryDependencies e) (component @ [e])))"
  by pat_completeness auto

termination
proof (relation "measures [\<lambda>(byID, _, _, seen, _, _). unseen byID seen, \<lambda>(_, _, _, _, queue, _). length queue]")
  fix byID identities names seen component and i :: string and queue
  show "((byID, identities, names, i # seen, queue, component), byID, identities, names, seen, i # queue, component)
      \<in> measures [\<lambda>(byID, _, _, seen, _, _). unseen byID seen, \<lambda>(_, _, _, _, queue, _). length queue]"
    using unseen_mono [of byID i seen] by auto
qed (auto simp: unseen_less)

fun add_selected ::
  "HistoryEvent list \<Rightarrow> PublicationBranch list \<Rightarrow> string list \<Rightarrow> string list \<Rightarrow> string list
   \<Rightarrow> string list \<times> string list \<times> string list" where
  "add_selected byID [] identities names queue = (identities, names, queue)"
| "add_selected byID (b # bs) identities names queue =
     (case add_identity byID (pb_BranchID b) identities queue of (identities1, queue1) \<Rightarrow>
      case add_name byID (pb_Branch b) names queue1 of (names1, queue2) \<Rightarrow>
        add_selected byID bs identities1 names1 queue2)"

definition publication_component ::
  "HistoryEvent list \<Rightarrow> PublicationBranch list \<Rightarrow> HistoryEvent list" where
  "publication_component events selected =
     (let byID = binding_index [] events in
      case add_selected byID selected [] [] [] of (identities, names, queue) \<Rightarrow>
        component_loop byID identities names [] queue [])"

definition projectPublicationBranches ::
  "HistoryEvent list \<Rightarrow> PublicationBranch list \<Rightarrow> ContextBranchProjection result" where
  "projectPublicationBranches events selected =
     ProjectContextBranches (publication_component events selected)"

section \<open>Local identities of a history-only drain\<close>

definition sync_conflict :: "'a result \<Rightarrow> 'a result" where
  "sync_conflict r = (case r of Inl _ \<Rightarrow> Inl ErrSyncConflict | Inr x \<Rightarrow> Inr x)"

definition history_branch_name ::
  "string \<Rightarrow> ContextBranchProjection \<Rightarrow> HistoryEvent \<Rightarrow> string option result" where
  "history_branch_name repo projection e =
     (case ByID projection (he_BranchID e) of
        Some known \<Rightarrow> Inr (Some (cb_Name known))
      | None \<Rightarrow>
          if he_Branch e \<noteq> [] \<and> he_BranchID e = LegacyContextBranchID repo (he_Branch e)
            then Inr (Some (he_Branch e))
          else if he_Kind e = ''position'' \<or> he_Kind e = ''attach'' \<or> he_Kind e = ''pr-merge'' then Inr None
          else Inl ErrSyncConflict)"

fun history_branches ::
  "string \<Rightarrow> ContextBranchProjection \<Rightarrow> HistoryEvent list \<Rightarrow> (string \<times> PublicationBranch) list
   \<Rightarrow> (string \<times> PublicationBranch) list result" where
  "history_branches repo projection [] branches = Inr branches"
| "history_branches repo projection (e # es) branches =
     bind_r (history_branch_name repo projection e) (\<lambda>found.
       case found of
         None \<Rightarrow> history_branches repo projection es branches
       | Some name \<Rightarrow>
           check_then (ValidateRef (empty_ref\<lparr>ref_Kind := ''branch'', ref_Name := name,
                                     ref_BranchID := he_BranchID e, ref_Target := repo\<rparr>))
             (let b = \<lparr>pb_Branch = name, pb_BranchID = he_BranchID e\<rparr> in
              case map_of branches (he_BranchID e) of
                Some old \<Rightarrow> if old \<noteq> b then Inl ErrSyncConflict
                            else history_branches repo projection es branches
              | None \<Rightarrow> history_branches repo projection es (branches @ [(he_BranchID e, b)])))"

definition PublicationHistoryBranches ::
  "string \<Rightarrow> HistoryEvent list \<Rightarrow> PublicationBranch list result" where
  "PublicationHistoryBranches repo events =
     check_then (ValidateContentHash repo)
       (bind_r (indexPublicationHistory repo events []) (\<lambda>c.
        bind_r (sync_conflict (ProjectContextBranches (cat_all c))) (\<lambda>projection.
        bind_r (history_branches repo projection (cat_all c) []) (\<lambda>branches.
          Inr (sort_key pb_BranchID (map snd branches))))))"

section \<open>The component is exact\<close>

definition linked :: "HistoryEvent list \<Rightarrow> (HistoryEvent \<times> HistoryEvent) set" where
  "linked byID =
     {(e, f). f \<in> set byID \<and>
        (he_BranchID e \<noteq> [] \<and> he_BranchID f = he_BranchID e \<or>
         he_Branch e \<noteq> [] \<and> has_name (he_Branch e) f \<or>
         he_PreviousBranch e \<noteq> [] \<and> has_name (he_PreviousBranch e) f \<or>
         he_ID f \<in> set (HistoryDependencies e))}"

definition concerns :: "PublicationBranch list \<Rightarrow> HistoryEvent \<Rightarrow> bool" where
  "concerns selected f \<longleftrightarrow>
     (\<exists>b \<in> set selected. pb_BranchID b \<noteq> [] \<and> he_BranchID f = pb_BranchID b \<or>
                          pb_Branch b \<noteq> [] \<and> has_name (pb_Branch b) f)"

text \<open>The identities and names already expanded: their events are seen or queued.\<close>

definition cover :: "HistoryEvent list \<Rightarrow> string list \<Rightarrow> string list \<Rightarrow> string set \<Rightarrow> bool" where
  "cover byID identities names known \<longleftrightarrow>
     (\<forall>f \<in> set byID. he_BranchID f \<in> set identities \<or> (\<exists>n \<in> set names. has_name n f) \<longrightarrow> he_ID f \<in> known)"

lemma coverD:
  "cover byID is ns K \<Longrightarrow> f \<in> set byID \<Longrightarrow> he_BranchID f \<in> set is \<or> (\<exists>n \<in> set ns. has_name n f) \<Longrightarrow> he_ID f \<in> K"
  by (auto simp: cover_def)

lemma cover_mono: "cover byID is ns K \<Longrightarrow> K \<subseteq> K' \<Longrightarrow> cover byID is ns K'"
  by (auto simp: cover_def)

lemma add_identity_spec:
  assumes "add_identity byID i identities queue = (identities', queue')"
  shows "set identities' = set identities \<union> ({i} - {[]})" "set queue \<subseteq> set queue'"
    "cover byID identities names (K \<union> set queue) \<Longrightarrow> cover byID identities' names (K \<union> set queue')"
    "x \<in> set queue' \<Longrightarrow> x \<in> set queue \<or> (\<exists>f \<in> set byID. x = he_ID f \<and> i \<noteq> [] \<and> he_BranchID f = i)"
  using assms by (auto simp: add_identity_def cover_def split: if_splits)

lemma add_name_spec:
  assumes "add_name byID n names queue = (names', queue')"
  shows "set names' = set names \<union> ({n} - {[]})" "set queue \<subseteq> set queue'"
    "cover byID identities names (K \<union> set queue) \<Longrightarrow> cover byID identities names' (K \<union> set queue')"
    "x \<in> set queue' \<Longrightarrow> x \<in> set queue \<or> (\<exists>f \<in> set byID. x = he_ID f \<and> n \<noteq> [] \<and> has_name n f)"
  using assms by (fastforce simp: add_name_def cover_def split: if_splits)+

definition component_inv ::
  "HistoryEvent list \<Rightarrow> HistoryEvent set \<Rightarrow> string list \<Rightarrow> string list \<Rightarrow> string list \<Rightarrow> string list
   \<Rightarrow> HistoryEvent list \<Rightarrow> bool" where
  "component_inv byID R identities names seen queue component \<longleftrightarrow>
     set component = {e \<in> set byID. he_ID e \<in> set seen} \<and>
     cover byID identities names (set seen \<union> set queue) \<and>
     (\<forall>e \<in> set component. {he_BranchID e} - {[]} \<subseteq> set identities \<and>
        {he_Branch e, he_PreviousBranch e} - {[]} \<subseteq> set names \<and>
        set (HistoryDependencies e) \<subseteq> set seen \<union> set queue) \<and>
     (\<forall>f \<in> set byID. he_ID f \<in> set seen \<union> set queue \<longrightarrow> f \<in> R)"

lemma component_inv_skip:
  assumes "component_inv byID R is ns seen (i # queue) cmp" "i \<in> set seen"
  shows "component_inv byID R is ns seen queue cmp"
proof -
  have "set seen \<union> set (i # queue) = set seen \<union> set queue" using assms(2) by auto
  with assms(1) show ?thesis by (simp add: component_inv_def)
qed

lemma component_inv_unknown:
  assumes "component_inv byID R is ns seen (i # queue) cmp" "lookup_event i byID = None"
  shows "component_inv byID R is ns (i # seen) queue cmp"
proof -
  have "i \<notin> he_ID ` set byID" using assms(2) by (simp add: lookup_event_None)
  then have eq1: "{e \<in> set byID. he_ID e \<in> set (i # seen)} = {e \<in> set byID. he_ID e \<in> set seen}" by auto
  have eq2: "set (i # seen) \<union> set queue = set seen \<union> set (i # queue)" by simp
  show ?thesis using assms(1) unfolding component_inv_def eq1 eq2 .
qed

lemma component_inv_expand:
  assumes inv: "component_inv byID R is ns seen (i # queue) cmp" and d: "distinct_ids byID"
    and R: "linked byID `` R \<subseteq> R"
    and e: "lookup_event i byID = Some e"
    and add: "add_identity byID (he_BranchID e) is queue = (is1, q1)"
      "add_name byID (he_Branch e) ns q1 = (ns1, q2)" "add_name byID (he_PreviousBranch e) ns1 q2 = (ns2, q3)"
  shows "component_inv byID R is1 ns2 (i # seen) (q3 @ HistoryDependencies e) (cmp @ [e])"
proof -
  note a = add_identity_spec [OF add(1)] and b = add_name_spec [OF add(2)] and c = add_name_spec [OF add(3)]
  have e': "e \<in> set byID" "he_ID e = i" using lookup_event_Some [OF e] by auto
  have uniq: "f = e" if "f \<in> set byID" "he_ID f = i" for f
    using that e' distinct_ids_inj [OF d] by (auto simp: inj_on_def)
  let ?K = "set (i # seen) \<union> set (q3 @ HistoryDependencies e)"
  have K: "set seen \<union> set (i # queue) \<subseteq> ?K" using a(2) b(2) c(2) by auto
  have i1: "set cmp = {x \<in> set byID. he_ID x \<in> set seen}"
    and i2: "cover byID is ns (set seen \<union> set (i # queue))"
    and i3: "\<And>x. x \<in> set cmp \<Longrightarrow> {he_BranchID x} - {[]} \<subseteq> set is \<and>
        {he_Branch x, he_PreviousBranch x} - {[]} \<subseteq> set ns \<and> set (HistoryDependencies x) \<subseteq> set seen \<union> set (i # queue)"
    and i4: "\<And>f. f \<in> set byID \<Longrightarrow> he_ID f \<in> set seen \<union> set (i # queue) \<Longrightarrow> f \<in> R"
    using inv unfolding component_inv_def by blast+
  have "e \<in> R" using i4 [OF e'(1)] e'(2) by simp
  have cmp: "set (cmp @ [e]) = {x \<in> set byID. he_ID x \<in> set (i # seen)}"
    using e' by (auto simp: i1 dest: uniq)
  have "cover byID is ns (set (i # seen) \<union> set queue)" using i2 by (rule cover_mono) auto
  then have "cover byID is1 ns2 (set (i # seen) \<union> set q3)" by (intro c(3) b(3) a(3))
  then have cov: "cover byID is1 ns2 ?K" by (rule cover_mono) auto
  have new: "f \<in> R" if f: "f \<in> set byID" "he_ID f \<in> ?K" for f
  proof (cases "he_ID f \<in> set seen \<union> set (i # queue)")
    case True
    with f(1) show ?thesis by (rule i4)
  next
    case False
    with f(2) have "he_ID f \<in> set q3 \<or> he_ID f \<in> set (HistoryDependencies e)" by auto
    then have "\<exists>g \<in> set byID. he_ID f = he_ID g \<and> (e, g) \<in> linked byID"
    proof
      assume "he_ID f \<in> set q3"
      then consider "he_ID f \<in> set queue" | g where "g \<in> set byID" "he_ID f = he_ID g" "(e, g) \<in> linked byID"
        using a(4) b(4) c(4) unfolding linked_def by blast
      then show ?thesis using False by cases auto
    qed (use f(1) in \<open>auto simp: linked_def\<close>)
    then obtain g where "g \<in> set byID" "he_ID f = he_ID g" "g \<in> R" using R \<open>e \<in> R\<close> by blast
    then show ?thesis using f(1) inj_onD [OF distinct_ids_inj [OF d]] by blast
  qed
  have "{he_BranchID x} - {[]} \<subseteq> set is1 \<and> {he_Branch x, he_PreviousBranch x} - {[]} \<subseteq> set ns2 \<and>
        set (HistoryDependencies x) \<subseteq> ?K" if x: "x \<in> set (cmp @ [e])" for x
  proof (cases "x = e")
    case True
    then show ?thesis using a(1) b(1) c(1) by auto
  next
    case False
    with x have "x \<in> set cmp" by simp
    note x = i3 [OF this]
    have "set (HistoryDependencies x) \<subseteq> ?K" using x K by (meson order_trans)
    with x show ?thesis using a(1) b(1) c(1) by auto
  qed
  then have each: "\<forall>x \<in> set (cmp @ [e]). {he_BranchID x} - {[]} \<subseteq> set is1 \<and>
      {he_Branch x, he_PreviousBranch x} - {[]} \<subseteq> set ns2 \<and> set (HistoryDependencies x) \<subseteq> ?K" by (rule ballI)
  show ?thesis unfolding component_inv_def using cmp cov each new by (intro conjI) simp_all
qed

lemma component_loop_inv:
  assumes "component_inv byID R is ns seen queue cmp" "distinct_ids byID"
    and "linked byID `` R \<subseteq> R"
  shows "\<exists>is' ns' seen'. set is \<subseteq> set is' \<and> set ns \<subseteq> set ns' \<and>
           component_inv byID R is' ns' seen' [] (component_loop byID is ns seen queue cmp)"
  using assms
proof (induction byID "is" ns seen queue cmp rule: component_loop.induct)
  case (2 byID "is" ns seen i queue cmp)
  show ?case
  proof (cases "i \<in> set seen")
    case True
    from 2(1) [OF True component_inv_skip [OF "2.prems"(1) True] "2.prems"(2,3)] True show ?thesis by simp
  next
    case False
    show ?thesis
    proof (cases "lookup_event i byID")
      case None
      from 2(2) [OF False None component_inv_unknown [OF "2.prems"(1) None] "2.prems"(2,3)] False None
      show ?thesis by simp
    next
      case (Some e)
      obtain is1 q1 where a: "add_identity byID (he_BranchID e) is queue = (is1, q1)" by force
      obtain ns1 q2 where b: "add_name byID (he_Branch e) ns q1 = (ns1, q2)" by force
      obtain ns2 q3 where c: "add_name byID (he_PreviousBranch e) ns1 q2 = (ns2, q3)" by force
      note inv = component_inv_expand [OF "2.prems"(1-3) Some a b c]
      have "set is \<subseteq> set is1" "set ns \<subseteq> set ns2"
        using add_identity_spec(1) [OF a] add_name_spec(1) [OF b] add_name_spec(1) [OF c] by auto
      moreover have "\<exists>is' ns' seen'. set is1 \<subseteq> set is' \<and> set ns2 \<subseteq> set ns' \<and>
           component_inv byID R is' ns' seen' [] (component_loop byID is1 ns2 (i # seen) (q3 @ HistoryDependencies e) (cmp @ [e]))"
        using 2(3) [OF False Some a [symmetric] b [symmetric] c [symmetric] inv "2.prems"(2,3)] .
      ultimately show ?thesis using False Some a b c by (simp) (meson subset_trans)
    qed
  qed
qed auto

lemma concerns_Cons:
  "concerns (b # bs) f \<longleftrightarrow> pb_BranchID b \<noteq> [] \<and> he_BranchID f = pb_BranchID b \<or>
     pb_Branch b \<noteq> [] \<and> has_name (pb_Branch b) f \<or> concerns bs f"
  by (auto simp: concerns_def)

lemma add_selected_spec:
  assumes "add_selected byID sel is ns queue = (is', ns', queue')" "cover byID is ns (set queue)"
  shows "set is' = set is \<union> (pb_BranchID ` set sel - {[]}) \<and> set ns' = set ns \<union> (pb_Branch ` set sel - {[]}) \<and>
    cover byID is' ns' (set queue') \<and>
    (\<forall>x \<in> set queue' - set queue. \<exists>f \<in> set byID. x = he_ID f \<and> concerns sel f)"
  using assms
proof (induction sel arbitrary: "is" ns queue)
  case (Cons b bs)
  obtain is1 q1 where a: "add_identity byID (pb_BranchID b) is queue = (is1, q1)" by force
  obtain ns1 q2 where n: "add_name byID (pb_Branch b) ns q1 = (ns1, q2)" by force
  have rest: "add_selected byID bs is1 ns1 q2 = (is', ns', queue')" using Cons.prems(1) a n by simp
  note as = add_identity_spec [OF a] and ns = add_name_spec [OF n]
  have "cover byID is1 ns1 (set q2)" using Cons.prems(2) as(3) [of ns "{}"] ns(3) [of is1 "{}"] by simp
  note IH = Cons.IH [OF rest this]
  have n0: "\<exists>f \<in> set byID. x = he_ID f \<and> concerns (b # bs) f" if x: "x \<in> set queue' - set queue" for x
  proof (cases "x \<in> set q2")
    case True
    show ?thesis
    proof (cases "x \<in> set q1")
      case True
      with as(4) [OF True] x show ?thesis unfolding concerns_Cons by blast
    next
      case q1: False
      with ns(4) [OF True] show ?thesis unfolding concerns_Cons by blast
    qed
  next
    case False
    with x IH obtain f where "f \<in> set byID" "x = he_ID f" "concerns bs f" by blast
    then show ?thesis unfolding concerns_Cons by blast
  qed
  have n1: "set is' = set is \<union> (pb_BranchID ` set (b # bs) - {[]})"
    and n2: "set ns' = set ns \<union> (pb_Branch ` set (b # bs) - {[]})" using IH as(1) ns(1) by auto
  show ?case
    by (intro conjI ballI) (rule n1, rule n2, rule IH [THEN conjunct2, THEN conjunct2, THEN conjunct1], rule n0)
qed simp

lemma binding_index_spec:
  assumes "distinct_ids byID"
  shows "distinct_ids (binding_index byID es)"
  using assms
  by (induction byID es rule: binding_index.induct) (auto simp: distinct_ids_def lookup_event_None)

lemma publication_component_inv:
  fixes events sel
  defines "byID \<equiv> binding_index [] events"
  defines "R \<equiv> (linked byID)\<^sup>* `` {f \<in> set byID. concerns sel f}"
  shows "\<exists>is ns seen. pb_BranchID ` set sel - {[]} \<subseteq> set is \<and> pb_Branch ` set sel - {[]} \<subseteq> set ns \<and>
           component_inv byID R is ns seen [] (publication_component events sel)"
proof -
  obtain is0 ns0 q0 where sel: "add_selected byID sel [] [] [] = (is0, ns0, q0)" by (metis prod.exhaust)
  note a = add_selected_spec [OF sel, unfolded cover_def, simplified]
  have d: "distinct_ids byID" unfolding byID_def by (rule binding_index_spec) (simp add: distinct_ids_def)
  have "cover byID is0 ns0 (set q0)"
    using add_selected_spec [OF sel] by (simp add: cover_def)
  moreover have "f \<in> R" if "f \<in> set byID" "he_ID f \<in> set q0" for f
  proof -
    from that(2) a obtain g where "g \<in> set byID" "he_ID f = he_ID g" "concerns sel g" by blast
    with that(1) inj_onD [OF distinct_ids_inj [OF d]] show ?thesis unfolding R_def by blast
  qed
  ultimately have "component_inv byID R is0 ns0 [] q0 []" by (simp add: component_inv_def)
  from component_loop_inv [OF this d]
  have "\<exists>is ns seen. set is0 \<subseteq> set is \<and> set ns0 \<subseteq> set ns \<and>
      component_inv byID R is ns seen [] (component_loop byID is0 ns0 [] q0 [])"
    unfolding R_def by (auto intro: rtrancl_into_rtrancl)
  moreover have "publication_component events sel = component_loop byID is0 ns0 [] q0 []"
    by (simp add: publication_component_def flip: byID_def) (simp add: sel)
  ultimately show ?thesis using a by (metis (no_types, lifting) subset_trans)
qed

text \<open>
  C13: The events examined for a selected publication are exactly the connected component of the
  selection: the binding events that name or belong to a selected branch, and everything reachable
  from them by a shared identity, a shared current or former name, or an explicit dependency. The
  work-queue loop that collects them ends on every input.
\<close>

theorem publication_component_exact:
  "set (publication_component events sel) =
     (linked (binding_index [] events))\<^sup>* `` {f \<in> set (binding_index [] events). concerns sel f}"
proof -
  let ?b = "binding_index [] events" and ?C = "set (publication_component events sel)"
  let ?R = "(linked ?b)\<^sup>* `` {f \<in> set ?b. concerns sel f}"
  from publication_component_inv [of sel events] obtain ids ns seen where
    sel: "pb_BranchID ` set sel - {[]} \<subseteq> set ids" "pb_Branch ` set sel - {[]} \<subseteq> set ns"
    and inv: "component_inv ?b ?R ids ns seen [] (publication_component events sel)" by blast
  from inv have i1: "?C = {e \<in> set ?b. he_ID e \<in> set seen}" and i2: "cover ?b ids ns (set seen)"
    and i3: "\<And>e. e \<in> ?C \<Longrightarrow> {he_BranchID e} - {[]} \<subseteq> set ids \<and>
        {he_Branch e, he_PreviousBranch e} - {[]} \<subseteq> set ns \<and> set (HistoryDependencies e) \<subseteq> set seen"
    and i4: "\<And>f. f \<in> set ?b \<Longrightarrow> he_ID f \<in> set seen \<Longrightarrow> f \<in> ?R"
    unfolding component_inv_def by simp_all
  have seed: "f \<in> ?C" if "f \<in> set ?b" "concerns sel f" for f
  proof -
    from that(2) obtain b where "b \<in> set sel" "pb_BranchID b \<noteq> [] \<and> he_BranchID f = pb_BranchID b \<or>
        pb_Branch b \<noteq> [] \<and> has_name (pb_Branch b) f" by (auto simp: concerns_def)
    with sel have "he_BranchID f \<in> set ids \<or> (\<exists>n \<in> set ns. has_name n f)" by auto
    from coverD [OF i2 that(1) this] that(1) show ?thesis by (simp add: i1)
  qed
  have step: "f \<in> ?C" if e: "e \<in> ?C" and l: "(e, f) \<in> linked ?b" for e f
  proof -
    from l have f: "f \<in> set ?b" by (simp add: linked_def)
    from l i3 [OF e] have "he_ID f \<in> set seen \<or> he_BranchID f \<in> set ids \<or> (\<exists>n \<in> set ns. has_name n f)"
      by (auto simp: linked_def)
    with coverD [OF i2 f] have "he_ID f \<in> set seen" by blast
    with f i1 show ?thesis by simp
  qed
  have "f \<in> ?C" if "(e, f) \<in> (linked ?b)\<^sup>*" "e \<in> ?C" for e f
    using that by (induction rule: rtrancl_induct) (auto intro: step)
  with seed have "?R \<subseteq> ?C" by blast
  moreover have "?C \<subseteq> ?R" using i1 i4 by blast
  ultimately show ?thesis by blast
qed

end
