(* ===== verification/Planning.thy ===== *)
theory Planning
  imports Projection
begin

text \<open>
  Planning a selected publication (\<open>cli/internal/domain/publication_plan.go\<close>).

  The closure \<open>visit\<close> of \<open>PlanPublication\<close> decides which unaccepted events may be sent. It threads
  the maps \<open>send\<close> and \<open>edges\<close> (here \<open>publish_state\<close>; \<open>send\<close> in the order of insertion) also
  through failing calls, because a failed optional witness is rolled back by hand. The map
  \<open>visiting\<close> is an argument: the source removes the entry again on every exit. The recursion
  depth is bounded by the events under visit, so the fuel is one more than the number of known
  events. \<open>clonePublicationEvent\<close> copies an event so that the plan does not share memory with
  the catalogue; on values it is the identity.
\<close>

section \<open>Visiting events\<close>

record publish_state =
  ps_send :: "HistoryEvent list"
  ps_edges :: "string \<rightharpoonup> string list"

type_synonym visitor = "string \<Rightarrow> publish_state \<Rightarrow> publish_state \<times> check"

definition need :: "visitor \<Rightarrow> string \<Rightarrow> publish_state \<times> string list \<Rightarrow> (publish_state \<times> string list) \<times> check" where
  "need visit parent s =
     (if parent = [] then (s, None)
      else case visit parent (fst s) of
             (st, Some err) \<Rightarrow> ((st, snd s), Some err)
           | (st, None) \<Rightarrow> ((st, if parent \<in> set (snd s) then snd s else snd s @ [parent]), None))"

fun need_all ::
  "visitor \<Rightarrow> string list \<Rightarrow> publish_state \<times> string list \<Rightarrow> (publish_state \<times> string list) \<times> check" where
  "need_all visit [] s = (s, None)"
| "need_all visit (p # ps) s =
     (case need visit p s of
        (s', Some err) \<Rightarrow> (s', Some err)
      | (s', None) \<Rightarrow> need_all visit ps s')"

definition rollback :: "publish_state \<Rightarrow> publish_state \<Rightarrow> publish_state" where
  "rollback before st =
     st\<lparr>ps_send := filter (\<lambda>e. he_ID e \<in> he_ID ` set (ps_send before)) (ps_send st),
        ps_edges := (\<lambda>key. if key \<in> he_ID ` set (ps_send st) \<and> key \<notin> he_ID ` set (ps_send before)
                            then None else ps_edges st key)\<rparr>"

fun try_witnesses ::
  "visitor \<Rightarrow> string list \<Rightarrow> publish_state \<times> string list \<Rightarrow> check
   \<Rightarrow> (publish_state \<times> string list) \<times> bool \<times> check" where
  "try_witnesses visit [] s cause = (s, False, cause)"
| "try_witnesses visit (w # ws) s cause =
     (case need visit w s of
        (s', None) \<Rightarrow> (s', True, None)
      | (s', Some err) \<Rightarrow> try_witnesses visit ws (rollback (fst s) (fst s'), snd s') (Some err))"

definition is_observation :: "HistoryEvent \<Rightarrow> bool" where
  "is_observation e \<longleftrightarrow> he_Kind e = ''position'' \<or> he_Kind e = ''attach''"

definition witness_candidates :: "publicationCatalog \<Rightarrow> HistoryEvent \<Rightarrow> GitCreation \<Rightarrow> HistoryEvent list" where
  "witness_candidates c e origin =
     sort_key (\<lambda>w. (he_ID w \<notin> set (cat_accepted c), \<not> is_observation w, he_ID w))
       (filter (\<lambda>w. \<not> (he_Kind w = ''publish'' \<and> he_ID w \<notin> set (cat_accepted c)) \<and>
                    he_ID w \<noteq> he_ID e \<and> he_BranchID w = gc_OriginBranchID origin \<and>
                    (he_Branch w = gc_OriginBranch origin \<or>
                     (he_Kind w = ''rename'' \<and> he_PreviousBranch w = gc_OriginBranch origin)))
         (cat_all c))"

definition blocked :: "string \<Rightarrow> string \<Rightarrow> string \<Rightarrow> string \<Rightarrow> check" where
  "blocked eid did bid reason = Some (PublicationBlocked eid did bid reason)"

definition own_origin :: "HistoryEvent \<Rightarrow> bool" where
  "own_origin e \<longleftrightarrow>
     (case he_Creation e of
        None \<Rightarrow> False
      | Some o1 \<Rightarrow> gc_OriginBranchID o1 = he_BranchID e \<and> he_Kind e \<noteq> ''attach'')"

definition foreign_origin :: "HistoryEvent \<Rightarrow> GitCreation option" where
  "foreign_origin e =
     (case he_Creation e of
        None \<Rightarrow> None
      | Some o1 \<Rightarrow> if gc_OriginBranchID o1 \<noteq> [] \<and>
                      gc_OriginBranchID o1 \<noteq> LegacyContextBranchID (he_RepoID e) (gc_OriginBranch o1)
                   then Some o1 else None)"

definition visit_origin ::
  "visitor \<Rightarrow> publicationCatalog \<Rightarrow> HistoryEvent \<Rightarrow> publish_state \<times> string list
   \<Rightarrow> (publish_state \<times> string list) \<times> check" where
  "visit_origin visit c e s =
     (case foreign_origin e of
        None \<Rightarrow> (s, None)
      | Some origin \<Rightarrow>
          (case try_witnesses visit (map he_ID (witness_candidates c e origin)) s None of
             (s', True, _) \<Rightarrow> (s', None)
           | (s', False, Some cause) \<Rightarrow> (s', Some cause)
           | (s', False, None) \<Rightarrow>
               (s', blocked (he_ID e) [] (gc_OriginBranchID origin) ''creation origin has no usable witness'')))"

text \<open>The events a completion needs: every exact proof, and the attachments of its alias.\<close>

definition publication_needs :: "publicationCatalog \<Rightarrow> HistoryEvent \<Rightarrow> string list" where
  "publication_needs c e =
     concat (map (\<lambda>pf. he_ID pf #
         (if he_LocalBranch e \<noteq> [] \<and> he_LocalBranch e \<noteq> he_Branch e \<and> he_WorktreeID e \<noteq> []
          then map he_ID (filter (publicationAliasAttachment e pf) (cat_all c)) else []))
       (filter (publicationProof e) (cat_all c)))"

definition visit_publish ::
  "visitor \<Rightarrow> publicationCatalog \<Rightarrow> HistoryEvent \<Rightarrow> publish_state \<times> string list
   \<Rightarrow> (publish_state \<times> string list) \<times> check" where
  "visit_publish visit c e s =
     (if he_Kind e \<noteq> ''publish'' then (s, None)
      else if publication_needs c e = []
        then (s, blocked (he_ID e) [] [] ''publication has no exact ordinary proof'')
      else need_all visit (publication_needs c e) s)"

definition visit_event :: "visitor \<Rightarrow> publicationCatalog \<Rightarrow> HistoryEvent \<Rightarrow> publish_state \<Rightarrow> publish_state \<times> check" where
  "visit_event visit c e st =
     (case need_all visit (HistoryDependencies e) (st, []) of
        (s1, Some err) \<Rightarrow> (fst s1, Some err)
      | (s1, None) \<Rightarrow>
          if own_origin e
          then (fst s1, blocked (he_ID e) [] [] ''branch cannot be its own creation origin'')
          else (case visit_origin visit c e s1 of
                  (s2, Some err) \<Rightarrow> (fst s2, Some err)
                | (s2, None) \<Rightarrow>
                    (case visit_publish visit c e s2 of
                       (s3, Some err) \<Rightarrow> (fst s3, Some err)
                     | (s3, None) \<Rightarrow>
                         (\<lparr>ps_send = put_event e (ps_send (fst s3)),
                           ps_edges = (ps_edges (fst s3))(he_ID e \<mapsto> snd s3)\<rparr>, None))))"

definition exceeds_authority :: "string list \<Rightarrow> HistoryEvent \<Rightarrow> bool" where
  "exceeds_authority allowed e \<longleftrightarrow>
     he_Kind e = ''pr-merge'' \<or> (he_BranchID e \<notin> set allowed \<and> he_Kind e \<noteq> ''position'' \<and> he_Kind e \<noteq> ''attach'')"

fun visit :: "nat \<Rightarrow> publicationCatalog \<Rightarrow> string list \<Rightarrow> string list \<Rightarrow> visitor" where
  "visit 0 c allowed visiting i st = (st, Some OutOfFuel)"
| "visit (Suc n) c allowed visiting i st =
     (if i \<in> set (cat_accepted c) then (st, None)
      else if lookup_event i (ps_send st) \<noteq> None then (st, None)
      else case lookup_event i (cat_all c) of
             None \<Rightarrow> (st, blocked [] i [] ''missing history dependency'')
           | Some e \<Rightarrow>
               if i \<in> set visiting then (st, blocked i [] [] ''cyclic publication dependency'')
               else if exceeds_authority allowed e
                 then (st, blocked [] i (he_BranchID e) ''unaccepted event would exceed publication authority'')
               else visit_event (visit n c allowed (i # visiting)) c e st)"

fun visit_all :: "visitor \<Rightarrow> HistoryEvent list \<Rightarrow> publish_state \<Rightarrow> publish_state result" where
  "visit_all v [] st = Inr st"
| "visit_all v (e # es) st =
     (case v (he_ID e) st of
        (_, Some err) \<Rightarrow> Inl err
      | (st', None) \<Rightarrow> visit_all v es st')"

section \<open>The final order\<close>

definition last_index :: "HistoryEvent list \<Rightarrow> nat \<Rightarrow> bool" where
  "last_index events j \<longleftrightarrow> he_ID (events ! j) \<notin> he_ID ` set (drop (Suc j) events)"

definition publication_children :: "HistoryEvent list \<Rightarrow> (string \<Rightarrow> string list) \<Rightarrow> nat \<Rightarrow> nat list" where
  "publication_children events edges j =
     (if j < length events \<and> last_index events j
      then filter (\<lambda>i. he_ID (events ! j) \<in> set (edges (he_ID (events ! i)))) [0..<length events]
      else [])"

definition orderPublicationDependencies ::
  "HistoryEvent list \<Rightarrow> (string \<Rightarrow> string list) \<Rightarrow> nat \<Rightarrow> HistoryEvent list result" where
  "orderPublicationDependencies events edges ordinary =
     (case kahn (\<lambda>i out. ordinary \<le> i \<and> length out < ordinary) (\<lambda>i. i) [0..<length events]
             (publication_children events edges) of
        Stopped \<Rightarrow> Inl ErrSyncConflict
      | Done out \<Rightarrow> if length out \<noteq> length events then Inl ErrSyncConflict else Inr (map ((!) events) out)
      | Unfinished \<Rightarrow> Inl OutOfFuel)"

fun chain_publications :: "string \<Rightarrow> HistoryEvent list \<Rightarrow> (string \<Rightarrow> string list) \<Rightarrow> string \<Rightarrow> string list" where
  "chain_publications prior [] edges = edges"
| "chain_publications prior (e # es) edges =
     chain_publications (he_ID e) es
       (if prior = [] then edges else edges(he_ID e := prior # edges (he_ID e)))"

section \<open>The plan\<close>

record PublicationPlanInput =
  pi_RepoID :: string
  pi_ContextProtocol :: int
  pi_Ref :: string
  pi_Branches :: "PublicationBranch list"
  pi_HistoryOnly :: bool
  pi_ExpectedTargets :: "(string \<times> string) list"
  pi_Refs :: "Ref list"
  pi_History :: "HistoryEvent list"
  pi_Accepted :: "HistoryEvent list"
  pi_Snapshots :: "Snapshot list"

record PublicationPlan =
  pp_Authority :: "PublicationBranch list"
  pp_HistoryToSend :: "HistoryEvent list"
  pp_RefsToPush :: "Ref list"
  pp_SnapshotRoots :: "string list"

definition local_identity :: "string \<Rightarrow> HistoryEvent list \<Rightarrow> Ref \<Rightarrow> string result" where
  "local_identity repo events ref =
     (if ref_BranchID ref \<noteq> [] then Inr (ref_BranchID ref)
      else bind_r (sync_conflict (projectPublicationBranches events [\<lparr>pb_Branch = ref_Name ref, pb_BranchID = []\<rparr>]))
             (\<lambda>local. Inr (Identity local repo (ref_Name ref))))"

fun plan_refs :: "string \<Rightarrow> Ref list \<Rightarrow> (string \<times> Ref) list \<Rightarrow> (string \<times> Ref) list result" where
  "plan_refs repo [] refs = Inr refs"
| "plan_refs repo (r # rs) refs =
     (if ref_Kind r \<noteq> ''branch'' then plan_refs repo rs refs
      else if ref_RepoID r \<noteq> repo \<or> ValidateRef r \<noteq> None then Inl ErrHashMismatch
      else case map_of refs (ref_Name r) of
             Some old \<Rightarrow> if old \<noteq> r then Inl ErrHashMismatch else plan_refs repo rs refs
           | None \<Rightarrow> plan_refs repo rs (refs @ [(ref_Name r, r)]))"

definition plan_branches ::
  "PublicationPlanInput \<Rightarrow> HistoryEvent list \<Rightarrow> (string \<times> Ref) list \<Rightarrow> PublicationBranch list result" where
  "plan_branches inp events refs =
     bind_r
       (if pi_Ref inp = [] then Inr (pi_Branches inp)
        else check_then (ValidateBranchName (pi_Ref inp))
          (case map_of refs (pi_Ref inp) of
             None \<Rightarrow> Inl ErrNotFound
           | Some ref \<Rightarrow> bind_r (local_identity (pi_RepoID inp) events ref)
               (\<lambda>i. Inr [\<lparr>pb_Branch = pi_Ref inp, pb_BranchID = i\<rparr>])))
       (\<lambda>branches. if branches = [] then Inl ErrInvalidRef else Inr branches)"

definition map_default :: "(string \<times> string) list \<Rightarrow> string \<Rightarrow> string" where
  "map_default m k = (case map_of m k of None \<Rightarrow> [] | Some v \<Rightarrow> v)"

definition check_expected ::
  "PublicationPlanInput \<Rightarrow> (string \<times> Ref) list \<Rightarrow> PublicationBranch list \<Rightarrow> check" where
  "check_expected inp refs branches =
     (if pi_ExpectedTargets inp = [] then None
      else first_error
        (fail_if (pi_HistoryOnly inp \<or> length (pi_ExpectedTargets inp) \<noteq> length branches) ErrInvalidRef #
         map (\<lambda>b. let target = map_default (pi_ExpectedTargets inp) (pb_BranchID b) in
                  fail_if (ValidateContentHash target \<noteq> None \<or>
                           (case map_of refs (pb_Branch b) of None \<Rightarrow> [] | Some r \<Rightarrow> ref_Target r) \<noteq> target)
                    ErrSyncConflict) branches))"

text \<open>What one selected branch contributes: the ref to push, if any.\<close>

definition authorize ::
  "PublicationPlanInput \<Rightarrow> HistoryEvent list \<Rightarrow> (string \<times> Ref) list \<Rightarrow> ContextBranchProjection
   \<Rightarrow> PublicationBranch \<Rightarrow> Ref list result" where
  "authorize inp events refs projection b =
     (if (case ByID projection (pb_BranchID b) of
            Some known \<Rightarrow> cb_Name known \<noteq> pb_Branch b \<or> (\<not> pi_HistoryOnly inp \<and> cb_Archived known)
          | None \<Rightarrow> pb_BranchID b \<noteq> LegacyContextBranchID (pi_RepoID inp) (pb_Branch b))
      then Inl ErrSyncConflict
      else if pi_HistoryOnly inp then Inr []
      else case map_of refs (pb_Branch b) of
             None \<Rightarrow> Inl ErrNotFound
           | Some r \<Rightarrow> bind_r (local_identity (pi_RepoID inp) events r) (\<lambda>local.
               if Identity projection (pi_RepoID inp) (pb_Branch b) \<noteq> pb_BranchID b \<or> local \<noteq> pb_BranchID b
                 then Inl ErrSyncConflict
               else if ref_Symbolic r \<noteq> [] \<or> ref_Target r = [] \<or> ValidateContentHash (ref_Target r) \<noteq> None
                 then Inl ErrInvalidRef
               else Inr [r\<lparr>ref_BranchID := pb_BranchID b\<rparr>]))"

fun plan_authority ::
  "PublicationPlanInput \<Rightarrow> HistoryEvent list \<Rightarrow> (string \<times> Ref) list \<Rightarrow> ContextBranchProjection
   \<Rightarrow> PublicationBranch list \<Rightarrow> PublicationBranch list \<times> Ref list
   \<Rightarrow> (PublicationBranch list \<times> Ref list) result" where
  "plan_authority inp events refs projection [] acc = Inr acc"
| "plan_authority inp events refs projection (b # bs) acc =
     (if pb_BranchID b = [] \<or>
         ValidateRef (empty_ref\<lparr>ref_Kind := ''branch'', ref_Name := pb_Branch b,
                        ref_BranchID := pb_BranchID b, ref_Target := pi_RepoID inp\<rparr>) \<noteq> None
      then Inl ErrInvalidRef
      else case find (\<lambda>a. pb_BranchID a = pb_BranchID b) (fst acc) of
             Some a \<Rightarrow> if pb_Branch a \<noteq> pb_Branch b then Inl ErrSyncConflict
                       else plan_authority inp events refs projection bs acc
           | None \<Rightarrow> bind_r (authorize inp events refs projection b) (\<lambda>rs.
               plan_authority inp events refs projection bs (fst acc @ [b], snd acc @ rs)))"

text \<open>
  The payload: ordinary events by time, then the completions in their policy order, each chained to
  the one before. Every event of \<open>ordered\<close> has been visited, so the lookup in \<open>send\<close> succeeds.
\<close>

definition plan_payload ::
  "HistoryEvent list \<Rightarrow> publish_state \<Rightarrow> HistoryEvent list result" where
  "plan_payload ordered st =
     (let ordinary = sort_key event_key (filter (\<lambda>e. he_Kind e \<noteq> ''publish'') (ps_send st));
          completed = filter (\<lambda>e. he_Kind e = ''publish'') ordered;
          publications = concat (map (\<lambda>e. case lookup_event (he_ID e) (ps_send st) of
                                             Some x \<Rightarrow> [x] | None \<Rightarrow> []) completed);
          edges = (\<lambda>i. case ps_edges st i of None \<Rightarrow> [] | Some ds \<Rightarrow> ds)
      in orderPublicationDependencies (ordinary @ publications)
           (chain_publications [] completed edges) (length ordinary))"

definition plan_roots :: "Ref list \<Rightarrow> HistoryEvent list \<Rightarrow> string list" where
  "plan_roots refs sent =
     sort (remdups (map ref_Target refs @
       filter (\<lambda>h. h \<noteq> [])
         (concat (map (\<lambda>e. [he_Source e, he_Target e, he_SharedTarget e, he_MemorySource e]) sent))))"

definition PlanPublication :: "PublicationPlanInput \<Rightarrow> PublicationPlan result" where
  "PlanPublication inp =
     check_then (first_error
       [fail_if (pi_ContextProtocol inp \<noteq> 1) ErrContextProtocolRequired,
        ValidateContentHash (pi_RepoID inp),
        fail_if (pi_Ref inp \<noteq> [] \<and> (pi_Branches inp \<noteq> [] \<or> pi_HistoryOnly inp)) ErrInvalidRef])
     (let events = sort_key event_key (pi_History inp) in
      bind_r (indexPublicationHistory (pi_RepoID inp) events (pi_Accepted inp)) (\<lambda>catalog.
      bind_r (plan_refs (pi_RepoID inp) (pi_Refs inp) []) (\<lambda>refs.
      bind_r (plan_branches inp events refs) (\<lambda>branches.
      check_then (check_expected inp refs branches)
      (bind_r (sync_conflict (projectPublicationBranches (cat_all catalog) branches)) (\<lambda>projection.
       bind_r (plan_authority inp events refs projection branches ([], [])) (\<lambda>(authority, push).
       let allowed = map pb_BranchID authority in
       bind_r (publicationAncestry (pi_RepoID inp) (pi_Snapshots inp) (ancestryRoots catalog (Some allowed))) (\<lambda>ancestry.
       bind_r (order_publications catalog (pi_RepoID inp) (Some allowed) ancestry) (\<lambda>ordered.
       bind_r (visit_all (visit (Suc (length (cat_all catalog))) catalog allowed []) ordered
                 \<lparr>ps_send = [], ps_edges = Map.empty\<rparr>) (\<lambda>st.
       bind_r (plan_payload ordered st) (\<lambda>sent.
         Inr \<lparr>pp_Authority = sort_key pb_BranchID authority, pp_HistoryToSend = sent,
              pp_RefsToPush = sort_key ref_Name push,
              pp_SnapshotRoots = plan_roots push sent\<rparr>)))))))))))"

section \<open>Invariant of the visit\<close>

definition sent_ids :: "publish_state \<Rightarrow> string set" where
  "sent_ids st = he_ID ` set (ps_send st)"

definition authorized :: "publicationCatalog \<Rightarrow> string list \<Rightarrow> HistoryEvent \<Rightarrow> bool" where
  "authorized c allowed e \<longleftrightarrow>
     e \<in> set (cat_all c) \<and> he_ID e \<notin> set (cat_accepted c) \<and> \<not> exceeds_authority allowed e"

text \<open>What is recorded about the event sent at position \<open>k\<close>: its edges lead to accepted or earlier events.\<close>

definition justified :: "publicationCatalog \<Rightarrow> publish_state \<Rightarrow> nat \<Rightarrow> bool" where
  "justified c st k \<longleftrightarrow>
     (\<exists>deps. ps_edges st (he_ID (ps_send st ! k)) = Some deps \<and>
        set (HistoryDependencies (ps_send st ! k)) \<subseteq> set deps \<and>
        set deps \<subseteq> set (cat_accepted c) \<union> he_ID ` set (take k (ps_send st)) \<and>
        (he_Kind (ps_send st ! k) = ''publish'' \<longrightarrow>
           publication_needs c (ps_send st ! k) \<noteq> [] \<and>
           set (publication_needs c (ps_send st ! k)) - {[]} \<subseteq> set deps))"

definition send_inv :: "publicationCatalog \<Rightarrow> string list \<Rightarrow> publish_state \<Rightarrow> bool" where
  "send_inv c allowed st \<longleftrightarrow>
     distinct_ids (ps_send st) \<and> dom (ps_edges st) = sent_ids st \<and>
     list_all (authorized c allowed) (ps_send st) \<and> (\<forall>k < length (ps_send st). justified c st k)"

text \<open>\<open>st'\<close> extends \<open>st\<close> by newly sent events whose IDs avoid the events under visit.\<close>

definition extends :: "string list \<Rightarrow> publish_state \<Rightarrow> publish_state \<Rightarrow> bool" where
  "extends visiting st st' \<longleftrightarrow>
     (\<exists>new. ps_send st' = ps_send st @ new \<and> (\<forall>e \<in> set new. he_ID e \<notin> set visiting)) \<and>
     (\<forall>i \<in> sent_ids st. ps_edges st' i = ps_edges st i)"

lemma extends_refl [simp]: "extends vs st st"
  by (simp add: extends_def)

lemma extends_trans: "extends vs st st' \<Longrightarrow> extends vs st' st'' \<Longrightarrow> extends vs st st''"
  by (auto simp: extends_def sent_ids_def)

lemma extends_sent: "extends vs st st' \<Longrightarrow> sent_ids st \<subseteq> sent_ids st'"
  by (auto simp: extends_def sent_ids_def)

lemma extends_anti: "extends vs st st' \<Longrightarrow> set us \<subseteq> set vs \<Longrightarrow> extends us st st'"
  by (auto simp: extends_def)

lemma justified_extends:
  assumes "extends vs st st'" "k < length (ps_send st)" "justified c st k"
  shows "justified c st' k"
proof -
  from assms(1) obtain new where new: "ps_send st' = ps_send st @ new"
    and e: "\<forall>i \<in> sent_ids st. ps_edges st' i = ps_edges st i" by (auto simp: extends_def)
  have "he_ID (ps_send st ! k) \<in> sent_ids st" using assms(2) by (simp add: sent_ids_def)
  then show ?thesis using assms(2,3) e by (simp add: justified_def new nth_append)
qed

lemma rollback_extends:
  assumes "send_inv c allowed st" "send_inv c allowed st'" "extends vs st st'"
  shows "rollback st st' = st"
proof -
  from assms(3) obtain new where new: "ps_send st' = ps_send st @ new"
    and e: "\<And>i. i \<in> sent_ids st \<Longrightarrow> ps_edges st' i = ps_edges st i" by (auto simp: extends_def)
  have "distinct_ids (ps_send st @ new)" using assms(2) by (simp add: send_inv_def flip: new)
  then have "filter (\<lambda>e. he_ID e \<in> he_ID ` set (ps_send st)) (ps_send st') = ps_send st"
    by (auto simp: new distinct_ids_def filter_empty_conv filter_id_conv)
  moreover have "(if i \<in> he_ID ` set (ps_send st') \<and> i \<notin> he_ID ` set (ps_send st) then None else ps_edges st' i)
      = ps_edges st i" for i
  proof (cases "i \<in> sent_ids st")
    case True
    then show ?thesis using e by (simp add: sent_ids_def)
  next
    case False
    then have "ps_edges st i = None" using assms(1) by (auto simp: send_inv_def dom_def)
    moreover have "ps_edges st' i = None" if "i \<notin> sent_ids st'" using that assms(2) by (auto simp: send_inv_def dom_def)
    ultimately show ?thesis using False by (auto simp: sent_ids_def)
  qed
  ultimately show ?thesis unfolding rollback_def by (cases st) simp
qed

text \<open>
  The contract of a recursive call: it keeps the invariant, only extends what is sent (also when it
  fails), never sends an event under visit, and when it succeeds its event is accepted or sent.
\<close>

locale publication_visitor =
  fixes c :: publicationCatalog and allowed :: "string list" and visiting :: "string list"
    and call :: visitor
  assumes call_inv: "send_inv c allowed st \<Longrightarrow> call i st = (st', r) \<Longrightarrow>
      send_inv c allowed st' \<and> extends visiting st st' \<and>
      (r = None \<longrightarrow> i \<in> set (cat_accepted c) \<union> sent_ids st')"
begin

definition good :: "publish_state \<times> string list \<Rightarrow> bool" where
  "good s \<longleftrightarrow> send_inv c allowed (fst s) \<and> set (snd s) \<subseteq> set (cat_accepted c) \<union> sent_ids (fst s)"

definition grows :: "publish_state \<times> string list \<Rightarrow> publish_state \<times> string list \<Rightarrow> bool" where
  "grows s s' \<longleftrightarrow> extends visiting (fst s) (fst s') \<and> set (snd s) \<subseteq> set (snd s')"

lemma grows_refl [simp]: "grows s s"
  by (simp add: grows_def)

lemma grows_trans: "grows s s' \<Longrightarrow> grows s' s'' \<Longrightarrow> grows s s''"
  by (auto simp: grows_def intro: extends_trans)

lemma need_inv:
  assumes "good s" "need call p s = (s', r)"
  shows "good s' \<and> grows s s' \<and> (if r = None then {p} - {[]} \<subseteq> set (snd s') else snd s' = snd s)"
proof (cases "p = []")
  case True
  with assms show ?thesis by (simp add: need_def)
next
  case False
  obtain st err where v: "call p (fst s) = (st, err)" by force
  have "send_inv c allowed (fst s)" using assms(1) by (simp add: good_def)
  note inv = call_inv [OF this v]
  then have sub: "set (snd s) \<subseteq> set (cat_accepted c) \<union> sent_ids st"
    using assms(1) extends_sent [of visiting "fst s" st] unfolding good_def by blast
  show ?thesis
  proof (cases err)
    case None
    with assms(2) False v have "s' = (st, if p \<in> set (snd s) then snd s else snd s @ [p])" "r = None"
      by (simp_all add: need_def)
    with inv None sub show ?thesis by (auto simp: good_def grows_def)
  next
    case (Some x)
    with assms(2) False v have "s' = (st, snd s)" "r = Some x" by (simp_all add: need_def)
    with inv sub show ?thesis by (simp add: good_def grows_def)
  qed
qed

lemma need_all_inv:
  assumes "good s" "need_all call ps s = (s', r)"
  shows "good s' \<and> grows s s' \<and> (r = None \<longrightarrow> set ps - {[]} \<subseteq> set (snd s'))"
  using assms
proof (induction ps arbitrary: s)
  case (Cons p ps)
  obtain s1 r1 where n: "need call p s = (s1, r1)" by (cases "need call p s")
  note n1 = need_inv [OF Cons.prems(1) n]
  show ?case
  proof (cases r1)
    case None
    with Cons.prems(2) n have rest: "need_all call ps s1 = (s', r)" by simp
    with Cons.IH [OF _ rest] n1 have IH: "good s' \<and> grows s1 s' \<and> (r = None \<longrightarrow> set ps - {[]} \<subseteq> set (snd s'))" by blast
    then have "set (snd s1) \<subseteq> set (snd s')" by (simp add: grows_def)
    moreover have "{p} - {[]} \<subseteq> set (snd s1)" using n1 None by simp
    ultimately have "{p} - {[]} \<subseteq> set (snd s')" by (rule subset_trans [rotated])
    with IH n1 grows_trans [of s s1 s'] show ?thesis by auto
  next
    case (Some x)
    with Cons.prems(2) n n1 show ?thesis by auto
  qed
qed simp

text \<open>A rejected witness leaves no trace: the state is rolled back to the one before it was tried.\<close>

lemma try_witnesses_inv:
  assumes "good s" "try_witnesses call ws s cause = (s', found, r)"
  shows "good s' \<and> grows s s' \<and> (\<not> found \<longrightarrow> s' = s)"
  using assms
proof (induction ws arbitrary: s cause)
  case (Cons w ws)
  obtain s1 r1 where n: "need call w s = (s1, r1)" by (cases "need call w s")
  note n1 = need_inv [OF Cons.prems(1) n]
  show ?case
  proof (cases r1)
    case None
    with Cons.prems(2) n n1 show ?thesis by auto
  next
    case (Some err)
    have "rollback (fst s) (fst s1) = fst s"
      using n1 Cons.prems(1) by (intro rollback_extends [of c allowed _ _ visiting]) (simp_all add: good_def grows_def)
    with n1 Some have "(rollback (fst s) (fst s1), snd s1) = s" by (simp add: prod_eq_iff)
    with Cons.prems(2) n Some have "try_witnesses call ws s (Some err) = (s', found, r)" by simp
    from Cons.IH [OF Cons.prems(1) this] show ?thesis .
  qed
qed simp

lemma visit_origin_inv:
  assumes "good s" "visit_origin call c e s = (s', r)"
  shows "good s' \<and> grows s s'"
proof (cases "foreign_origin e")
  case None
  with assms show ?thesis by (simp add: visit_origin_def)
next
  case (Some origin)
  obtain s1 f r1 where t: "try_witnesses call (map he_ID (witness_candidates c e origin)) s None = (s1, f, r1)"
    by (metis prod.exhaust)
  from assms(2) Some t have "s' = s1" by (auto simp: visit_origin_def split: bool.splits option.splits)
  with try_witnesses_inv [OF assms(1) t] show ?thesis by simp
qed

lemma visit_publish_inv:
  assumes "good s" "visit_publish call c e s = (s', r)"
  shows "good s' \<and> grows s s' \<and> (r = None \<and> he_Kind e = ''publish'' \<longrightarrow>
           publication_needs c e \<noteq> [] \<and> set (publication_needs c e) - {[]} \<subseteq> set (snd s'))"
  using assms need_all_inv [OF assms(1), of "publication_needs c e"]
  by (auto simp: visit_publish_def blocked_def split: if_splits)

lemma visit_event_steps:
  assumes "send_inv c allowed st" "visit_event call c e st = (st', r)"
  obtains (failed) "r \<noteq> None" "send_inv c allowed st'" "extends visiting st st'"
  | (sent) s where "r = None" "good s" "extends visiting st (fst s)"
      "set (HistoryDependencies e) \<subseteq> set (snd s)"
      "he_Kind e = ''publish'' \<longrightarrow> publication_needs c e \<noteq> [] \<and> set (publication_needs c e) - {[]} \<subseteq> set (snd s)"
      "st' = \<lparr>ps_send = put_event e (ps_send (fst s)), ps_edges = (ps_edges (fst s))(he_ID e \<mapsto> snd s)\<rparr>"
proof -
  have good0: "good (st, [])" using assms(1) by (simp add: good_def)
  obtain s1 r1 where e1: "need_all call (HistoryDependencies e) (st, []) = (s1, r1)"
    by (cases "need_all call (HistoryDependencies e) (st, [])")
  note i1 = need_all_inv [OF good0 e1]
  obtain s2 r2 where e2: "visit_origin call c e s1 = (s2, r2)" by (cases "visit_origin call c e s1")
  have i2: "good s2 \<and> grows s1 s2" using visit_origin_inv [OF _ e2] i1 by blast
  obtain s3 r3 where e3: "visit_publish call c e s2 = (s3, r3)" by (cases "visit_publish call c e s2")
  note i3 = visit_publish_inv [OF i2 [THEN conjunct1] e3]
  have g: "grows (st, []) s1" "grows (st, []) s2" "grows (st, []) s3"
    using i1 i2 i3 grows_trans by blast+
  have failed': thesis if "r \<noteq> None" "st' = fst s" "good s" "grows (st, []) s" for s
    using that by (intro failed) (simp_all add: good_def grows_def)
  show thesis
  proof (cases "r1 = None \<and> \<not> own_origin e \<and> r2 = None \<and> r3 = None")
    case True
    then have st': "r = None" "st' = \<lparr>ps_send = put_event e (ps_send (fst s3)), ps_edges = (ps_edges (fst s3))(he_ID e \<mapsto> snd s3)\<rparr>"
      using assms(2) e1 e2 e3 by (simp_all add: visit_event_def)
    have "set (HistoryDependencies e) \<subseteq> set (snd s1)" using i1 True HistoryDependencies_no_empty by auto
    also have "\<dots> \<subseteq> set (snd s3)" using i2 i3 unfolding grows_def by blast
    finally show thesis using st' i3 g(3) True by (intro sent [of s3]) (simp_all add: grows_def)
  next
    case False
    show thesis
    proof (cases "r1 \<noteq> None \<or> own_origin e")
      case True
      then show thesis using assms(2) e1 i1 g(1) failed' [of s1]
        by (cases r1) (auto simp: visit_event_def blocked_def)
    next
      case ok: False
      show thesis
      proof (cases r2)
        case None
        with ok False obtain err where "r3 = Some err" by auto
        with None ok assms(2) e1 e2 e3 i3 g(3) failed' [of s3] show thesis by (auto simp: visit_event_def)
      next
        case (Some err)
        with ok assms(2) e1 e2 i2 g(2) failed' [of s2] show thesis by (auto simp: visit_event_def)
      qed
    qed
  qed
qed

lemma visit_event_inv:
  assumes "send_inv c allowed st" "visit_event call c e st = (st', r)" "authorized c allowed e"
    and "he_ID e \<notin> sent_ids st" "visiting = he_ID e # vs" "he_ID e \<notin> set vs"
  shows "send_inv c allowed st' \<and> extends vs st st' \<and> (r = None \<longrightarrow> he_ID e \<in> sent_ids st')"
  using assms(1,2)
proof (cases rule: visit_event_steps)
  case failed
  then show ?thesis using extends_anti [of visiting st st' vs] assms(5) by auto
next
  case (sent s)
  from sent(3) obtain new where new: "ps_send (fst s) = ps_send st @ new" "\<forall>x \<in> set new. he_ID x \<notin> set visiting"
    by (auto simp: extends_def)
  have fresh: "he_ID e \<notin> sent_ids (fst s)" using new assms(4,5) by (auto simp: sent_ids_def)
  then have put: "ps_send st' = ps_send (fst s) @ [e]" using sent(6) by (simp add: put_event_def sent_ids_def)
  have ext: "extends vs (fst s) st'" using fresh sent(6) put assms(6) by (auto simp: extends_def)
  have inv: "send_inv c allowed (fst s)" using sent(2) by (simp add: good_def)
  have "justified c st' k" if k: "k < length (ps_send st')" for k
  proof (cases "k < length (ps_send (fst s))")
    case True
    then show ?thesis using inv by (intro justified_extends [OF ext]) (simp_all add: send_inv_def)
  next
    case False
    with k put have "k = length (ps_send (fst s))" by simp
    then show ?thesis using sent(2,4,5,6) put by (auto simp: justified_def good_def sent_ids_def)
  qed
  moreover have "distinct_ids (ps_send st')" using inv fresh put by (simp add: send_inv_def distinct_ids_def sent_ids_def)
  moreover have "dom (ps_edges st') = sent_ids st'" using inv sent(6) put by (simp add: send_inv_def sent_ids_def)
  moreover have "list_all (authorized c allowed) (ps_send st')" using inv assms(3) put by (simp add: send_inv_def)
  moreover have "extends vs st st'" using extends_trans [OF extends_anti [OF sent(3)] ext] assms(5) by auto
  ultimately show ?thesis using put by (simp add: send_inv_def sent_ids_def)
qed

end

lemma visit_contract: "publication_visitor c allowed vs (visit n c allowed vs)"
proof (induction n arbitrary: vs)
  case 0
  show ?case by unfold_locales auto
next
  case (Suc n)
  show ?case
  proof
    fix st i st' r assume inv: "send_inv c allowed st" and v: "visit (Suc n) c allowed vs i st = (st', r)"
    show "send_inv c allowed st' \<and> extends vs st st' \<and> (r = None \<longrightarrow> i \<in> set (cat_accepted c) \<union> sent_ids st')"
    proof (cases "i \<in> set (cat_accepted c) \<or> lookup_event i (ps_send st) \<noteq> None \<or> lookup_event i (cat_all c) = None")
      case True
      then have "st' = st \<and> (r = None \<longrightarrow> i \<in> set (cat_accepted c) \<or> lookup_event i (ps_send st) \<noteq> None)"
        using v by (auto simp: blocked_def split: if_splits)
      with inv show ?thesis by (auto simp: sent_ids_def lookup_event_None)
    next
      case False
      then obtain e where e: "lookup_event i (cat_all c) = Some e" "i \<notin> set (cat_accepted c)"
          "lookup_event i (ps_send st) = None" by auto
      then have fresh: "i \<notin> sent_ids st" by (simp add: sent_ids_def lookup_event_None)
      have ie: "e \<in> set (cat_all c)" "he_ID e = i" using lookup_event_Some [OF e(1)] by simp_all
      show ?thesis
      proof (cases "i \<in> set vs \<or> exceeds_authority allowed e")
        case True
        with False e inv v show ?thesis by (auto simp: blocked_def split: if_splits)
      next
        case go: False
        with False e v have "visit_event (visit n c allowed (i # vs)) c e st = (st', r)" by simp
        from publication_visitor.visit_event_inv [OF Suc.IH inv this] go e fresh ie show ?thesis
          by (simp add: authorized_def)
      qed
    qed
  qed
qed

interpretation pv: publication_visitor c allowed vs "visit n c allowed vs" for c allowed vs n
  by (rule visit_contract)

end
