(* ===== verification/PlanSafety.thy ===== *)
theory PlanSafety
  imports Planning
begin

text \<open>
  What a publication plan promises (\<open>PlanPublication\<close>, \<open>cli/internal/domain/publication_plan.go\<close>):
  the fuel of the visit is enough, the final order is the one the edges and the policy
  prescribe, and the payload is complete, authorised and closed under dependencies.
\<close>

section \<open>Enough fuel\<close>

definition no_fuel_error :: "visitor \<Rightarrow> bool" where
  "no_fuel_error call \<longleftrightarrow> (\<forall>i st. snd (call i st) \<noteq> Some OutOfFuel)"

lemma need_total: "no_fuel_error call \<Longrightarrow> snd (need call p s) \<noteq> Some OutOfFuel"
  unfolding no_fuel_error_def by (auto simp: need_def split: prod.splits option.splits) (metis snd_conv)

lemma need_all_total: "no_fuel_error call \<Longrightarrow> snd (need_all call ps s) \<noteq> Some OutOfFuel"
proof (induction ps arbitrary: s)
  case (Cons p ps)
  with need_total [of call p s] show ?case by (auto split: prod.splits option.splits)
qed simp

lemma try_witnesses_total:
  "no_fuel_error call \<Longrightarrow> cause \<noteq> Some OutOfFuel \<Longrightarrow> snd (snd (try_witnesses call ws s cause)) \<noteq> Some OutOfFuel"
proof (induction ws arbitrary: s cause)
  case (Cons w ws)
  with need_total [of call w s] show ?case by (auto split: prod.splits option.splits)
qed simp

lemma visit_origin_total:
  assumes "no_fuel_error call"
  shows "snd (visit_origin call c e s) \<noteq> Some OutOfFuel"
proof (cases "foreign_origin e")
  case (Some origin)
  let ?ws = "map he_ID (witness_candidates c e origin)"
  obtain s1 f r1 where t: "try_witnesses call ?ws s None = (s1, f, r1)" by (metis prod.exhaust)
  with try_witnesses_total [OF assms, of None ?ws s] have "r1 \<noteq> Some OutOfFuel" by simp
  with Some t show ?thesis by (cases f) (auto simp: visit_origin_def blocked_def split: option.splits)
qed (simp add: visit_origin_def)

lemma visit_event_total:
  assumes "no_fuel_error call"
  shows "snd (visit_event call c e st) \<noteq> Some OutOfFuel"
proof -
  obtain s1 r1 where e1: "need_all call (HistoryDependencies e) (st, []) = (s1, r1)"
    by (cases "need_all call (HistoryDependencies e) (st, [])")
  obtain s2 r2 where e2: "visit_origin call c e s1 = (s2, r2)" by (cases "visit_origin call c e s1")
  obtain s3 r3 where e3: "visit_publish call c e s2 = (s3, r3)" by (cases "visit_publish call c e s2")
  have "r1 \<noteq> Some OutOfFuel" using need_all_total [OF assms, of "HistoryDependencies e" "(st, [])"] e1 by simp
  moreover have "r2 \<noteq> Some OutOfFuel" using visit_origin_total [OF assms, of c e s1] e2 by simp
  moreover have "r3 \<noteq> Some OutOfFuel"
    using need_all_total [OF assms, of "publication_needs c e" s2] e3
    by (auto simp: visit_publish_def blocked_def split: if_splits)
  ultimately show ?thesis
    using e1 e2 e3 by (auto simp: visit_event_def blocked_def split: option.splits)
qed

lemma visit_total:
  assumes "distinct vs" "set vs \<subseteq> he_ID ` set (cat_all c)" "card (he_ID ` set (cat_all c)) < n + length vs"
  shows "no_fuel_error (visit n c allowed vs)"
  using assms
proof (induction n arbitrary: vs)
  case 0
  have "length vs \<le> card (he_ID ` set (cat_all c))"
    using 0(1,2) by (metis List.finite_set card_mono distinct_card finite_imageI)
  with 0(3) show ?case by simp
next
  case (Suc n)
  have "snd (visit (Suc n) c allowed vs i st) \<noteq> Some OutOfFuel" for i st
  proof (cases "lookup_event i (cat_all c)")
    case None
    then show ?thesis by (simp add: blocked_def)
  next
    case (Some e)
    have "snd (visit_event (visit n c allowed (i # vs)) c e st) \<noteq> Some OutOfFuel" if "i \<notin> set vs"
    proof (intro visit_event_total Suc.IH)
      show "distinct (i # vs)" using that Suc.prems(1) by simp
      show "set (i # vs) \<subseteq> he_ID ` set (cat_all c)" using lookup_event_Some [OF Some] Suc.prems(2) by auto
    qed (use Suc.prems(3) in simp)
    with Some show ?thesis by (auto simp: blocked_def)
  qed
  then show ?case by (simp add: no_fuel_error_def)
qed

lemma visit_all_total:
  "no_fuel_error v \<Longrightarrow> visit_all v es st \<noteq> Inl OutOfFuel"
proof (induction es arbitrary: st)
  case (Cons e es)
  then have "snd (v (he_ID e) st) \<noteq> Some OutOfFuel" unfolding no_fuel_error_def by blast
  with Cons show ?case by (auto split: prod.splits option.splits)
qed simp

section \<open>The events that are sent\<close>

lemma visit_all_inv:
  assumes "visit_all (visit n c allowed []) es st = Inr st'" "send_inv c allowed st"
  shows "send_inv c allowed st' \<and> sent_ids st \<subseteq> sent_ids st' \<and>
         he_ID ` set es \<subseteq> set (cat_accepted c) \<union> sent_ids st'"
  using assms
proof (induction es arbitrary: st)
  case (Cons e es)
  obtain st1 r where v: "visit n c allowed [] (he_ID e) st = (st1, r)" by (cases "visit n c allowed [] (he_ID e) st")
  with Cons.prems have r: "r = None" and rest: "visit_all (visit n c allowed []) es st1 = Inr st'"
    by (auto split: option.splits)
  note inv = pv.call_inv [OF Cons.prems(2) v]
  then have "sent_ids st \<subseteq> sent_ids st1" using extends_sent by blast
  with Cons.IH [OF rest] inv r show ?case by auto
qed simp

section \<open>The final order\<close>

interpretation pubo: kahn_graph "[0..<length events]" "publication_children events edges" "\<lambda>i::nat. i" for events edges
  by unfold_locales (auto simp: publication_children_def)

lemma pigeonhole_prefix:
  assumes "distinct ix" "set ix = {0..<n}" "k \<le> n" "\<forall>i < k. ix ! i < k"
  shows "set (take k ix) = {0..<k}" "set (drop k ix) = {k..<n}"
proof -
  have len: "length ix = n" using assms(1,2) by (metis distinct_card card_atLeastLessThan diff_zero)
  have "set (take k ix) \<subseteq> {0..<k}" using assms(3,4) len by (auto simp: in_set_conv_nth)
  moreover have "card (set (take k ix)) = card {0..<k}" using assms(1,3) len by (simp add: distinct_card)
  ultimately show t: "set (take k ix) = {0..<k}" by (simp add: card_subset_eq)
  have "set (take k ix) \<union> set (drop k ix) = {0..<n}" "set (take k ix) \<inter> set (drop k ix) = {}"
    using assms(1,2) by (simp_all add: set_take_disj_set_drop_if_distinct flip: set_append)
  then have "set (drop k ix) = {0..<n} - set (take k ix)" by blast
  then show "set (drop k ix) = {k..<n}" unfolding t by auto
qed

lemma chain_is_upt:
  assumes "distinct xs" "set xs = {a..<b}"
    and chain: "\<And>i. i < length xs \<Longrightarrow> a < xs ! i \<Longrightarrow> xs ! i - 1 \<in> set (take i xs)"
  shows "xs = [a..<b]"
proof -
  have "i \<le> length xs \<Longrightarrow> take i xs = [a..<a + i]" for i
  proof (induction i)
    case (Suc i)
    then have IH: "take i xs = [a..<a + i]" and i: "i < length xs" by simp_all
    have "xs ! i \<in> {a..<b}" using i assms(2) nth_mem by blast
    moreover have "xs ! i \<notin> set (take i xs)" using assms(1) i by (auto simp: in_set_conv_nth nth_eq_iff_index_eq)
    moreover have "xs ! i - 1 \<in> {a..<a + i}" if "a < xs ! i" using chain [OF i that] IH by simp
    ultimately have "xs ! i = a + i" using IH by (cases "a < xs ! i") auto
    then show ?case using IH i by (simp add: take_Suc_conv_app_nth)
  qed simp
  from this [of "length xs"] have xs: "xs = [a..<a + length xs]" by simp
  moreover have "length xs = b - a" using assms(1,2) by (metis distinct_card card_atLeastLessThan)
  ultimately show ?thesis by (cases "a \<le> b") simp_all
qed

lemma orderPublicationDependencies_spec:
  assumes "orderPublicationDependencies events edges ordinary = Inr out"
    and "ordinary \<le> length events" "distinct_ids events"
  obtains ix where "out = map ((!) events) ix" "distinct ix" "set ix = {0..<length events}"
    "set (take ordinary ix) = {0..<ordinary}" "set (drop ordinary ix) = {ordinary..<length events}"
    "\<And>k j. k < length ix \<Longrightarrow> j < length events \<Longrightarrow> he_ID (events ! j) \<in> set (edges (he_ID (events ! (ix ! k)))) \<Longrightarrow>
       j \<in> set (take k ix)"
proof -
  obtain ix0 where k: "kahn never (\<lambda>i. i) [0..<length events] (publication_children events edges) = Done ix0"
    using pubo.kahn_total by blast
  from assms(1) kahn_stop [OF k, of "\<lambda>i out. ordinary \<le> i \<and> length out < ordinary"]
  have out: "out = map ((!) events) ix0" and len: "length ix0 = length events"
    and stop: "\<not> (\<exists>k < length ix0. ordinary \<le> ix0 ! k \<and> k < ordinary)"
    by (auto simp: orderPublicationDependencies_def min_def split: if_splits)
  note snd = pubo.kahn_sound [OF k]
  have set: "set ix0 = {0..<length events}"
    using snd(1,2) len by (metis atLeastLessThan_upt card_atLeastLessThan card_subset_eq diff_zero distinct_card finite_atLeastLessThan)
  have "ix0 ! i < ordinary" if "i < ordinary" for i
  proof -
    have "i < length ix0" using that len assms(2) by simp
    with stop that show ?thesis by (meson not_le)
  qed
  then have "\<forall>i < ordinary. ix0 ! i < ordinary" by blast
  note pre = pigeonhole_prefix [OF snd(1) set assms(2) this]
  have last: "last_index events j" if "j < length events" for j
    using assms(3) that unfolding last_index_def distinct_ids_def
    by (metis (no_types, lifting) append_take_drop_id distinct.simps(2) distinct_append drop_map id_take_nth_drop image_set length_map list.simps(9) map_append)
  show thesis
  proof (rule that [OF out snd(1) set pre])
    fix k' j assume kj: "k' < length ix0" "j < length events" "he_ID (events ! j) \<in> set (edges (he_ID (events ! (ix0 ! k'))))"
    have "ix0 ! k' < length events" using kj(1) set nth_mem by fastforce
    then have "ix0 ! k' \<in> set (publication_children events edges j)"
      using kj last by (simp add: publication_children_def)
    moreover have "kahn never (\<lambda>i. i) [0..<length events] (publication_children events edges) =
        Done (take k' ix0 @ ix0 ! k' # drop (Suc k') ix0)"
      by (subst id_take_nth_drop [OF kj(1), symmetric]) (rule k)
    ultimately show "j \<in> set (take k' ix0)" using pubo.kahn_topological kj(2) by simp
  qed
qed

section \<open>The payload\<close>

lemma chain_keeps: "set (edges i) \<subseteq> set (chain_publications prior es edges i)"
proof (induction es arbitrary: prior edges)
  case (Cons e es)
  let ?edges = "if prior = [] then edges else edges(he_ID e := prior # edges (he_ID e))"
  have "set (edges i) \<subseteq> set (?edges i)" by auto
  also have "\<dots> \<subseteq> set (chain_publications (he_ID e) es ?edges i)" by (rule Cons.IH)
  finally show ?case by simp
qed simp

lemma chain_head:
  assumes "prior \<noteq> []"
  shows "prior \<in> set (chain_publications prior (e # es) edges (he_ID e))"
  using chain_keeps [of "edges(he_ID e := prior # edges (he_ID e))" "he_ID e" "he_ID e" es] assms by auto

lemma chain_link:
  "Suc k < length es \<Longrightarrow> he_ID (es ! k) \<noteq> [] \<Longrightarrow>
     he_ID (es ! k) \<in> set (chain_publications prior es edges (he_ID (es ! Suc k)))"
proof (induction es arbitrary: prior edges k)
  case (Cons e es)
  show ?case
  proof (cases k)
    case 0
    with Cons.prems obtain f fs where "es = f # fs" by (cases es) auto
    with 0 Cons.prems(2) chain_head show ?thesis by simp
  next
    case (Suc j)
    with Cons.prems Cons.IH [of j] show ?thesis by simp
  qed
qed simp

lemma concat_lookup:
  assumes "distinct_ids send" "set es \<subseteq> set send"
  shows "concat (map (\<lambda>e. case lookup_event (he_ID e) send of Some x \<Rightarrow> [x] | None \<Rightarrow> []) es) = es"
  using assms(2) by (induction es) (simp_all add: lookup_event_in [OF assms(1)])

text \<open>The chain of edges leaves no choice: the completions come out in the order of the policy.\<close>

lemma chained_tail:
  assumes "distinct ix" "set ix = {0..<length (xs @ ys)}"
    "set (take (length xs) ix) = {0..<length xs}" "set (drop (length xs) ix) = {length xs..<length (xs @ ys)}"
    and pre: "\<And>k j. k < length ix \<Longrightarrow> j < length (xs @ ys) \<Longrightarrow> R ((xs @ ys) ! j) ((xs @ ys) ! (ix ! k)) \<Longrightarrow>
       j \<in> set (take k ix)"
    and chain: "\<And>k. Suc k < length ys \<Longrightarrow> R (ys ! k) (ys ! Suc k)"
  shows "map ((!) (xs @ ys)) (drop (length xs) ix) = ys"
proof -
  let ?n = "length xs"
  have len: "length ix = ?n + length ys"
    using assms(1,2) by (metis card_atLeastLessThan diff_zero distinct_card length_append)
  have "drop ?n ix = [?n..<length (xs @ ys)]"
  proof (rule chain_is_upt)
    show "distinct (drop ?n ix)" "set (drop ?n ix) = {?n..<length (xs @ ys)}" using assms(1,4) by simp_all
    fix i assume i: "i < length (drop ?n ix)" "?n < drop ?n ix ! i"
    define j where "j = drop ?n ix ! i - ?n - 1"
    have "drop ?n ix ! i < ?n + length ys" using i(1) assms(4) nth_mem [of i "drop ?n ix"] by auto
    then have j: "drop ?n ix ! i = ?n + Suc j" "Suc j < length ys" using i(2) by (simp_all add: j_def)
    have k: "?n + i < length ix" "ix ! (?n + i) = ?n + Suc j" using i(1) j(1) len by simp_all
    have "?n + j \<in> set (take (?n + i) ix)"
      using pre [OF k(1), of "?n + j"] chain [OF j(2)] j(2) k(2) by (simp add: nth_append)
    moreover have "?n + j \<notin> set (take ?n ix)" using assms(3) by simp
    ultimately have "?n + j \<in> set (take i (drop ?n ix))" by (simp add: take_add)
    with j(1) show "drop ?n ix ! i - 1 \<in> set (take i (drop ?n ix))" by simp
  qed
  then have "map ((!) (xs @ ys)) (drop ?n ix) = map ((!) (xs @ ys)) [?n..<length (xs @ ys)]" by simp
  also have "\<dots> = ys" by (rule nth_equalityI) (simp_all add: nth_append)
  finally show ?thesis .
qed

lemma sent_justified:
  assumes "send_inv c allowed st" "e \<in> set (ps_send st)"
  obtains deps where "ps_edges st (he_ID e) = Some deps" "set deps \<subseteq> set (cat_accepted c) \<union> sent_ids st"
    "set (HistoryDependencies e) \<subseteq> set deps"
    "he_Kind e = ''publish'' \<longrightarrow> publication_needs c e \<noteq> [] \<and> set (publication_needs c e) - {[]} \<subseteq> set deps"
proof -
  from assms(2) obtain k where k: "k < length (ps_send st)" "e = ps_send st ! k" by (auto simp: in_set_conv_nth)
  with assms(1) have "justified c st k" by (simp add: send_inv_def)
  then obtain deps where d: "ps_edges st (he_ID e) = Some deps" "set (HistoryDependencies e) \<subseteq> set deps"
    "set deps \<subseteq> set (cat_accepted c) \<union> he_ID ` set (take k (ps_send st))"
    "he_Kind e = ''publish'' \<longrightarrow> publication_needs c e \<noteq> [] \<and> set (publication_needs c e) - {[]} \<subseteq> set deps"
    unfolding justified_def k(2) by blast
  have "he_ID ` set (take k (ps_send st)) \<subseteq> sent_ids st" by (auto simp: sent_ids_def dest: in_set_takeD)
  with d show thesis by (intro that [of deps]) auto
qed

lemma distinct_ids_nth: "distinct_ids es \<Longrightarrow> inj_on (\<lambda>i. he_ID (es ! i)) {0..<length es}"
  using nth_eq_iff_index_eq [of "map he_ID es"] by (auto simp: distinct_ids_def inj_on_def)

lemma plan_payload_spec:
  assumes "plan_payload ordered st = Inr sent" "send_inv c allowed st" "[] \<notin> sent_ids st"
    and pubs: "distinct_ids (filter (\<lambda>e. he_Kind e = ''publish'') ordered)"
      "set (filter (\<lambda>e. he_Kind e = ''publish'') ordered) = {e \<in> set (ps_send st). he_Kind e = ''publish''}"
  obtains ord where "sent = ord @ filter (\<lambda>e. he_Kind e = ''publish'') ordered"
    "list_all (\<lambda>e. he_Kind e \<noteq> ''publish'') ord" "set sent = set (ps_send st)" "distinct_ids sent"
    "\<And>xs e ys deps. sent = xs @ e # ys \<Longrightarrow> ps_edges st (he_ID e) = Some deps \<Longrightarrow>
       set deps \<subseteq> set (cat_accepted c) \<union> he_ID ` set xs"
proof -
  define ordinary where "ordinary = sort_key event_key (filter (\<lambda>e. he_Kind e \<noteq> ''publish'') (ps_send st))"
  define completed where "completed = filter (\<lambda>e. he_Kind e = ''publish'') ordered"
  define edges where "edges = chain_publications [] completed (\<lambda>i. case ps_edges st i of None \<Rightarrow> [] | Some ds \<Rightarrow> ds)"
  let ?ev = "ordinary @ completed"
  have dist: "distinct_ids (ps_send st)" using assms(2) by (simp add: send_inv_def)
  have comp: "distinct_ids completed" "set completed = {e \<in> set (ps_send st). he_Kind e = ''publish''}"
    using pubs by (simp_all only: completed_def)
  have ord: "distinct_ids ordinary" "set ordinary = {e \<in> set (ps_send st). he_Kind e \<noteq> ''publish''}"
    using dist by (auto simp: ordinary_def distinct_ids_def distinct_map inj_on_def)
  have set_ev: "set ?ev = set (ps_send st)" using ord(2) comp(2) by auto
  have dist_ev: "distinct_ids ?ev"
    using ord comp by (auto simp: distinct_ids_def dest: inj_onD [OF distinct_ids_inj [OF dist]])
  have "orderPublicationDependencies ?ev edges (length ordinary) = Inr sent"
    using assms(1) concat_lookup [OF dist, of completed] comp(2)
    by (simp add: plan_payload_def Let_def edges_def completed_def ordinary_def)
  from orderPublicationDependencies_spec [OF this _ dist_ev] obtain ix where
    ix: "sent = map ((!) ?ev) ix" "distinct ix" "set ix = {0..<length ?ev}"
      "set (take (length ordinary) ix) = {0..<length ordinary}"
      "set (drop (length ordinary) ix) = {length ordinary..<length ?ev}"
    and pre: "\<And>k j. k < length ix \<Longrightarrow> j < length ?ev \<Longrightarrow> he_ID (?ev ! j) \<in> set (edges (he_ID (?ev ! (ix ! k)))) \<Longrightarrow>
       j \<in> set (take k ix)"
    by auto
  have ids: "he_ID (completed ! k) \<noteq> []" if "k < length completed" for k
    using comp(2) assms(3) nth_mem [OF that] unfolding sent_ids_def by (metis (no_types, lifting) image_eqI mem_Collect_eq)
  have tail: "map ((!) ?ev) (drop (length ordinary) ix) = completed"
    using chain_link ids
    by (intro chained_tail [OF ix(2-5), where R = "\<lambda>x y. he_ID x \<in> set (edges (he_ID y))"] pre) (simp_all add: edges_def)
  have sent: "sent = map ((!) ?ev) (take (length ordinary) ix) @ completed"
    unfolding ix(1) by (subst append_take_drop_id [of "length ordinary" ix, symmetric]) (simp only: map_append tail)
  show thesis
  proof (rule that [of "map ((!) ?ev) (take (length ordinary) ix)"])
    show "sent = map ((!) ?ev) (take (length ordinary) ix) @ filter (\<lambda>e. he_Kind e = ''publish'') ordered"
      using sent by (simp add: completed_def)
    show "list_all (\<lambda>e. he_Kind e \<noteq> ''publish'') (map ((!) ?ev) (take (length ordinary) ix))"
      using ix(4) ord(2) by (auto simp: list_all_iff nth_append)
    show set_sent: "set sent = set (ps_send st)" unfolding ix(1) set_map ix(3) set_ev [symmetric]
      by (auto simp: set_conv_nth simp del: length_append)
    have "inj_on (\<lambda>i. he_ID (?ev ! i)) (set ix)" unfolding ix(3) by (rule distinct_ids_nth [OF dist_ev])
    then show "distinct_ids sent" using ix(2) by (simp add: ix(1) distinct_ids_def distinct_map o_def)
    fix xs e ys deps assume split: "sent = xs @ e # ys" and deps: "ps_edges st (he_ID e) = Some deps"
    let ?k = "length xs"
    have k: "?k < length ix" "?ev ! (ix ! ?k) = e"
      using arg_cong [OF split, of length] arg_cong [OF split, of "\<lambda>zs. zs ! length xs"] by (simp_all add: ix(1))
    have xs: "xs = map ((!) ?ev) (take ?k ix)" using split ix(1) by (metis append_eq_conv_conj take_map)
    have "e \<in> set (ps_send st)" using split set_sent by auto
    then obtain deps' where "ps_edges st (he_ID e) = Some deps'" "set deps' \<subseteq> set (cat_accepted c) \<union> sent_ids st"
      by (rule sent_justified [OF assms(2)])
    with deps have sub: "set deps \<subseteq> set (cat_accepted c) \<union> sent_ids st" by simp
    show "set deps \<subseteq> set (cat_accepted c) \<union> he_ID ` set xs"
    proof
      fix d assume d: "d \<in> set deps"
      show "d \<in> set (cat_accepted c) \<union> he_ID ` set xs"
      proof (cases "d \<in> set (cat_accepted c)")
        case False
        with d sub have "d \<in> he_ID ` set ?ev" unfolding set_ev sent_ids_def by blast
        then obtain j where j: "j < length ?ev" "d = he_ID (?ev ! j)" by (metis imageE in_set_conv_nth)
        have "d \<in> set (edges (he_ID e))"
          using chain_keeps [of "\<lambda>i. case ps_edges st i of None \<Rightarrow> [] | Some ds \<Rightarrow> ds" "he_ID e" "[]" completed] deps d
          by (auto simp: edges_def)
        with pre [OF k(1) j(1)] k(2) j(2) have "j \<in> set (take ?k ix)" by simp
        then have "?ev ! j \<in> set xs" by (subst xs) simp
        then show ?thesis using j(2) by simp
      qed simp
    qed
  qed
qed

section \<open>The plan\<close>

lemma PlanPublication_Inr:
  assumes "PlanPublication inp = Inr plan"
  obtains c refs branches projection authority push ancestry ordered st where
    "indexPublicationHistory (pi_RepoID inp) (sort_key event_key (pi_History inp)) (pi_Accepted inp) = Inr c"
    "plan_refs (pi_RepoID inp) (pi_Refs inp) [] = Inr refs"
    "plan_branches inp (sort_key event_key (pi_History inp)) refs = Inr branches"
    "check_expected inp refs branches = None"
    "projectPublicationBranches (cat_all c) branches = Inr projection"
    "plan_authority inp (sort_key event_key (pi_History inp)) refs projection branches ([], []) = Inr (authority, push)"
    "publicationAncestry (pi_RepoID inp) (pi_Snapshots inp) (ancestryRoots c (Some (map pb_BranchID authority))) = Inr ancestry"
    "order_publications c (pi_RepoID inp) (Some (map pb_BranchID authority)) ancestry = Inr ordered"
    "visit_all (visit (Suc (length (cat_all c))) c (map pb_BranchID authority) []) ordered
       \<lparr>ps_send = [], ps_edges = Map.empty\<rparr> = Inr st"
    "plan_payload ordered st = Inr (pp_HistoryToSend plan)"
    "pp_Authority plan = sort_key pb_BranchID authority" "pp_RefsToPush plan = sort_key ref_Name push"
    "pp_SnapshotRoots plan = plan_roots push (pp_HistoryToSend plan)"
proof -
  have sync: "sync_conflict r = Inr x \<longleftrightarrow> r = Inr x" for r and x :: ContextBranchProjection
    by (cases r) (simp_all add: sync_conflict_def)
  from assms show thesis
    unfolding PlanPublication_def Let_def check_then_Inr bind_r_Inr sync split_paired_Ex prod.case
    by (elim conjE exE) (rule that, assumption+, auto)
qed

lemma order_publications_mset:
  assumes "order_publications c repo selected anc = Inr out"
  shows "mset out = mset (filter (\<lambda>e. is_selected selected (he_BranchID e)) (cat_pending c))"
proof -
  from assms obtain st :: order_state and ss where out: "out = os_ordinary st @ concat ss"
    and "os_ordinary st = filter (\<lambda>e. he_Kind e \<noteq> ''publish'' \<and> is_selected selected (he_BranchID e)) (cat_pending c)"
    and "mset (concat ss) = mset (filter (\<lambda>e. he_Kind e = ''publish'' \<and> is_selected selected (he_BranchID e)) (cat_pending c))"
    by (rule order_publications_spec) (rule that)
  then show ?thesis unfolding out mset_append by (simp only: mset_filter_split)
qed

lemma distinct_ids_mset:
  assumes "distinct_ids es" "mset out = mset (filter P es)"
  shows "distinct_ids out"
proof -
  have "mset (map he_ID out) = mset (map he_ID (filter P es))" using assms(2) by (metis mset_map)
  moreover have "distinct (map he_ID (filter P es))" using assms(1) by (simp add: distinct_ids_def distinct_map_filter)
  ultimately show ?thesis unfolding distinct_ids_def by (metis mset_eq_imp_distinct_iff)
qed

text \<open>Everything sent is known and unaccepted, so it stems from the local history.\<close>

lemma plan_state:
  assumes "PlanPublication inp = Inr plan"
  obtains c st ordered ancestry where
    "indexPublicationHistory (pi_RepoID inp) (sort_key event_key (pi_History inp)) (pi_Accepted inp) = Inr c"
    "send_inv c (map pb_BranchID (pp_Authority plan)) st"
    "\<And>e. e \<in> set (pi_History inp) \<Longrightarrow> he_ID e \<notin> he_ID ` set (pi_Accepted inp) \<Longrightarrow>
       he_BranchID e \<in> pb_BranchID ` set (pp_Authority plan) \<Longrightarrow> e \<in> set (ps_send st)"
    "plan_payload ordered st = Inr (pp_HistoryToSend plan)"
    "distinct_ids (filter (\<lambda>e. he_Kind e = ''publish'') ordered)"
    "set (filter (\<lambda>e. he_Kind e = ''publish'') ordered) = {e \<in> set (ps_send st). he_Kind e = ''publish''}"
    "\<exists>roots. publicationAncestry (pi_RepoID inp) (pi_Snapshots inp) roots = Inr ancestry"
    "\<exists>selected. order_publications c (pi_RepoID inp) selected ancestry = Inr ordered"
proof -
  from assms obtain c authority ancestry ordered st where
    c: "indexPublicationHistory (pi_RepoID inp) (sort_key event_key (pi_History inp)) (pi_Accepted inp) = Inr c"
    and anc: "publicationAncestry (pi_RepoID inp) (pi_Snapshots inp) (ancestryRoots c (Some (map pb_BranchID authority))) = Inr ancestry"
    and ord: "order_publications c (pi_RepoID inp) (Some (map pb_BranchID authority)) ancestry = Inr ordered"
    and vis: "visit_all (visit (Suc (length (cat_all c))) c (map pb_BranchID authority) []) ordered
       \<lparr>ps_send = [], ps_edges = Map.empty\<rparr> = Inr st"
    and pay: "plan_payload ordered st = Inr (pp_HistoryToSend plan)"
    and auth: "pp_Authority plan = sort_key pb_BranchID authority"
    by (rule PlanPublication_Inr) (rule that)
  let ?al = "map pb_BranchID authority" and ?A = "map pb_BranchID (pp_Authority plan)"
  note cat = indexPublicationHistory_spec [OF c]
  have al: "set ?A = set ?al" by (simp add: auth)
  have "send_inv c ?al \<lparr>ps_send = [], ps_edges = Map.empty\<rparr>" by (simp add: send_inv_def distinct_ids_def sent_ids_def)
  note v = visit_all_inv [OF vis this]
  have "authorized c ?A = authorized c ?al" unfolding authorized_def exceeds_authority_def al ..
  with v have inv: "send_inv c ?A st" by (simp add: send_inv_def)
  from ord have mord: "mset ordered = mset (filter (\<lambda>e. is_selected (Some ?al) (he_BranchID e)) (cat_pending c))"
    by (rule order_publications_mset)
  have pend: "e \<in> set (cat_pending c)" if "e \<in> set (cat_all c)" "he_ID e \<notin> set (cat_accepted c)" for e
    using that cat(2,3,5) by auto
  have in_send: "e \<in> set (ps_send st)" if "e \<in> set ordered" for e
  proof -
    from that mset_eq_setD [OF mord] have "e \<in> set (cat_pending c)" by auto
    then have e: "e \<in> set (cat_all c)" "he_ID e \<notin> set (cat_accepted c)" using cat(2,3,5) by auto
    with that v have "he_ID e \<in> sent_ids st" by blast
    then obtain e' where e': "e' \<in> set (ps_send st)" "he_ID e' = he_ID e" by (auto simp: sent_ids_def)
    then have "e' \<in> set (cat_all c)" using inv by (auto simp: send_inv_def authorized_def list_all_iff)
    with e'(2) e(1) have "e' = e" by (intro inj_onD [OF distinct_ids_inj [OF cat(1)]])
    with e' show ?thesis by simp
  qed
  have sel: "e \<in> set ordered" if "e \<in> set (cat_pending c)" "he_BranchID e \<in> set ?al" for e
    using that mset_eq_setD [OF mord] by (auto simp: is_selected_def)
  have pubs: "e \<in> set ordered" if "e \<in> set (ps_send st)" "he_Kind e = ''publish''" for e
  proof -
    from that(1) v have "authorized c ?al e" by (auto simp: send_inv_def list_all_iff)
    with that(2) pend sel show ?thesis by (auto simp: authorized_def exceeds_authority_def)
  qed
  have "distinct_ids ordered" using cat(4) mord by (rule distinct_ids_mset)
  show thesis
  proof (rule that [OF c inv _ pay])
    show "e \<in> set (ps_send st)" if "e \<in> set (pi_History inp)" "he_ID e \<notin> he_ID ` set (pi_Accepted inp)"
      "he_BranchID e \<in> pb_BranchID ` set (pp_Authority plan)" for e
      using that cat(5) by (intro in_send sel) (auto simp: auth)
    show "distinct_ids (filter (\<lambda>e. he_Kind e = ''publish'') ordered)"
      using \<open>distinct_ids ordered\<close> by (auto simp: distinct_ids_def distinct_map inj_on_def)
  qed (use pubs in_send anc ord in auto)
qed

lemma proof_needed:
  assumes "publication_needs c e \<noteq> []"
  obtains p where "p \<in> set (cat_all c)" "publicationProof e p" "he_ID p \<in> set (publication_needs c e)"
proof -
  let ?ps = "filter (publicationProof e) (cat_all c)"
  have "?ps \<noteq> []"
  proof
    assume "?ps = []"
    then have "publication_needs c e = []" by (simp only: publication_needs_def list.map concat.simps)
    with assms show False ..
  qed
  then obtain p where "p \<in> set ?ps" by (meson hd_in_set)
  then show thesis by (intro that [of p]) (auto simp: publication_needs_def)
qed

lemma valid_event_id:
  assumes "ValidateHistoryEvent e = None"
  shows "he_ID e \<noteq> []"
proof -
  have "length (he_ID e) = 32" using assms by (simp add: ValidateHistoryEvent_def)
  then show ?thesis by auto
qed

lemma sent_ids_nonempty:
  assumes "indexPublicationHistory repo events accepted = Inr c" "send_inv c allowed st"
  shows "[] \<notin> sent_ids st"
proof -
  have "he_ID e \<noteq> []" if "e \<in> set (ps_send st)" for e
  proof -
    have "e \<in> set (cat_all c)" using assms(2) that by (simp add: send_inv_def list_all_iff authorized_def)
    then show ?thesis using indexPublicationHistory_spec(6) [OF assms(1)] valid_event_id by blast
  qed
  then show ?thesis unfolding sent_ids_def by force
qed

lemma payload_closed:
  assumes c: "indexPublicationHistory repo events accepted = Inr c" and inv: "send_inv c allowed st"
    and sent: "set sent = set (ps_send st)" and split: "sent = xs @ e # ys"
    and deps: "\<And>ds. ps_edges st (he_ID e) = Some ds \<Longrightarrow> set ds \<subseteq> set (cat_accepted c) \<union> he_ID ` set xs"
  shows "set (HistoryDependencies e) \<subseteq> he_ID ` (set accepted \<union> set xs) \<and>
         (he_Kind e = ''publish'' \<longrightarrow> (\<exists>p \<in> set accepted \<union> set xs. publicationProof e p))"
proof -
  note cat = indexPublicationHistory_spec [OF c]
  have known_event: "x \<in> set (cat_all c)" if "x \<in> set (ps_send st)" for x
    using inv that by (simp add: send_inv_def list_all_iff authorized_def)
  have "e \<in> set (ps_send st)" using sent split by auto
  then obtain ds where ds: "ps_edges st (he_ID e) = Some ds" "set (HistoryDependencies e) \<subseteq> set ds"
    "he_Kind e = ''publish'' \<longrightarrow> publication_needs c e \<noteq> [] \<and> set (publication_needs c e) - {[]} \<subseteq> set ds"
    by (rule sent_justified [OF inv])
  note sub = deps [OF ds(1), unfolded cat(3) set_map]
  have known: "x \<in> set accepted \<union> set xs" if "he_ID x \<in> set ds" "x \<in> set (cat_all c)" for x
  proof -
    from sub that(1) have "he_ID x \<in> he_ID ` (set accepted \<union> set xs)" unfolding image_Un by (rule subsetD)
    then obtain y where y: "he_ID x = he_ID y" "y \<in> set accepted \<union> set xs" by (rule imageE)
    have "set xs \<subseteq> set (ps_send st)" using sent split by auto
    then have "y \<in> set (cat_all c)" using y(2) cat(2) known_event by blast
    with y(1) that(2) have "y = x" by (intro inj_onD [OF distinct_ids_inj [OF cat(1)]]) simp_all
    with y(2) show ?thesis by simp
  qed
  have "\<exists>p \<in> set accepted \<union> set xs. publicationProof e p" if pub: "he_Kind e = ''publish''"
  proof -
    from ds(3) pub have "publication_needs c e \<noteq> []" by blast
    then obtain p where p: "p \<in> set (cat_all c)" "publicationProof e p" "he_ID p \<in> set (publication_needs c e)"
      by (rule proof_needed)
    moreover have "he_ID p \<noteq> []" using cat(6) [OF p(1)] valid_event_id by blast
    ultimately have "he_ID p \<in> set ds" using ds(3) pub by blast
    with known p show ?thesis by blast
  qed
  moreover have "set (HistoryDependencies e) \<subseteq> he_ID ` (set accepted \<union> set xs)"
    unfolding image_Un by (rule subset_trans [OF ds(2) sub])
  ultimately show ?thesis by blast
qed

text \<open>
  C14: The history a selected publication uploads is exactly authorised and self-contained. Every
  event sent is a local event the server has not accepted, is never a server-made PR merge, and
  belongs to an authorised branch unless it is a mere observation; every unaccepted local event of an
  authorised branch is sent; no operation is sent twice; the dependencies of each event are accepted
  or sent before it, and so is an exact ordinary proof of each completion.
\<close>

theorem PlanPublication_payload:
  assumes "PlanPublication inp = Inr plan"
  shows "distinct (map he_ID (pp_HistoryToSend plan)) \<and>
     (\<forall>e \<in> set (pp_HistoryToSend plan). e \<in> set (pi_History inp) \<and>
        he_ID e \<notin> he_ID ` set (pi_Accepted inp) \<and> he_Kind e \<noteq> ''pr-merge'' \<and>
        (he_BranchID e \<in> pb_BranchID ` set (pp_Authority plan) \<or> is_observation e)) \<and>
     {e \<in> set (pi_History inp). he_ID e \<notin> he_ID ` set (pi_Accepted inp) \<and>
        he_BranchID e \<in> pb_BranchID ` set (pp_Authority plan)} \<subseteq> set (pp_HistoryToSend plan) \<and>
     (\<forall>xs e ys. pp_HistoryToSend plan = xs @ e # ys \<longrightarrow>
        set (HistoryDependencies e) \<subseteq> he_ID ` (set (pi_Accepted inp) \<union> set xs) \<and>
        (he_Kind e = ''publish'' \<longrightarrow> (\<exists>p \<in> set (pi_Accepted inp) \<union> set xs. publicationProof e p)))"
proof -
  from assms obtain c st ordered where
    c: "indexPublicationHistory (pi_RepoID inp) (sort_key event_key (pi_History inp)) (pi_Accepted inp) = Inr c"
    and inv: "send_inv c (map pb_BranchID (pp_Authority plan)) st"
    and all: "\<And>e. e \<in> set (pi_History inp) \<Longrightarrow> he_ID e \<notin> he_ID ` set (pi_Accepted inp) \<Longrightarrow>
       he_BranchID e \<in> pb_BranchID ` set (pp_Authority plan) \<Longrightarrow> e \<in> set (ps_send st)"
    and pay: "plan_payload ordered st = Inr (pp_HistoryToSend plan)"
    and pubs: "distinct_ids (filter (\<lambda>e. he_Kind e = ''publish'') ordered)"
      "set (filter (\<lambda>e. he_Kind e = ''publish'') ordered) = {e \<in> set (ps_send st). he_Kind e = ''publish''}"
    by (rule plan_state) (rule that)
  note cat = indexPublicationHistory_spec [OF c]
  have auth: "authorized c (map pb_BranchID (pp_Authority plan)) e" if "e \<in> set (ps_send st)" for e
    using inv that by (simp add: send_inv_def list_all_iff)
  obtain ord :: "HistoryEvent list" where "list_all (\<lambda>e. he_Kind e \<noteq> ''publish'') ord"
    and sent: "set (pp_HistoryToSend plan) = set (ps_send st)" "distinct_ids (pp_HistoryToSend plan)"
    and deps: "\<And>xs e ys deps. pp_HistoryToSend plan = xs @ e # ys \<Longrightarrow> ps_edges st (he_ID e) = Some deps \<Longrightarrow>
       set deps \<subseteq> set (cat_accepted c) \<union> he_ID ` set xs"
    by (rule plan_payload_spec [OF pay inv sent_ids_nonempty [OF c inv] pubs]) (rule that)
  have "e \<in> set (pi_History inp) \<and> he_ID e \<notin> he_ID ` set (pi_Accepted inp) \<and> he_Kind e \<noteq> ''pr-merge'' \<and>
      (he_BranchID e \<in> pb_BranchID ` set (pp_Authority plan) \<or> is_observation e)" if "e \<in> set (pp_HistoryToSend plan)" for e
    using auth [of e] that sent(1) cat(2,3) by (auto simp: authorized_def exceeds_authority_def is_observation_def)
  moreover have "{e \<in> set (pi_History inp). he_ID e \<notin> he_ID ` set (pi_Accepted inp) \<and>
      he_BranchID e \<in> pb_BranchID ` set (pp_Authority plan)} \<subseteq> set (pp_HistoryToSend plan)"
    using all sent(1) by blast
  moreover have "set (HistoryDependencies e) \<subseteq> he_ID ` (set (pi_Accepted inp) \<union> set xs) \<and>
      (he_Kind e = ''publish'' \<longrightarrow> (\<exists>p \<in> set (pi_Accepted inp) \<union> set xs. publicationProof e p))"
    if "pp_HistoryToSend plan = xs @ e # ys" for xs e ys
    using payload_closed [OF c inv sent(1) that deps [OF that]] .
  ultimately show ?thesis using sent(2) unfolding distinct_ids_def by blast
qed

text \<open>A plan for one branch: its birth, a position that proves a completion, and the completion.\<close>

definition sample_proof :: HistoryEvent where
  "sample_proof = (sample_publish (CHR ''7'') (CHR ''b''))\<lparr>he_Kind := ''position''\<rparr>"

definition sample_input :: PublicationPlanInput where
  "sample_input =
     \<lparr>pi_RepoID = he_RepoID sample_birth, pi_ContextProtocol = 1, pi_Ref = [],
      pi_Branches = [\<lparr>pb_Branch = ''topic'', pb_BranchID = ''b1''\<rparr>], pi_HistoryOnly = False,
      pi_ExpectedTargets = [(''b1'', sample_hash (CHR ''b''))],
      pi_Refs = [\<lparr>ref_BranchID = ''b1'', ref_Kind = ''branch'', ref_Name = ''topic'',
                  ref_RepoID = he_RepoID sample_birth, ref_Target = sample_hash (CHR ''b''), ref_Symbolic = []\<rparr>],
      pi_History = [sample_publish (CHR ''5'') (CHR ''b''), sample_proof, sample_birth],
      pi_Accepted = [sample_birth], pi_Snapshots = []\<rparr>"

definition sample_plan :: PublicationPlan where
  "sample_plan =
     \<lparr>pp_Authority = pi_Branches sample_input,
      pp_HistoryToSend = [sample_proof, sample_publish (CHR ''5'') (CHR ''b'')],
      pp_RefsToPush = pi_Refs sample_input, pp_SnapshotRoots = [sample_hash (CHR ''b'')]\<rparr>"

lemma sample_plan_eval: "PlanPublication sample_input = Inr sample_plan"
  by code_simp

theorem PlanPublication_payload_witness:
  "PlanPublication sample_input = Inr sample_plan \<and> distinct (map he_ID (pp_HistoryToSend sample_plan)) \<and>
   (\<exists>p \<in> {sample_birth, sample_proof}. publicationProof (sample_publish (CHR ''5'') (CHR ''b'')) p)"
proof -
  note claim = PlanPublication_payload [OF sample_plan_eval]
  have "pp_HistoryToSend sample_plan = [sample_proof] @ sample_publish (CHR ''5'') (CHR ''b'') # []"
    by (simp add: sample_plan_def)
  moreover have "he_Kind (sample_publish (CHR ''5'') (CHR ''b'')) = ''publish''" by (simp add: sample_publish_def)
  ultimately have "\<exists>p \<in> set (pi_Accepted sample_input) \<union> set [sample_proof].
      publicationProof (sample_publish (CHR ''5'') (CHR ''b'')) p"
    using claim by blast
  moreover have "set (pi_Accepted sample_input) \<union> set [sample_proof] = {sample_birth, sample_proof}"
    by (simp add: sample_input_def insert_commute)
  ultimately have "\<exists>p \<in> {sample_birth, sample_proof}. publicationProof (sample_publish (CHR ''5'') (CHR ''b'')) p"
    by (simp only:)
  with sample_plan_eval claim show ?thesis by blast
qed

text \<open>
  C15: Completions come last, in the order of the completion policy. The payload is a block of
  ordinary events followed by a block of completions; among the completions of one branch identity
  at one Git revision the first reaches the targets of all others, and none is followed by one whose
  target descends from its own. The server, which binds the first completion it sees, thus binds
  the maximal snapshot.
\<close>

theorem PlanPublication_completions:
  assumes "PlanPublication inp = Inr plan"
  shows "\<exists>ordinary completions. pp_HistoryToSend plan = ordinary @ completions \<and>
     list_all (\<lambda>e. he_Kind e \<noteq> ''publish'') ordinary \<and> list_all (\<lambda>e. he_Kind e = ''publish'') completions \<and>
     (\<forall>k. let grp = filter (\<lambda>e. group_key e = k) completions in
        sorted_wrt (\<lambda>a b. he_Target a \<noteq> he_Target b \<longrightarrow>
          (he_Target b, he_Target a) \<notin> (snapshot_edges (pi_Snapshots inp))\<^sup>+) grp \<and>
        list_all (\<lambda>e. (he_Target (hd grp), he_Target e) \<in> (snapshot_edges (pi_Snapshots inp))\<^sup>*) grp)"
proof -
  from assms obtain c st ordered ancestry where
    c: "indexPublicationHistory (pi_RepoID inp) (sort_key event_key (pi_History inp)) (pi_Accepted inp) = Inr c"
    and inv: "send_inv c (map pb_BranchID (pp_Authority plan)) st"
    and pay: "plan_payload ordered st = Inr (pp_HistoryToSend plan)"
    and pubs: "distinct_ids (filter (\<lambda>e. he_Kind e = ''publish'') ordered)"
      "set (filter (\<lambda>e. he_Kind e = ''publish'') ordered) = {e \<in> set (ps_send st). he_Kind e = ''publish''}"
    and anc: "\<exists>roots. publicationAncestry (pi_RepoID inp) (pi_Snapshots inp) roots = Inr ancestry"
    and ord: "\<exists>selected. order_publications c (pi_RepoID inp) selected ancestry = Inr ordered"
    by (rule plan_state) (rule that)
  let ?comp = "filter (\<lambda>e. he_Kind e = ''publish'') ordered"
  obtain ord' where "pp_HistoryToSend plan = ord' @ ?comp" "list_all (\<lambda>e. he_Kind e \<noteq> ''publish'') ord'"
    by (rule plan_payload_spec [OF pay inv sent_ids_nonempty [OF c inv] pubs]) (rule that)
  moreover from anc ord obtain roots selected where
    ao: "publicationAncestry (pi_RepoID inp) (pi_Snapshots inp) roots = Inr ancestry"
      "order_publications c (pi_RepoID inp) selected ancestry = Inr ordered" by blast
  have "filter (\<lambda>e. group_key e = k) ?comp = filter (\<lambda>e. he_Kind e = ''publish'' \<and> group_key e = k) ordered" for k
    by (simp add: conj_commute)
  note publication_groups_descending [OF ao this]
  ultimately show ?thesis unfolding Let_def
    by (intro exI [of _ ord'] exI [of _ ?comp] conjI allI) (auto simp: list_all_iff)
qed

theorem PlanPublication_completions_witness:
  "PlanPublication sample_input = Inr sample_plan \<and>
   (\<exists>ordinary completions. pp_HistoryToSend sample_plan = ordinary @ completions \<and>
     list_all (\<lambda>e. he_Kind e \<noteq> ''publish'') ordinary \<and> list_all (\<lambda>e. he_Kind e = ''publish'') completions)"
  using sample_plan_eval PlanPublication_completions [OF sample_plan_eval] by blast

section \<open>The refs\<close>

lemma plan_refs_spec:
  assumes "plan_refs repo rs refs = Inr out"
    and "\<forall>(n, r) \<in> set refs. r \<in> R \<and> ref_Name r = n" "set rs \<subseteq> R"
  shows "\<forall>(n, r) \<in> set out. r \<in> R \<and> ref_Name r = n"
  using assms
proof (induction rs arbitrary: refs)
  case (Cons r rs)
  from Cons.prems(1) consider "plan_refs repo rs refs = Inr out" | "plan_refs repo rs (refs @ [(ref_Name r, r)]) = Inr out"
    by (auto split: if_splits option.splits)
  then show ?case
  proof cases
    case 1
    from Cons.IH [OF this] Cons.prems(2,3) show ?thesis by simp
  next
    case 2
    from Cons.IH [OF this] Cons.prems(2,3) show ?thesis by simp
  qed
qed simp

definition pushes :: "(string \<times> Ref) list \<Rightarrow> PublicationBranch \<Rightarrow> Ref \<Rightarrow> bool" where
  "pushes refs b r \<longleftrightarrow>
     (\<exists>r0. map_of refs (pb_Branch b) = Some r0 \<and> r = r0\<lparr>ref_BranchID := pb_BranchID b\<rparr> \<and>
           ref_Symbolic r0 = [] \<and> ValidateContentHash (ref_Target r0) = None)"

lemma authorize_pushes:
  "authorize inp events refs projection b = Inr rs \<Longrightarrow>
     (if pi_HistoryOnly inp then rs = [] else \<exists>r. rs = [r] \<and> pushes refs b r)"
  by (auto simp: authorize_def pushes_def split: if_splits option.splits)

lemma plan_authority_spec:
  assumes "plan_authority inp events refs projection bs acc = Inr out"
    and "set (fst acc) \<subseteq> B" "set bs \<subseteq> B"
    and "if pi_HistoryOnly inp then snd acc = [] else list_all2 (pushes refs) (fst acc) (snd acc)"
  shows "set (fst out) \<subseteq> B \<and> (if pi_HistoryOnly inp then snd out = [] else list_all2 (pushes refs) (fst out) (snd out))"
  using assms
proof (induction bs arbitrary: acc)
  case (Cons b bs)
  from Cons.prems(1) consider "plan_authority inp events refs projection bs acc = Inr out"
    | rs where "authorize inp events refs projection b = Inr rs"
        "plan_authority inp events refs projection bs (fst acc @ [b], snd acc @ rs) = Inr out"
    by (auto split: if_splits option.splits)
  then show ?case
  proof cases
    case 1
    then show ?thesis using Cons.prems by (intro Cons.IH) auto
  next
    case 2
    show ?thesis
      using Cons.prems(2-4) authorize_pushes [OF 2(1)]
      by (intro Cons.IH [OF 2(2)]) (auto intro: list_all2_appendI split: if_splits)
  qed
qed simp

lemma expected_target:
  assumes "check_expected inp refs branches = None" "pi_ExpectedTargets inp \<noteq> []" "b \<in> set branches" "pushes refs b r"
  shows "map_of (pi_ExpectedTargets inp) (pb_BranchID b) = Some (ref_Target r)"
proof -
  have "ValidateContentHash [] \<noteq> None" by code_simp
  with assms show ?thesis
    by (auto simp: check_expected_def pushes_def map_default_def Let_def split: option.splits)
qed



text \<open>
  C17: Planning always comes to an end: the recursion of the visit never exceeds the number of known
  events (an event under visit is refused as a cycle when it is met again), so the visit returns a
  plan or a genuine error for every catalogue and every selection of events.
\<close>

theorem visit_terminates:
  "visit_all (visit (Suc (length (cat_all c))) c allowed []) events st \<noteq> Inl OutOfFuel \<and>
   orderPublicationDependencies sent edges ordinary \<noteq> Inl OutOfFuel"
proof
  have "card (he_ID ` set (cat_all c)) \<le> length (cat_all c)"
    by (metis card_image_le card_length List.finite_set le_trans)
  then show "visit_all (visit (Suc (length (cat_all c))) c allowed []) events st \<noteq> Inl OutOfFuel"
    by (intro visit_all_total visit_total) simp_all
  obtain ix where "kahn never (\<lambda>i. i) [0..<length sent] (publication_children sent edges) = Done ix"
    using pubo.kahn_total by blast
  from kahn_stop [OF this, of "\<lambda>i out. ordinary \<le> i \<and> length out < ordinary"]
  show "orderPublicationDependencies sent edges ordinary \<noteq> Inl OutOfFuel"
    by (simp add: orderPublicationDependencies_def)
qed

end
