(* ===== verification/Json.thy ===== *)
theory Json
  imports Refs
begin

text \<open>
  The part of Go's \<open>encoding/json\<close> the sources hash: \<open>json.Marshal\<close> of structs of strings,
  integers, booleans, slices and pointers. A value is first turned into a \<open>json\<close> tree (a struct is an
  object with its fields in order of declaration, a nil pointer or nil slice is null, a field tagged
  \<open>omitempty\<close> is left out when empty, a \<open>json.Number\<close> or an already compact \<open>json.RawMessage\<close> is copied) and then printed without white space (decimal numbers as in theory \<open>Refs\<close>). Strings are escaped as
  Go does by default: quotes, backslashes, control characters, the three HTML characters, the line
  separators U+2028 and U+2029, and the replacement of bytes that are not valid UTF-8.
\<close>

datatype json =
    JNull
  | JBool bool
  | JInt int
  | JRaw string
  | JStr string
  | JArr "json list"
  | JObj "(string \<times> json) list"

section \<open>Strings\<close>

definition escape_ascii :: "char \<Rightarrow> string" where
  "escape_ascii c =
     (let n = (of_char c :: nat) in
      if n = 34 \<or> n = 92 then [CHR 0x5C, c]
      else if n = 8 then [CHR 0x5C, CHR ''b'']
      else if n = 12 then [CHR 0x5C, CHR ''f'']
      else if n = 10 then [CHR 0x5C, CHR ''n'']
      else if n = 13 then [CHR 0x5C, CHR ''r'']
      else if n = 9 then [CHR 0x5C, CHR ''t'']
      else if n < 32 \<or> n = 60 \<or> n = 62 \<or> n = 38
        then [CHR 0x5C, CHR ''u'', CHR ''0'', CHR ''0'', hex_digit (n div 16), hex_digit (n mod 16)]
      else [c])"

definition continuation :: "nat \<Rightarrow> nat \<Rightarrow> char \<Rightarrow> bool" where
  "continuation lo hi c \<longleftrightarrow> lo \<le> (of_char c :: nat) \<and> (of_char c :: nat) \<le> hi"

text \<open>
  The length of the UTF-8 sequence at the head of a string; 0 when it is not valid. The first byte
  decides how many bytes are needed and which second bytes are allowed.
\<close>

definition utf8_need :: "char \<Rightarrow> nat" where
  "utf8_need c =
     (let b = (of_char c :: nat) in
      if b < 0x80 then 1 else if b < 0xC2 then 0 else if b < 0xE0 then 2
      else if b < 0xF0 then 3 else if b < 0xF5 then 4 else 0)"

definition utf8_second :: "char \<Rightarrow> char \<Rightarrow> bool" where
  "utf8_second c d =
     (let b = (of_char c :: nat) in
      continuation (if b = 0xE0 then 0xA0 else if b = 0xF0 then 0x90 else 0x80)
        (if b = 0xED then 0x9F else if b = 0xF4 then 0x8F else 0xBF) d)"

definition utf8_length :: "string \<Rightarrow> nat" where
  "utf8_length s =
     (case s of
        [] \<Rightarrow> 0
      | c # rest \<Rightarrow>
          if utf8_need c \<le> 1 then utf8_need c
          else if length rest < utf8_need c - 1 then 0
          else if utf8_second c (hd rest) \<and> list_all (continuation 0x80 0xBF) (take (utf8_need c - 2) (tl rest))
            then utf8_need c else 0)"

function escape :: "string \<Rightarrow> string" where
  "escape [] = []"
| "escape (c # rest) =
     (if (of_char c :: nat) < 0x80 then escape_ascii c @ escape rest
      else if utf8_length (c # rest) = 0 then CHR 0x5C # ''ufffd'' @ escape rest
      else let run = c # take (utf8_length (c # rest) - 1) rest;
               rest' = drop (utf8_length (c # rest) - 1) rest
           in (if run = [CHR 0xE2, CHR 0x80, CHR 0xA8] then CHR 0x5C # ''u2028''
               else if run = [CHR 0xE2, CHR 0x80, CHR 0xA9] then CHR 0x5C # ''u2029''
               else run) @ escape rest')"
  by pat_completeness auto

termination
  by (relation "measure length") auto

definition quoted :: "string \<Rightarrow> string" where
  "quoted s = CHR 0x22 # escape s @ [CHR 0x22]"

section \<open>Values\<close>

definition int_text :: "int \<Rightarrow> string" where
  "int_text i = (if i < 0 then CHR ''-'' # decimal (nat (- i)) else decimal (nat i))"

fun comma_separated :: "string list \<Rightarrow> string" where
  "comma_separated [] = []"
| "comma_separated [x] = x"
| "comma_separated (x # y # ys) = x @ CHR '','' # comma_separated (y # ys)"

fun json_text :: "json \<Rightarrow> string" where
  "json_text JNull = ''null''"
| "json_text (JBool b) = (if b then ''true'' else ''false'')"
| "json_text (JInt i) = int_text i"
| "json_text (JRaw s) = s"
| "json_text (JStr s) = quoted s"
| "json_text (JArr xs) = CHR ''['' # comma_separated (map json_text xs) @ '']''"
| "json_text (JObj fs) = CHR 0x7B # comma_separated (map (\<lambda>(k, v). quoted k @ CHR '':'' # json_text v) fs) @ [CHR 0x7D]"

definition slice_json :: "('a \<Rightarrow> json) \<Rightarrow> 'a slice \<Rightarrow> json" where
  "slice_json f s = (case s of None \<Rightarrow> JNull | Some xs \<Rightarrow> JArr (map f xs))"

definition omitempty :: "bool \<Rightarrow> string \<Rightarrow> json \<Rightarrow> (string \<times> json) list" where
  "omitempty absent k v = (if absent then [] else [(k, v)])"

lemma json_text_example:
  "json_text (JObj [(''n'', JInt (- 20)), (''s'', JStr [CHR ''a'', CHR 0x22, CHR ''<'', CHR 0xFF]), (''l'', JArr [JNull, JBool True])]) =
     [CHR 0x7B, CHR 0x22, CHR ''n'', CHR 0x22] @ '':-20,'' @
     [CHR 0x22, CHR ''s'', CHR 0x22, CHR '':'', CHR 0x22, CHR ''a'', CHR 0x5C, CHR 0x22, CHR 0x5C] @ ''u003c'' @ [CHR 0x5C] @ ''ufffd'' @
     [CHR 0x22, CHR '','', CHR 0x22, CHR ''l'', CHR 0x22] @ '':[null,true]'' @ [CHR 0x7D]"
  by code_simp

end
