(* ===== verification/HistoryQuery.thy ===== *)
theory HistoryQuery
  imports Snapshots Events Kahn Json
begin

text \<open>
  Reading history (\<open>cli/internal/domain/history_query.go\<close>): the child-before-parent walk
  \<open>ReachableHistory\<close>, and the validation of a server's answer to a context query, with its page of
  conversation segments.

  \<open>ReachableHistory\<close> works on indices into the snapshot slice, as the source does; the stack has its
  top at the head. Cancellation of the request context is not modelled: the walk is the one of a
  request that is never cancelled. The order of the ready heap is \<open>historyHeap.Less\<close> (newest first,
  then ID), the loop is \<open>kahn\<close> of theory \<open>Kahn\<close> with the parents as successors.
\<close>

section \<open>The reachable history\<close>

definition snapshot_index :: "Snapshot list \<Rightarrow> string \<Rightarrow> nat option" where
  "snapshot_index snapshots i = find (\<lambda>k. sn_ID (snapshots ! k) = i) [0..<length snapshots]"

definition all_parents :: "Snapshot \<Rightarrow> string list" where
  "all_parents s = elems (sn_Parents s) @ elems (sn_GraftParents s)"

lemma snapshot_index_Some:
  "snapshot_index snapshots i = Some k \<Longrightarrow> k < length snapshots \<and> sn_ID (snapshots ! k) = i"
  by (auto simp: snapshot_index_def find_Some_iff)

lemma snapshot_index_None: "snapshot_index snapshots i = None \<longleftrightarrow> i \<notin> sn_ID ` set snapshots"
proof -
  have "sn_ID ` set snapshots = (\<lambda>k. sn_ID (snapshots ! k)) ` {0..<length snapshots}"
    by (metis (no_types, lifting) image_cong image_image image_set map_nth set_upt)
  then show ?thesis unfolding snapshot_index_def find_None_iff by auto
qed

definition unchosen :: "Snapshot list \<Rightarrow> nat list \<Rightarrow> nat" where
  "unchosen snapshots chosen = card ({0..<length snapshots} - set chosen)"

function choose_loop ::
  "Snapshot list \<Rightarrow> nat list \<Rightarrow> string list \<Rightarrow> string list \<Rightarrow> nat list \<times> string list" where
  "choose_loop snapshots chosen missing [] = (chosen, missing)"
| "choose_loop snapshots chosen missing (i # stack) =
     (case snapshot_index snapshots i of
        None \<Rightarrow> choose_loop snapshots chosen (List.insert i missing) stack
      | Some k \<Rightarrow>
          if k \<in> set chosen then choose_loop snapshots chosen missing stack
          else choose_loop snapshots (k # chosen) missing (rev (all_parents (snapshots ! k)) @ stack))"
  by pat_completeness auto

termination
proof (relation "measures [\<lambda>(snapshots, chosen, _, _). unchosen snapshots chosen, \<lambda>(_, _, _, stack). length stack]")
  fix snapshots chosen missing and i :: string and stack k
  assume "snapshot_index snapshots i = Some k" "k \<notin> set chosen"
  then have "k \<in> {0..<length snapshots} - set chosen" using snapshot_index_Some by fastforce
  moreover have "{0..<length snapshots} - set (k # chosen) = ({0..<length snapshots} - set chosen) - {k}" by auto
  ultimately have "unchosen snapshots (k # chosen) < unchosen snapshots chosen"
    unfolding unchosen_def by (simp only: card_Diff1_less finite_Diff finite_atLeastLessThan)
  then show "((snapshots, k # chosen, missing, rev (all_parents (snapshots ! k)) @ stack), snapshots, chosen, missing, i # stack)
      \<in> measures [\<lambda>(snapshots, chosen, _, _). unchosen snapshots chosen, \<lambda>(_, _, _, stack). length stack]"
    by simp
qed auto

definition chosen_parents :: "Snapshot list \<Rightarrow> nat list \<Rightarrow> nat \<Rightarrow> nat list" where
  "chosen_parents snapshots chosen k =
     filter (\<lambda>p. p \<in> set chosen)
       (concat (map (\<lambda>i. case snapshot_index snapshots i of None \<Rightarrow> [] | Some p \<Rightarrow> [p]) (all_parents (snapshots ! k))))"

definition history_key :: "Snapshot \<Rightarrow> int \<times> string" where
  "history_key s = (- instant (sn_CreatedAt s), sn_ID s)"

definition ReachableHistory :: "Snapshot list \<Rightarrow> string list \<Rightarrow> (Snapshot list \<times> string list) result" where
  "ReachableHistory snapshots roots =
     (if \<not> distinct (map sn_ID snapshots) then Inl ErrHashMismatch
      else case choose_loop snapshots [] [] (rev roots) of (chosen, missing) \<Rightarrow>
        let nodes = filter (\<lambda>k. k \<in> set chosen) [0..<length snapshots] in
        case kahn never (\<lambda>k. history_key (snapshots ! k)) nodes (chosen_parents snapshots chosen) of
          Done out \<Rightarrow> if length out \<noteq> length nodes then Inl ErrHashMismatch
                      else Inr (map ((!) snapshots) out, sort missing)
        | _ \<Rightarrow> Inl OutOfFuel)"

section \<open>Context queries\<close>

record ContextSelection =
  cs_SegmentLimit :: int
  cs_SegmentOffset :: int
  cs_SegmentStateHash :: string
  cs_CodeCommit :: string
  cs_Branch :: string
  cs_Position :: string
  cs_Scope :: string

record BranchContextMerge =
  bm_DeliveryAcknowledged :: bool
  bm_DestinationBranchID :: string
  bm_EventID :: string
  bm_Source :: string
  bm_Before :: string
  bm_MergeSHA :: string
  bm_PRNumber :: int
  bm_State :: string
  bm_Reason :: string
  bm_Order :: int

record BranchContext =
  bc_BranchID :: string
  bc_SnapshotID :: string
  bc_CodeCommit :: string
  bc_Reason :: string
  bc_Merges :: "BranchContextMerge list"
  bc_Roots :: "string list"
  bc_SnapshotIDs :: "string list"

record ConversationSegment =
  seg_ID :: string
  seg_RepoID :: string
  seg_DocHash :: string
  seg_Provider :: string
  seg_SessionID :: string
  seg_EventStart :: int
  seg_EventEnd :: int

record CommitContextBinding =
  ccb_EventID :: string
  ccb_GitCommit :: string
  ccb_BranchID :: string
  ccb_WorktreeID :: string
  ccb_SegmentIDs :: "string slice"

record ContextSegmentCoverage =
  cov_SnapshotID :: string
  cov_Segment :: "ConversationSegment option"
  cov_Bindings :: "CommitContextBinding slice"
  cov_Kind :: string
  cov_Reason :: string
  cov_TotalEvents :: int
  cov_BaselineSnapshotID :: string
  cov_BaselineDocHash :: string

record ContextSegmentPage =
  page_Version :: int
  page_StateHash :: string
  page_PageHash :: string
  page_Offset :: int
  page_Next :: int
  page_Total :: int
  page_Complete :: bool
  page_Entries :: "ContextSegmentCoverage slice"

record RepositoryRevision =
  rev_Evidence :: "64 word"
  rev_Graph :: "64 word"
  rev_Pending :: "64 word"

record ContextQueryView =
  cq_Segments :: "ContextSegmentPage option"
  cq_Revision :: RepositoryRevision
  cq_Version :: int
  cq_Branch :: string
  cq_StateHash :: string
  cq_DeliveryStateHash :: string
  cq_Position :: string
  cq_Snapshots :: "Snapshot list"
  cq_History :: "HistoryEvent list"
  cq_Inclusion :: "BranchContext option"

definition segment_json :: "ConversationSegment \<Rightarrow> json" where
  "segment_json s = JObj
     [(''id'', JStr (seg_ID s)), (''repo_id'', JStr (seg_RepoID s)), (''doc_hash'', JStr (seg_DocHash s)),
      (''provider'', JStr (seg_Provider s)), (''session_id'', JStr (seg_SessionID s)),
      (''event_start'', JInt (seg_EventStart s)), (''event_end'', JInt (seg_EventEnd s))]"

definition binding_json :: "CommitContextBinding \<Rightarrow> json" where
  "binding_json b = JObj
     ([(''event_id'', JStr (ccb_EventID b)), (''git_commit'', JStr (ccb_GitCommit b)), (''branch_id'', JStr (ccb_BranchID b))] @
      omitempty (ccb_WorktreeID b = []) ''worktree_id'' (JStr (ccb_WorktreeID b)) @
      [(''segment_ids'', slice_json JStr (ccb_SegmentIDs b))])"

definition coverage_json :: "ContextSegmentCoverage \<Rightarrow> json" where
  "coverage_json e = JObj
     ([(''snapshot_id'', JStr (cov_SnapshotID e))] @
      (case cov_Segment e of None \<Rightarrow> [] | Some s \<Rightarrow> [(''segment'', segment_json s)]) @
      [(''bindings'', slice_json binding_json (cov_Bindings e)), (''kind'', JStr (cov_Kind e)),
       (''reason'', JStr (cov_Reason e)), (''total_events'', JInt (cov_TotalEvents e))] @
      omitempty (cov_BaselineSnapshotID e = []) ''baseline_snapshot_id'' (JStr (cov_BaselineSnapshotID e)) @
      omitempty (cov_BaselineDocHash e = []) ''baseline_doc_hash'' (JStr (cov_BaselineDocHash e)))"

definition page_json :: "ContextSegmentPage \<Rightarrow> json" where
  "page_json p = JObj
     [(''version'', JInt (page_Version p)), (''state_hash'', JStr (page_StateHash p)), (''page_hash'', JStr (page_PageHash p)),
      (''offset'', JInt (page_Offset p)), (''next'', JInt (page_Next p)), (''total'', JInt (page_Total p)),
      (''complete'', JBool (page_Complete p)), (''entries'', slice_json coverage_json (page_Entries p))]"

definition ContextSegmentID :: "ConversationSegment \<Rightarrow> string" where
  "ContextSegmentID segment =
     HashContent (json_text (JObj [(''Version'', JInt 1), (''Segment'', segment_json (segment\<lparr>seg_ID := []\<rparr>))]))"

definition ContextSegmentPageHash :: "ContextSegmentPage \<Rightarrow> string" where
  "ContextSegmentPageHash page = HashContent (json_text (page_json (page\<lparr>page_PageHash := []\<rparr>)))"

definition MaxContextSegmentPage :: int where
  "MaxContextSegmentPage = 50"

definition ValidateContextSegmentSelection :: "ContextSelection \<Rightarrow> check" where
  "ValidateContextSegmentSelection sel = first_error
     [fail_if (cs_SegmentLimit sel < 0 \<or> MaxContextSegmentPage < cs_SegmentLimit sel \<or> cs_SegmentOffset sel < 0 \<or>
               (cs_SegmentLimit sel = 0 \<and> (cs_SegmentOffset sel \<noteq> 0 \<or> cs_SegmentStateHash sel \<noteq> [])))
        (ErrText ''invalid_arguments: segment_limit must be 1..50 for paged segments''),
      fail_if (0 < cs_SegmentOffset sel \<and> cs_SegmentStateHash sel = [])
        (ErrText ''invalid_arguments: segment continuation requires segment_state_hash''),
      ValidateOptionalContentHash (cs_SegmentStateHash sel)]"

definition contextOperationID :: "string \<Rightarrow> bool" where
  "contextOperationID i \<longleftrightarrow> length i = 32 \<and> list_all is_lower_hex i"

definition check_envelope :: "ContextSelection \<Rightarrow> ContextQueryView \<Rightarrow> ContextSegmentPage \<Rightarrow> check" where
  "check_envelope sel out page =
     (let n = int (length (elems (page_Entries page))); end = page_Offset page + n in first_error
      [fail_if (page_Version page \<noteq> 1) (ErrText ''unsupported context segment version''),
       fail_if (ValidateContentHash (page_StateHash page) \<noteq> None \<or> page_StateHash page \<noteq> cq_StateHash out \<or>
                ValidateContentHash (page_PageHash page) \<noteq> None) ErrHashMismatch,
       fail_if (cs_SegmentStateHash sel \<noteq> [] \<and> page_StateHash page \<noteq> cs_SegmentStateHash sel) ErrSelectionChanged,
       fail_if (page_Offset page < 0 \<or> n \<noteq> int (length (cq_Snapshots out)) \<or> page_Total page < page_Offset page \<or>
                MaxContextSegmentPage < n \<or> page_Total page - page_Offset page < n) ErrHashMismatch,
       fail_if (0 < cs_SegmentLimit sel \<and>
                (page_Offset page \<noteq> cs_SegmentOffset sel \<or> n \<noteq> min (cs_SegmentLimit sel) (page_Total page - page_Offset page)))
         ErrHashMismatch,
       fail_if (if end = page_Total page then page_Next page \<noteq> -1 \<or> \<not> page_Complete page
                else n = 0 \<or> page_Next page \<noteq> end \<or> page_Complete page) ErrHashMismatch,
       fail_if (ContextSegmentPageHash page \<noteq> page_PageHash page) ErrHashMismatch])"

definition check_segment :: "string \<Rightarrow> Snapshot \<Rightarrow> ContextSegmentCoverage \<Rightarrow> ConversationSegment \<Rightarrow> check" where
  "check_segment repo snap entry s =
     fail_if (seg_RepoID s \<noteq> repo \<or> seg_DocHash s \<noteq> sn_DocHash snap \<or> ValidateContentHash (seg_DocHash s) \<noteq> None \<or>
              ValidateContentHash (seg_ID s) \<noteq> None \<or> seg_EventStart s < 0 \<or> seg_EventEnd s < seg_EventStart s \<or>
              seg_EventEnd s \<noteq> cov_TotalEvents entry \<or> seg_ID s \<noteq> ContextSegmentID s) ErrHashMismatch"

text \<open>The baseline of a verified prefix: the snapshot on this page, or the recorded identity.\<close>

definition baseline :: "Snapshot list \<Rightarrow> ContextSegmentCoverage \<Rightarrow> string \<times> string" where
  "baseline snapshots entry =
     (case find (\<lambda>s. sn_ID s = cov_BaselineSnapshotID entry) (rev snapshots) of
        Some s \<Rightarrow> (sn_ID s, sn_DocHash s)
      | None \<Rightarrow> (cov_BaselineSnapshotID entry, cov_BaselineDocHash entry))"

definition check_coverage :: "string \<Rightarrow> Snapshot list \<Rightarrow> Snapshot \<Rightarrow> ContextSegmentCoverage \<Rightarrow> check" where
  "check_coverage repo snapshots snap entry =
     (if cov_SnapshotID entry \<noteq> sn_ID snap \<or> cov_Reason entry = [] then Some ErrHashMismatch
      else if cov_Kind entry = ''unavailable'' then
        fail_if (cov_Segment entry \<noteq> None \<or> cov_TotalEvents entry \<noteq> -1 \<or> cov_BaselineSnapshotID entry \<noteq> [] \<or>
                 cov_BaselineDocHash entry \<noteq> []) ErrHashMismatch
      else if cov_Kind entry = ''full_source'' \<or> cov_Kind entry = ''verified_prefix'' then
        (case cov_Segment entry of
           None \<Rightarrow> Some ErrHashMismatch
         | Some s \<Rightarrow> first_error
             [check_segment repo snap entry s,
              (if cov_Kind entry = ''full_source''
               then fail_if (seg_EventStart s \<noteq> 0 \<or> cov_BaselineSnapshotID entry \<noteq> [] \<or> cov_BaselineDocHash entry \<noteq> [])
                      ErrHashMismatch
               else let base = baseline snapshots entry in
                 fail_if (ValidateContentHash (fst base) \<noteq> None \<or> fst base = sn_ID snap \<or>
                          snd base \<noteq> cov_BaselineDocHash entry \<or> ValidateContentHash (cov_BaselineDocHash entry) \<noteq> None \<or>
                          elems (sn_Parents snap) \<noteq> [fst base] \<or> elems (cov_Bindings entry) = [] \<or>
                          seg_Provider s = [] \<or> seg_SessionID s = []) ErrHashMismatch)])
      else Some (ErrText ''unsupported segment coverage''))"

fun check_bindings :: "ConversationSegment option \<Rightarrow> CommitContextBinding list \<Rightarrow> string list \<Rightarrow> string list result" where
  "check_bindings seg [] receipts = Inr receipts"
| "check_bindings seg (b # bs) receipts =
     (if \<not> contextOperationID (ccb_EventID b) \<or> ccb_EventID b \<in> set receipts \<or> \<not> ValidGitOID (ccb_GitCommit b) \<or>
         ccb_BranchID b = [] \<or> 128 < length (ccb_BranchID b) \<or>
         (ccb_WorktreeID b \<noteq> [] \<and> \<not> contextOperationID (ccb_WorktreeID b)) \<or>
         elems (ccb_SegmentIDs b) \<noteq> (case seg of None \<Rightarrow> [] | Some s \<Rightarrow> [seg_ID s])
      then Inl ErrHashMismatch
      else check_bindings seg bs (ccb_EventID b # receipts))"

fun check_entries ::
  "string \<Rightarrow> Snapshot list \<Rightarrow> (Snapshot \<times> ContextSegmentCoverage) list \<Rightarrow> string list \<Rightarrow> check" where
  "check_entries repo snapshots [] receipts = None"
| "check_entries repo snapshots ((snap, entry) # rest) receipts =
     (case check_coverage repo snapshots snap entry of
        Some err \<Rightarrow> Some err
      | None \<Rightarrow> (case check_bindings (cov_Segment entry) (elems (cov_Bindings entry)) receipts of
                   Inl err \<Rightarrow> Some err
                 | Inr receipts' \<Rightarrow> check_entries repo snapshots rest receipts'))"

definition ValidateContextSegmentPage :: "string \<Rightarrow> ContextSelection \<Rightarrow> ContextQueryView \<Rightarrow> check" where
  "ValidateContextSegmentPage repo sel out =
     (case cq_Segments out of
        None \<Rightarrow> fail_if (0 < cs_SegmentLimit sel) (ErrText ''unsupported context segment contract: response omitted segments'')
      | Some page \<Rightarrow> first_error
          [check_envelope sel out page,
           check_entries repo (cq_Snapshots out) (zip (cq_Snapshots out) (elems (page_Entries page))) []])"

fun check_snapshots :: "string \<Rightarrow> Snapshot list \<Rightarrow> string list \<Rightarrow> check" where
  "check_snapshots repo [] seen = None"
| "check_snapshots repo (s # ss) seen =
     (if sn_RepoID s \<noteq> repo \<or> ValidateContentHash (sn_ID s) \<noteq> None \<or> sn_ID s \<in> set seen then Some ErrHashMismatch
      else check_snapshots repo ss (sn_ID s # seen))"

definition ValidateContextQuery :: "string \<Rightarrow> ContextSelection \<Rightarrow> ContextQueryView \<Rightarrow> check" where
  "ValidateContextQuery repo sel out = first_error
     [ValidateContextSegmentSelection sel,
      fail_if (cq_Version out \<noteq> 1) (ErrText ''unsupported context query version''),
      fail_if (ValidateContentHash (cq_StateHash out) \<noteq> None \<or> ValidateOptionalContentHash (cq_DeliveryStateHash out) \<noteq> None)
        ErrHashMismatch,
      fail_if (has_prefix ''sha256:'' (cs_Position sel) \<and> cq_Position out \<noteq> cs_Position sel) ErrSelectionChanged,
      check_snapshots repo (cq_Snapshots out) [],
      (case cq_Inclusion out of
         None \<Rightarrow> None
       | Some inc \<Rightarrow> first_error
           [fail_if (cs_CodeCommit sel \<noteq> [] \<and> bc_CodeCommit inc \<noteq> cs_CodeCommit sel) ErrSelectionChanged,
            fail_if (bc_SnapshotIDs inc \<noteq> map sn_ID (cq_Snapshots out)) ErrHashMismatch]),
      ValidateContextSegmentPage repo sel out]"

section \<open>Correctness of the walk\<close>

lemma all_parents_set: "set (all_parents s) = set (ReachabilityParents s)"
  by (simp add: all_parents_def ReachabilityParents_set)

definition ids_at :: "Snapshot list \<Rightarrow> nat list \<Rightarrow> string set" where
  "ids_at snapshots ks = (\<lambda>k. sn_ID (snapshots ! k)) ` set ks"

definition choose_inv ::
  "Snapshot list \<Rightarrow> string set \<Rightarrow> nat list \<Rightarrow> string list \<Rightarrow> string list \<Rightarrow> bool" where
  "choose_inv snapshots roots chosen missing stack \<longleftrightarrow>
     set chosen \<subseteq> {0..<length snapshots} \<and>
     ids_at snapshots chosen \<union> set missing \<union> set stack \<subseteq> (snapshot_edges snapshots)\<^sup>* `` roots \<and>
     roots \<subseteq> ids_at snapshots chosen \<union> set missing \<union> set stack \<and>
     snapshot_edges snapshots `` ids_at snapshots chosen \<subseteq> ids_at snapshots chosen \<union> set missing \<union> set stack \<and>
     set missing \<inter> sn_ID ` set snapshots = {} \<and> distinct missing"

lemma snapshot_edges_at:
  assumes "distinct (map sn_ID snapshots)" "k < length snapshots"
  shows "snapshot_edges snapshots `` {sn_ID (snapshots ! k)} = set (all_parents (snapshots ! k))"
proof -
  have "s = snapshots ! k" if "s \<in> set snapshots" "sn_ID s = sn_ID (snapshots ! k)" for s
    using assms that by (auto simp: distinct_map inj_on_def)
  then show ?thesis using assms(2) nth_mem by (fastforce simp: snapshot_edges_def all_parents_set)
qed

lemma choose_step:
  assumes "choose_inv snapshots roots chosen missing (i # stack)" "distinct (map sn_ID snapshots)"
    "snapshot_index snapshots i = Some k"
  shows "choose_inv snapshots roots (k # chosen) missing (rev (all_parents (snapshots ! k)) @ stack)"
proof -
  let ?E = "snapshot_edges snapshots" and ?C = "ids_at snapshots chosen"
  have k: "k < length snapshots" "sn_ID (snapshots ! k) = i" using snapshot_index_Some [OF assms(3)] by simp_all
  have P: "?E `` {i} = set (all_parents (snapshots ! k))"
    using snapshot_edges_at [OF assms(2) k(1)] unfolding k(2) .
  have C: "ids_at snapshots (k # chosen) = insert i ?C" by (simp add: ids_at_def k(2))
  have inv: "set chosen \<subseteq> {0..<length snapshots}" "insert i (?C \<union> set missing \<union> set stack) \<subseteq> ?E\<^sup>* `` roots"
    "roots \<subseteq> insert i (?C \<union> set missing \<union> set stack)" "?E `` ?C \<subseteq> insert i (?C \<union> set missing \<union> set stack)"
    "set missing \<inter> sn_ID ` set snapshots = {}" "distinct missing"
    using assms(1) by (simp_all add: choose_inv_def)
  have "?E `` {i} \<subseteq> ?E\<^sup>* `` roots"
  proof
    fix p assume "p \<in> ?E `` {i}"
    then have "(i, p) \<in> ?E" by simp
    moreover from inv(2) obtain r where "r \<in> roots" "(r, i) \<in> ?E\<^sup>*" by blast
    ultimately show "p \<in> ?E\<^sup>* `` roots" by (blast intro: rtrancl_into_rtrancl)
  qed
  moreover have "?E `` insert i ?C \<subseteq> insert i ?C \<union> set missing \<union> (?E `` {i} \<union> set stack)"
    using inv(4) by blast
  moreover have "roots \<subseteq> insert i ?C \<union> set missing \<union> (?E `` {i} \<union> set stack)" using inv(3) by blast
  ultimately show ?thesis
    unfolding choose_inv_def C set_append set_rev P [symmetric] using inv(1,2,5,6) k(1) by simp
qed

lemma choose_loop_spec:
  assumes "choose_inv snapshots roots chosen missing stack" "distinct (map sn_ID snapshots)"
    "choose_loop snapshots chosen missing stack = (chosen', missing')"
  shows "choose_inv snapshots roots chosen' missing' []"
  using assms
proof (induction snapshots chosen missing stack rule: choose_loop.induct)
  case (2 snapshots chosen missing i stack)
  show ?case
  proof (cases "snapshot_index snapshots i")
    case None
    then have "choose_inv snapshots roots chosen (List.insert i missing) stack"
      using "2.prems"(1) by (auto simp: choose_inv_def snapshot_index_None)
    with None "2.prems" "2.IH"(1) show ?thesis by simp
  next
    case (Some k)
    show ?thesis
    proof (cases "k \<in> set chosen")
      case True
      then have "i \<in> ids_at snapshots chosen" using snapshot_index_Some [OF Some] by (auto simp: ids_at_def)
      then have "choose_inv snapshots roots chosen missing stack"
        using "2.prems"(1) by (simp add: choose_inv_def insert_absorb)
      with Some True "2.prems" "2.IH"(2) show ?thesis by simp
    next
      case False
      with Some "2.prems" "2.IH"(3) choose_step [OF "2.prems"(1,2) Some] show ?thesis by simp
    qed
  qed
qed simp

lemma choose_loop_reach:
  assumes "distinct (map sn_ID snapshots)" "choose_loop snapshots [] [] (rev roots) = (chosen, missing)"
  shows "set chosen \<subseteq> {0..<length snapshots}" "distinct missing"
    "ids_at snapshots chosen = (snapshot_edges snapshots)\<^sup>* `` set roots \<inter> sn_ID ` set snapshots"
    "set missing = (snapshot_edges snapshots)\<^sup>* `` set roots - sn_ID ` set snapshots"
proof -
  let ?E = "snapshot_edges snapshots" and ?I = "sn_ID ` set snapshots" and ?C = "ids_at snapshots chosen"
  have "choose_inv snapshots (set roots) [] [] (rev roots)" by (auto simp: choose_inv_def ids_at_def)
  from choose_loop_spec [OF this assms] have
    inv: "set chosen \<subseteq> {0..<length snapshots}" "?C \<union> set missing \<subseteq> ?E\<^sup>* `` set roots"
      "set roots \<subseteq> ?C \<union> set missing" "?E `` ?C \<subseteq> ?C \<union> set missing" "set missing \<inter> ?I = {}" "distinct missing"
    by (simp_all add: choose_inv_def)
  show "set chosen \<subseteq> {0..<length snapshots}" "distinct missing" using inv by blast+
  have "?E `` set missing = {}" using inv(5) by (auto simp: snapshot_edges_def)
  with inv(4) have "?E `` (?C \<union> set missing) \<subseteq> ?C \<union> set missing" by (simp add: Image_Un)
  then have "?E\<^sup>* `` (?C \<union> set missing) = ?C \<union> set missing" by (rule Image_closed_trancl)
  moreover have "?E\<^sup>* `` set roots \<subseteq> ?E\<^sup>* `` (?C \<union> set missing)" using inv(3) by (rule Image_mono [OF order_refl])
  ultimately have R: "?E\<^sup>* `` set roots = ?C \<union> set missing" using inv(2) by simp
  have "?C \<subseteq> ?I" using inv(1) by (auto simp: ids_at_def)
  with R inv(5) show "?C = ?E\<^sup>* `` set roots \<inter> ?I" "set missing = ?E\<^sup>* `` set roots - ?I" by auto
qed

lemma chosen_parents_set:
  assumes "distinct (map sn_ID snapshots)" "set chosen \<subseteq> {0..<length snapshots}" "k < length snapshots"
  shows "p \<in> set (chosen_parents snapshots chosen k) \<longleftrightarrow>
    p \<in> set chosen \<and> (sn_ID (snapshots ! k), sn_ID (snapshots ! p)) \<in> snapshot_edges snapshots"
proof -
  have idx: "snapshot_index snapshots i = Some p \<longleftrightarrow> sn_ID (snapshots ! p) = i" if "p \<in> set chosen" for i
  proof
    assume i: "sn_ID (snapshots ! p) = i"
    have p: "p < length snapshots" using that assms(2) by auto
    with i obtain q where q: "snapshot_index snapshots i = Some q"
      using snapshot_index_None [of snapshots i] by (cases "snapshot_index snapshots i") auto
    with snapshot_index_Some [OF q] p i assms(1) have "p = q" by (auto simp: distinct_conv_nth)
    with q show "snapshot_index snapshots i = Some p" by simp
  qed (use snapshot_index_Some in blast)
  have "p \<in> set (chosen_parents snapshots chosen k) \<longleftrightarrow>
      p \<in> set chosen \<and> (\<exists>i \<in> set (all_parents (snapshots ! k)). snapshot_index snapshots i = Some p)"
  proof -
    have "p \<in> set (case x of None \<Rightarrow> [] | Some q \<Rightarrow> [q]) \<longleftrightarrow> x = Some p" for x by (cases x) auto
    then show ?thesis by (auto simp: chosen_parents_def)
  qed
  also have "\<dots> \<longleftrightarrow> p \<in> set chosen \<and> sn_ID (snapshots ! p) \<in> set (all_parents (snapshots ! k))"
    by (cases "p \<in> set chosen") (simp_all add: idx)
  also have "\<dots> \<longleftrightarrow> p \<in> set chosen \<and> sn_ID (snapshots ! p) \<in> snapshot_edges snapshots `` {sn_ID (snapshots ! k)}"
    unfolding snapshot_edges_at [OF assms(1,3)] ..
  finally show ?thesis by simp
qed

definition chosen_nodes :: "Snapshot list \<Rightarrow> nat list \<Rightarrow> nat list" where
  "chosen_nodes snapshots chosen = filter (\<lambda>k. k \<in> set chosen) [0..<length snapshots]"

lemma reachable_graph:
  assumes "distinct (map sn_ID snapshots)" "set chosen \<subseteq> {0..<length snapshots}"
  shows "kahn_graph (chosen_nodes snapshots chosen) (chosen_parents snapshots chosen) (\<lambda>k. history_key (snapshots ! k))"
proof
  show "distinct (chosen_nodes snapshots chosen)" by (simp add: chosen_nodes_def)
  show "set (chosen_parents snapshots chosen k) \<subseteq> set (chosen_nodes snapshots chosen)" for k
    using assms(2) by (auto simp: chosen_parents_def chosen_nodes_def)
  show "inj_on (\<lambda>k. history_key (snapshots ! k)) (set (chosen_nodes snapshots chosen))"
    using assms(1) by (auto simp: inj_on_def history_key_def chosen_nodes_def distinct_conv_nth)
qed

lemma cycle_transfer:
  assumes "distinct (map sn_ID snapshots)" "set chosen \<subseteq> {0..<length snapshots}"
    and closed: "snapshot_edges snapshots `` ids_at snapshots chosen \<inter> sn_ID ` set snapshots \<subseteq> ids_at snapshots chosen"
  shows "acyclic (edge_rel (chosen_nodes snapshots chosen) (chosen_parents snapshots chosen)) \<longleftrightarrow>
    (\<forall>i \<in> ids_at snapshots chosen. (i, i) \<notin> (snapshot_edges snapshots)\<^sup>+)"
proof -
  let ?E = "snapshot_edges snapshots" and ?f = "\<lambda>k. sn_ID (snapshots ! k)"
  let ?G = "edge_rel (chosen_nodes snapshots chosen) (chosen_parents snapshots chosen)"
  have G: "(k, p) \<in> ?G \<longleftrightarrow> k \<in> set chosen \<and> p \<in> set chosen \<and> (?f k, ?f p) \<in> ?E" for k p
  proof (cases "k \<in> set chosen")
    case True
    then have "k < length snapshots" using assms(2) by auto
    with True chosen_parents_set [OF assms(1,2)] show ?thesis by (simp add: edge_rel_def chosen_nodes_def)
  qed (simp add: edge_rel_def chosen_nodes_def)
  have inj: "k = p" if "k \<in> set chosen" "p \<in> set chosen" "?f k = ?f p" for k p
  proof -
    have "k < length snapshots" "p < length snapshots" using that(1,2) assms(2) by auto
    with that(3) assms(1) show ?thesis by (auto simp: distinct_conv_nth)
  qed
  have down: "(?f k, ?f p) \<in> ?E\<^sup>+ \<and> k \<in> set chosen" if "(k, p) \<in> ?G\<^sup>+" for k p
    using that by (induction rule: trancl_induct) (auto simp: G intro: trancl_into_trancl)
  have up: "y \<in> sn_ID ` set snapshots \<longrightarrow> (\<exists>p. p \<in> set chosen \<and> ?f p = y \<and> (k, p) \<in> ?G\<^sup>+)"
    if "(x, y) \<in> ?E\<^sup>+" "x = ?f k" "k \<in> set chosen" for x y k
    using that
  proof (induction rule: trancl_induct)
    case (base y)
    show ?case
    proof
      assume "y \<in> sn_ID ` set snapshots"
      with base closed have "y \<in> ids_at snapshots chosen" by (auto simp: ids_at_def)
      then obtain p where "p \<in> set chosen" "?f p = y" by (auto simp: ids_at_def)
      with base G show "\<exists>p. p \<in> set chosen \<and> ?f p = y \<and> (k, p) \<in> ?G\<^sup>+" by blast
    qed
  next
    case (step y z)
    from step.hyps(2) have "y \<in> sn_ID ` set snapshots" by (auto simp: snapshot_edges_def)
    with step obtain p where p: "p \<in> set chosen" "?f p = y" "(k, p) \<in> ?G\<^sup>+" by blast
    show ?case
    proof
      assume "z \<in> sn_ID ` set snapshots"
      with p step.hyps(2) closed have "z \<in> ids_at snapshots chosen" by (auto simp: ids_at_def)
      then obtain q where q: "q \<in> set chosen" "?f q = z" by (auto simp: ids_at_def)
      with p step.hyps(2) have "(p, q) \<in> ?G" by (simp add: G)
      with p(3) q show "\<exists>p. p \<in> set chosen \<and> ?f p = z \<and> (k, p) \<in> ?G\<^sup>+" by (blast intro: trancl_into_trancl)
    qed
  qed
  show ?thesis
  proof
    assume ac: "acyclic ?G"
    show "\<forall>i \<in> ids_at snapshots chosen. (i, i) \<notin> ?E\<^sup>+"
    proof (intro ballI notI)
      fix i assume "i \<in> ids_at snapshots chosen" "(i, i) \<in> ?E\<^sup>+"
      moreover from this obtain k where k: "k \<in> set chosen" "i = ?f k" by (auto simp: ids_at_def)
      moreover have "i \<in> sn_ID ` set snapshots" using k assms(2) by auto
      ultimately obtain p where "p \<in> set chosen" "?f p = ?f k" "(k, p) \<in> ?G\<^sup>+" using up by blast
      with inj k(1) ac show False by (auto simp: acyclic_def)
    qed
  next
    assume "\<forall>i \<in> ids_at snapshots chosen. (i, i) \<notin> ?E\<^sup>+"
    then show "acyclic ?G" using down unfolding acyclic_def ids_at_def by blast
  qed
qed

lemma ReachableHistory_parts:
  assumes "distinct (map sn_ID snapshots)"
  obtains chosen missing out where
    "choose_loop snapshots [] [] (rev roots) = (chosen, missing)"
    "kahn_graph (chosen_nodes snapshots chosen) (chosen_parents snapshots chosen) (\<lambda>k. history_key (snapshots ! k))"
    "kahn never (\<lambda>k. history_key (snapshots ! k)) (chosen_nodes snapshots chosen) (chosen_parents snapshots chosen) = Done out"
    "ReachableHistory snapshots roots =
       (if \<forall>i \<in> (snapshot_edges snapshots)\<^sup>* `` set roots. (i, i) \<notin> (snapshot_edges snapshots)\<^sup>+
        then Inr (map ((!) snapshots) out, sort missing) else Inl ErrHashMismatch)"
    "(\<forall>i \<in> (snapshot_edges snapshots)\<^sup>* `` set roots. (i, i) \<notin> (snapshot_edges snapshots)\<^sup>+) \<longrightarrow>
       set out = set (chosen_nodes snapshots chosen)"
proof -
  let ?E = "snapshot_edges snapshots"
  obtain chosen missing where c: "choose_loop snapshots [] [] (rev roots) = (chosen, missing)"
    by (cases "choose_loop snapshots [] [] (rev roots)")
  note cr = choose_loop_reach [OF assms c]
  note graph = reachable_graph [OF assms cr(1)]
  from kahn_graph.kahn_total [OF graph] obtain out where
    k: "kahn never (\<lambda>k. history_key (snapshots ! k)) (chosen_nodes snapshots chosen) (chosen_parents snapshots chosen) = Done out" ..
  have "?E `` (?E\<^sup>* `` set roots) \<subseteq> ?E\<^sup>* `` set roots" by (blast intro: rtrancl_into_rtrancl)
  then have closed: "?E `` ids_at snapshots chosen \<inter> sn_ID ` set snapshots \<subseteq> ids_at snapshots chosen"
    unfolding cr(3) by blast
  have self: "i \<in> sn_ID ` set snapshots" if "(i, i) \<in> ?E\<^sup>+" for i
    using that by (auto simp: snapshot_edges_def dest: tranclD)
  have "length out = length (chosen_nodes snapshots chosen) \<longleftrightarrow> (\<forall>i \<in> ids_at snapshots chosen. (i, i) \<notin> ?E\<^sup>+)"
    using kahn_graph.kahn_all_iff [OF graph k] cycle_transfer [OF assms cr(1) closed] by simp
  also have "\<dots> \<longleftrightarrow> (\<forall>i \<in> ?E\<^sup>* `` set roots. (i, i) \<notin> ?E\<^sup>+)" unfolding cr(3) using self by blast
  finally have len: "length out = length (chosen_nodes snapshots chosen) \<longleftrightarrow>
      (\<forall>i \<in> ?E\<^sup>* `` set roots. (i, i) \<notin> ?E\<^sup>+)" .
  then have "ReachableHistory snapshots roots =
       (if \<forall>i \<in> ?E\<^sup>* `` set roots. (i, i) \<notin> ?E\<^sup>+ then Inr (map ((!) snapshots) out, sort missing) else Inl ErrHashMismatch)"
    using assms c k by (simp add: ReachableHistory_def chosen_nodes_def)
  moreover have "set out = set (chosen_nodes snapshots chosen)" if "\<forall>i \<in> ?E\<^sup>* `` set roots. (i, i) \<notin> ?E\<^sup>+"
    using kahn_graph.kahn_complete [OF graph k] kahn_graph.kahn_all_iff [OF graph k] len that by blast
  ultimately show thesis using c graph k by (intro that [of chosen missing out]) blast+
qed

lemma children_first:
  assumes "kahn_graph nodes (chosen_parents snapshots chosen) key" "distinct (map sn_ID snapshots)"
    and k: "kahn never key nodes (chosen_parents snapshots chosen) = Done out"
    and sub: "set out = set chosen" "set chosen \<subseteq> {0..<length snapshots}" "set chosen \<subseteq> set nodes"
  shows "sorted_wrt (\<lambda>s t. (sn_ID t, sn_ID s) \<notin> snapshot_edges snapshots) (map ((!) snapshots) out)"
  unfolding sorted_wrt_map
proof (subst sorted_wrt_iff_nth_less, intro allI impI notI)
  fix i j assume ij: "i < j" "j < length out"
    and e: "(sn_ID (snapshots ! (out ! j)), sn_ID (snapshots ! (out ! i))) \<in> snapshot_edges snapshots"
  note snd = kahn_graph.kahn_sound [OF assms(1) k]
  have mem: "out ! i \<in> set chosen" "out ! j \<in> set chosen" using ij sub(1) nth_mem [of i out] nth_mem [of j out] by auto
  then have "out ! j < length snapshots" using sub(2) by auto
  with e mem have "out ! i \<in> set (chosen_parents snapshots chosen (out ! j))"
    using chosen_parents_set [OF assms(2) sub(2)] by blast
  then have "out ! j \<in> set (take i out)"
    using snd(3) ij mem(2) sub(3) unfolding preds_first_def by (meson less_trans subsetD)
  then obtain m where "m < i" "out ! m = out ! j" by (auto simp: in_set_conv_nth)
  with snd(1) ij show False by (simp add: nth_eq_iff_index_eq)
qed


section \<open>What a validated answer guarantees\<close>

lemma check_snapshots_None:
  "check_snapshots repo ss seen = None \<longleftrightarrow>
     distinct (map sn_ID ss) \<and> sn_ID ` set ss \<inter> set seen = {} \<and>
     (\<forall>s \<in> set ss. sn_RepoID s = repo \<and> ValidateContentHash (sn_ID s) = None)"
  by (induction ss arbitrary: seen) auto

lemma check_bindings_Inr:
  "check_bindings seg bs receipts = Inr receipts' \<Longrightarrow>
     distinct (map ccb_EventID bs) \<and> ccb_EventID ` set bs \<inter> set receipts = {} \<and>
     set receipts' = ccb_EventID ` set bs \<union> set receipts"
proof (induction bs arbitrary: receipts)
  case (Cons b bs)
  then have b: "ccb_EventID b \<notin> set receipts" and rest: "check_bindings seg bs (ccb_EventID b # receipts) = Inr receipts'"
    by (auto split: if_splits)
  from Cons.IH [OF rest] b show ?case by auto
qed simp

definition entry_receipts :: "ContextSegmentCoverage \<Rightarrow> string list" where
  "entry_receipts e = map ccb_EventID (elems (cov_Bindings e))"

lemma check_entries_None:
  "check_entries repo snapshots ps receipts = None \<Longrightarrow>
     (\<forall>(snap, entry) \<in> set ps. check_coverage repo snapshots snap entry = None) \<and>
     distinct (concat (map (entry_receipts \<circ> snd) ps)) \<and>
     set (concat (map (entry_receipts \<circ> snd) ps)) \<inter> set receipts = {}"
proof (induction ps arbitrary: receipts)
  case (Cons p ps)
  obtain snap entry where p: "p = (snap, entry)" by (cases p)
  from Cons.prems obtain receipts' where cov: "check_coverage repo snapshots snap entry = None"
    and b: "check_bindings (cov_Segment entry) (elems (cov_Bindings entry)) receipts = Inr receipts'"
    and rest: "check_entries repo snapshots ps receipts' = None"
    by (auto simp: p split: option.splits sum.splits)
  from Cons.IH [OF rest] check_bindings_Inr [OF b] cov show ?case by (auto simp: p entry_receipts_def)
qed simp

lemma check_coverage_None:
  assumes "check_coverage repo snapshots snap entry = None"
  shows "cov_SnapshotID entry = sn_ID snap"
    and "cov_Segment entry = Some s \<Longrightarrow>
      seg_ID s = ContextSegmentID s \<and> seg_RepoID s = repo \<and> seg_DocHash s = sn_DocHash snap \<and>
      0 \<le> seg_EventStart s \<and> seg_EventStart s \<le> seg_EventEnd s \<and> seg_EventEnd s = cov_TotalEvents entry"
  using assms by (auto simp: check_coverage_def check_segment_def split: if_splits option.splits)


text \<open>An answer with one snapshot whose whole document is the segment.\<close>

definition sample_segment :: ConversationSegment where
  "sample_segment =
     (let s = \<lparr>seg_ID = [], seg_RepoID = sample_hash (CHR ''a''), seg_DocHash = sample_hash (CHR ''d''),
               seg_Provider = ''claude'', seg_SessionID = ''s1'', seg_EventStart = 0, seg_EventEnd = 7\<rparr>
      in s\<lparr>seg_ID := ContextSegmentID s\<rparr>)"

definition sample_page :: ContextSegmentPage where
  "sample_page =
     (let p = \<lparr>page_Version = 1, page_StateHash = sample_hash (CHR ''e''), page_PageHash = [], page_Offset = 0,
               page_Next = 1, page_Total = 2, page_Complete = False,
               page_Entries = Some [\<lparr>cov_SnapshotID = sample_hash (CHR ''b''), cov_Segment = Some sample_segment,
                 cov_Bindings = Some [], cov_Kind = ''full_source'', cov_Reason = ''ok'', cov_TotalEvents = 7,
                 cov_BaselineSnapshotID = [], cov_BaselineDocHash = []\<rparr>]\<rparr>
      in p\<lparr>page_PageHash := ContextSegmentPageHash p\<rparr>)"

definition sample_view :: ContextQueryView where
  "sample_view =
     \<lparr>cq_Segments = Some sample_page, cq_Revision = \<lparr>rev_Evidence = 0, rev_Graph = 1, rev_Pending = 0\<rparr>,
      cq_Version = 1, cq_Branch = [], cq_StateHash = sample_hash (CHR ''e''), cq_DeliveryStateHash = [],
      cq_Position = [], cq_Snapshots = [(sample_snapshot (sample_hash (CHR ''b'')) None)\<lparr>sn_RepoID := sample_hash (CHR ''a''),
        sn_DocHash := sample_hash (CHR ''d'')\<rparr>],
      cq_History = [], cq_Inclusion = None\<rparr>"

definition sample_selection :: ContextSelection where
  "sample_selection =
     \<lparr>cs_SegmentLimit = 1, cs_SegmentOffset = 0, cs_SegmentStateHash = [], cs_CodeCommit = [], cs_Branch = [],
      cs_Position = [], cs_Scope = []\<rparr>"

lemma sample_hash_valid: "ValidateContentHash (sample_hash (CHR ''a'')) = None"
  "ValidateContentHash (sample_hash (CHR ''b'')) = None" "ValidateContentHash (sample_hash (CHR ''d'')) = None"
  "ValidateContentHash (sample_hash (CHR ''e'')) = None"
  by code_simp+

lemma sample_page_valid: "ValidateContextSegmentPage (sample_hash (CHR ''a'')) sample_selection sample_view = None"
proof -
  have seg: "seg_ID sample_segment = ContextSegmentID sample_segment" "ValidateContentHash (seg_ID sample_segment) = None"
    by (simp_all add: sample_segment_def Let_def ContextSegmentID_def HashContent_valid)
  have page: "page_PageHash sample_page = ContextSegmentPageHash sample_page" "ValidateContentHash (page_PageHash sample_page) = None"
    by (simp_all add: sample_page_def Let_def ContextSegmentPageHash_def HashContent_valid)
  have "check_envelope sample_selection sample_view sample_page = None"
    using page sample_hash_valid
    by (simp add: check_envelope_def sample_selection_def sample_view_def MaxContextSegmentPage_def)
      (simp add: sample_page_def Let_def)
  moreover have "check_entries (sample_hash (CHR ''a'')) (cq_Snapshots sample_view)
      (zip (cq_Snapshots sample_view) (elems (page_Entries sample_page))) [] = None"
    using seg sample_hash_valid
    by (simp add: sample_page_def sample_view_def Let_def check_coverage_def check_segment_def sample_snapshot_def)
      (simp add: sample_segment_def Let_def)
  ultimately show ?thesis by (simp add: ValidateContextSegmentPage_def sample_view_def)
qed

lemma sample_view_valid: "ValidateContextQuery (sample_hash (CHR ''a'')) sample_selection sample_view = None"
  using sample_page_valid sample_hash_valid
  by (simp add: ValidateContextQuery_def check_snapshots_None)
    (simp add: sample_view_def sample_selection_def sample_snapshot_def ValidateContextSegmentSelection_def
      ValidateOptionalContentHash_def MaxContextSegmentPage_def has_prefix_def)


text \<open>
  Paging makes progress and loses nothing. A validated page holds at most fifty entries; either
  it is marked complete, has no continuation and ends exactly at the total, or its continuation is the
  offset just behind its last entry, which lies strictly between the page's own offset and the
  total. So a client that follows the continuations of one state reaches the last entry.
\<close>

theorem segment_page_progress:
  assumes "ValidateContextSegmentPage repo sel out = None" "cq_Segments out = Some page"
  shows "length (elems (page_Entries page)) \<le> 50 \<and>
     (if page_Complete page
      then page_Next page = -1 \<and> page_Offset page + int (length (elems (page_Entries page))) = page_Total page
      else page_Next page = page_Offset page + int (length (elems (page_Entries page))) \<and>
           page_Offset page < page_Next page \<and> page_Next page < page_Total page) \<and>
     (0 < cs_SegmentLimit sel \<longrightarrow> page_Offset page = cs_SegmentOffset sel)"
proof -
  have env: "check_envelope sel out page = None" using assms by (auto simp: ValidateContextSegmentPage_def)
  let ?n = "length (elems (page_Entries page))"
  have b: "0 \<le> page_Offset page" "page_Offset page \<le> page_Total page" "?n \<le> 50"
    "int ?n \<le> page_Total page - page_Offset page" "0 < cs_SegmentLimit sel \<longrightarrow> page_Offset page = cs_SegmentOffset sel"
    using env by (auto simp: check_envelope_def Let_def MaxContextSegmentPage_def)
  have e: "if page_Offset page + int ?n = page_Total page then page_Next page = -1 \<and> page_Complete page
      else ?n \<noteq> 0 \<and> page_Next page = page_Offset page + int ?n \<and> \<not> page_Complete page"
    using env by (auto simp: check_envelope_def Let_def)
  show ?thesis using b e by (cases "page_Offset page + int ?n = page_Total page") auto
qed

theorem segment_page_progress_witness:
  "ValidateContextSegmentPage (sample_hash (CHR ''a'')) sample_selection sample_view = None \<and>
   page_Offset sample_page < page_Next sample_page \<and> page_Next sample_page < page_Total sample_page"
proof -
  have "cq_Segments sample_view = Some sample_page" "\<not> page_Complete sample_page"
    by (simp_all add: sample_view_def sample_page_def Let_def)
  with segment_page_progress [OF sample_page_valid, of sample_page]
  have "page_Offset sample_page < page_Next sample_page" "page_Next sample_page < page_Total sample_page" by auto
  with sample_page_valid show ?thesis by blast
qed

end
