(* ===== verification/Tracking.thy ===== *)
theory Tracking
  imports Branches
begin

text \<open>
  Observing a server branch and adopting it by an explicit tracking command
  (\<open>cli/internal/domain/tracking.go\<close>, \<open>context_pin.go\<close>).

  \<open>TrackingHistoryWithMemoryOwners\<close> checks that a remote history is compatible with the local one
  without applying it; \<open>TrackingProof\<close> cuts out the part of the history that concerns one identity;
  \<open>ValidateTrackingAttachment\<close> checks a frozen attachment against its proof. The closure
  \<open>conflict\<close> wraps every cause in \<open>ErrSyncConflict\<close>. The Go map \<open>owners\<close> may be nil, which is
  \<open>None\<close> here. Sets of wanted IDs are lists; the stack \<open>queue\<close> has its top at the head.
\<close>

section \<open>Pinned observations\<close>

definition IsPinnedContextEvent :: "HistoryEvent \<Rightarrow> bool" where
  "IsPinnedContextEvent e \<longleftrightarrow>
     he_MemoryPinned e \<and> he_Target e \<noteq> [] \<and>
     he_Kind e \<in> set [''birth'', ''orphan'', ''attach'', ''position'', ''advance'']"

type_synonym memory_owners = "(string \<rightharpoonup> string) option"

record pin =
  pin_code :: string
  pin_target :: string
  pin_memory :: string
  pin_owner :: string

definition pinOf :: "memory_owners \<Rightarrow> HistoryEvent \<Rightarrow> pin result" where
  "pinOf owners e =
     (let p = (\<lambda>owner. \<lparr>pin_code = he_GitAfter e, pin_target = he_Target e, pin_memory = he_MemoryHash e,
                        pin_owner = owner\<rparr>) in
      case owners of
        Some m \<Rightarrow>
          if he_MemoryHash e \<noteq> [] then
            let owner = (case m (he_MemoryHash e) of None \<Rightarrow> [] | Some h \<Rightarrow> h) in
            if ValidateContentHash owner \<noteq> None \<or> (he_MemorySource e \<noteq> [] \<and> he_MemorySource e \<noteq> owner) \<or>
               (owner \<noteq> he_Source e \<and> owner \<noteq> he_Target e \<and> owner \<noteq> he_MemorySource e)
            then Inl ErrHashMismatch else Inr (p owner)
          else Inr (p (he_MemorySource e))
      | None \<Rightarrow> Inr (p (he_MemorySource e)))"

section \<open>Compatibility of an observed identity\<close>

definition tracking_identity :: "Ref \<Rightarrow> string" where
  "tracking_identity ref =
     (if ref_BranchID ref = [] then LegacyContextBranchID (ref_RepoID ref) (ref_Name ref) else ref_BranchID ref)"

definition check_tracked :: "string \<Rightarrow> HistoryEvent \<Rightarrow> check" where
  "check_tracked repo e =
     first_error [ValidateHistoryEvent e, fail_if (he_RepoID e \<noteq> repo) ErrHashMismatch]"

definition as_conflict :: "'a result \<Rightarrow> 'a result" where
  "as_conflict r = (case r of Inl _ \<Rightarrow> Inl ErrSyncConflict | Inr x \<Rightarrow> Inr x)"

definition observed_identity :: "Ref \<Rightarrow> ContextBranchProjection \<Rightarrow> check" where
  "observed_identity ref observed =
     (case Active observed (ref_Name ref) of
        Some active \<Rightarrow> fail_if (cb_ID active \<noteq> tracking_identity ref) ErrSyncConflict
      | None \<Rightarrow> fail_if (released observed (ref_Name ref) \<noteq> [] \<or>
                         tracking_identity ref \<noteq> LegacyContextBranchID (ref_RepoID ref) (ref_Name ref)) ErrSyncConflict)"

definition merged_identity :: "Ref \<Rightarrow> bool \<Rightarrow> ContextBranchProjection \<Rightarrow> check" where
  "merged_identity ref modern merged =
     (let name = ref_Name ref; identity = tracking_identity ref in
      fail_if ((modern \<and> (case Active merged name of None \<Rightarrow> True | Some current \<Rightarrow> cb_ID current \<noteq> identity)) \<or>
               (\<not> modern \<and> (Identity merged (ref_RepoID ref) name \<noteq> identity \<or> released merged name \<noteq> [])))
        ErrSyncConflict)"

fun known_pins :: "memory_owners \<Rightarrow> string \<Rightarrow> HistoryEvent list \<Rightarrow> pin list \<Rightarrow> pin list result" where
  "known_pins owners identity [] pins = Inr pins"
| "known_pins owners identity (e # es) pins =
     (if he_BranchID e = identity \<and> he_MemoryPinned e \<and> he_Kind e \<noteq> ''publish'' \<and> he_Kind e \<noteq> ''pr-merge''
      then bind_r (pinOf owners e) (\<lambda>p. known_pins owners identity es (p # pins))
      else known_pins owners identity es pins)"

fun check_local ::
  "memory_owners \<Rightarrow> string \<Rightarrow> HistoryEvent list \<Rightarrow> pin list \<Rightarrow> HistoryEvent list \<Rightarrow> check" where
  "check_local owners identity ordered pins [] = None"
| "check_local owners identity ordered pins (e # es) =
     (if he_BranchID e \<noteq> identity \<or> IsBranchBindingEvent e \<or> he_Kind e = ''publish''
      then check_local owners identity ordered pins es
      else if lookup_event (he_ID e) ordered \<noteq> None then check_local owners identity ordered pins es
      else case pinOf owners e of
             Inl err \<Rightarrow> Some err
           | Inr p \<Rightarrow> if \<not> he_MemoryPinned e \<or> p \<notin> set pins then Some ErrSyncConflict
                     else check_local owners identity ordered pins es)"

definition TrackingHistoryWithMemoryOwners ::
  "Ref \<Rightarrow> HistoryEvent list \<Rightarrow> HistoryEvent list \<Rightarrow> memory_owners \<Rightarrow> HistoryEvent list result" where
  "TrackingHistoryWithMemoryOwners ref remote local owners =
     check_then (first_error
       ([ValidateRef ref,
         fail_if (ref_Kind ref \<noteq> ''branch'' \<or> ref_Target ref = [] \<or> ref_Symbolic ref \<noteq> []) ErrInvalidRef] @
        map (check_tracked (ref_RepoID ref)) (remote @ local)))
     (bind_r (as_conflict (OrderHistoryEvents remote)) (\<lambda>ordered.
      bind_r (as_conflict (ProjectContextBranches ordered)) (\<lambda>observed.
      check_then (observed_identity ref observed)
      (bind_r (as_conflict (OrderHistoryEvents (ordered @ local))) (\<lambda>combined.
       bind_r (as_conflict (ProjectContextBranches combined)) (\<lambda>merged.
       check_then (merged_identity ref (Active observed (ref_Name ref) \<noteq> None) merged)
       (bind_r (known_pins owners (tracking_identity ref) ordered []) (\<lambda>pins.
        check_then (check_local owners (tracking_identity ref) ordered pins local) (Inr ordered)))))))))"

definition TrackingHistory :: "Ref \<Rightarrow> HistoryEvent list \<Rightarrow> HistoryEvent list \<Rightarrow> HistoryEvent list result" where
  "TrackingHistory ref remote local = TrackingHistoryWithMemoryOwners ref remote local None"

section \<open>The dependency closure\<close>

fun want_deps ::
  "HistoryEvent list \<Rightarrow> string list \<Rightarrow> string list \<Rightarrow> string list \<Rightarrow> (string list \<times> string list) result" where
  "want_deps byID [] wanted queue = Inr (wanted, queue)"
| "want_deps byID (d # ds) wanted queue =
     (if d \<noteq> [] \<and> d \<notin> set wanted
      then if lookup_event d byID = None then Inl ErrHashMismatch
           else want_deps byID ds (d # wanted) (d # queue)
      else want_deps byID ds wanted queue)"

definition event_deps :: "HistoryEvent list \<Rightarrow> string \<Rightarrow> string list" where
  "event_deps byID i = (case lookup_event i byID of None \<Rightarrow> [] | Some e \<Rightarrow> HistoryDependencies e)"

definition unwanted :: "HistoryEvent list \<Rightarrow> string list \<Rightarrow> nat" where
  "unwanted byID wanted = card (he_ID ` set byID - set wanted)"

lemma want_deps_measure:
  "want_deps byID ds w q = Inr (w', q') \<Longrightarrow> 2 * unwanted byID w' + length q' \<le> 2 * unwanted byID w + length q"
proof (induction ds arbitrary: w q)
  case (Cons d ds)
  show ?case
  proof (cases "d \<noteq> [] \<and> d \<notin> set w")
    case True
    with Cons.prems have d: "lookup_event d byID \<noteq> None" and rest: "want_deps byID ds (d # w) (d # q) = Inr (w', q')"
      by (auto split: if_splits)
    have "he_ID ` set byID - set (d # w) = (he_ID ` set byID - set w) - {d}" by auto
    moreover have "d \<in> he_ID ` set byID - set w" using d True by (auto simp: lookup_event_None)
    ultimately have "unwanted byID (d # w) < unwanted byID w"
      unfolding unwanted_def by (simp only: card_Diff1_less finite_Diff finite_imageI List.finite_set)
    with Cons.IH [OF rest] show ?thesis by simp
  next
    case False
    with Cons show ?thesis by simp
  qed
qed simp

function closure_loop :: "HistoryEvent list \<Rightarrow> string list \<Rightarrow> string list \<Rightarrow> string list result" where
  "closure_loop byID wanted [] = Inr wanted"
| "closure_loop byID wanted (i # queue) =
     (case want_deps byID (event_deps byID i) wanted queue of
        Inl err \<Rightarrow> Inl err
      | Inr (wanted', queue') \<Rightarrow> closure_loop byID wanted' queue')"
  by pat_completeness auto

termination
  by (relation "measure (\<lambda>(byID, wanted, queue). 2 * unwanted byID wanted + length queue)")
     (auto simp: less_Suc_eq_le dest: want_deps_measure)

definition trackingHistoryClosure :: "HistoryEvent list \<Rightarrow> string list \<Rightarrow> HistoryEvent list result" where
  "trackingHistoryClosure ordered wanted =
     bind_r (closure_loop ordered wanted wanted) (\<lambda>ids. Inr (filter (\<lambda>e. he_ID e \<in> set ids) ordered))"

section \<open>Tracking proofs and attachments\<close>

definition completed_receipt :: "string \<Rightarrow> string \<Rightarrow> string \<Rightarrow> HistoryEvent \<Rightarrow> bool" where
  "completed_receipt identity code target e \<longleftrightarrow>
     he_BranchID e = identity \<and> he_Kind e = ''pr-merge'' \<and> he_PRCompleted e \<and> he_Source e = target \<and>
     (case he_PR e of None \<Rightarrow> False | Some pr \<Rightarrow> pr_MergeSHA pr = code)"

definition receipt_source :: "HistoryEvent \<Rightarrow> HistoryEvent \<Rightarrow> bool" where
  "receipt_source receipt e \<longleftrightarrow>
     IsPinnedContextEvent e \<and> he_BranchID e = he_SourceBranchID receipt \<and> he_Target e = he_Source receipt \<and>
     (case he_PR receipt of None \<Rightarrow> False | Some pr \<Rightarrow> he_GitAfter e = pr_HeadSHA pr)"

definition proof_roots :: "string \<Rightarrow> string \<Rightarrow> string \<Rightarrow> HistoryEvent list \<Rightarrow> string list" where
  "proof_roots identity code target ordered =
     map he_ID (filter (\<lambda>e. he_BranchID e = identity) ordered) @
     concat (map (\<lambda>receipt. map he_ID (filter (receipt_source receipt) ordered))
                 (filter (completed_receipt identity code target) ordered))"

definition TrackingProof :: "Ref \<Rightarrow> HistoryEvent list \<Rightarrow> string \<Rightarrow> string \<Rightarrow> HistoryEvent list result" where
  "TrackingProof ref events code target =
     bind_r (TrackingHistory ref events []) (\<lambda>ordered.
       trackingHistoryClosure ordered (proof_roots (tracking_identity ref) code target ordered))"

record TrackingAttachment =
  ta_Event :: HistoryEvent
  ta_ObservedRef :: Ref
  ta_Proof :: "HistoryEvent list"
  ta_Code :: string
  ta_Rewound :: bool

definition AppliedTrackingProof :: "TrackingAttachment \<Rightarrow> HistoryEvent list result" where
  "AppliedTrackingProof a =
     bind_r (OrderHistoryEvents (ta_Proof a)) (\<lambda>ordered.
       trackingHistoryClosure ordered
         (map he_ID (filter (\<lambda>e. he_BranchID e = he_BranchID (ta_Event a)) ordered)))"

definition attachment_shape :: "TrackingAttachment \<Rightarrow> bool" where
  "attachment_shape a \<longleftrightarrow>
     (let e = ta_Event a; r = ta_ObservedRef a in
      he_Kind e = ''attach'' \<and> he_MemoryPinned e \<and> he_Source e \<noteq> [] \<and> he_Source e = he_Target e \<and>
      he_SharedTarget e = ref_Target r \<and> he_BranchID e = tracking_identity r \<and> he_Branch e = ref_Name r \<and>
      he_RepoID e = ref_RepoID r \<and> ref_Kind r = ''branch'' \<and> ValidGitOID (ta_Code a) \<and>
      \<not> (he_Target e = ref_Target r \<and> ta_Rewound a))"

definition attachment_matches :: "HistoryEvent \<Rightarrow> HistoryEvent \<Rightarrow> bool" where
  "attachment_matches e p \<longleftrightarrow>
     he_MemoryPinned p \<and> he_Target p = he_Target e \<and> he_MemoryHash p = he_MemoryHash e \<and>
     (he_MemorySource p = he_MemorySource e \<or> (he_MemorySource p = [] \<and> he_Source p = he_MemorySource e) \<or>
      (he_MemoryHash e \<noteq> [] \<and>
       ((he_MemorySource p = [] \<and> he_MemorySource e = he_Target e) \<or>
        (he_MemorySource p = he_Target p \<and> he_MemorySource e = []))))"

definition pinned_source :: "TrackingAttachment \<Rightarrow> bool" where
  "pinned_source a \<longleftrightarrow>
     (let e = ta_Event a; identity = tracking_identity (ta_ObservedRef a);
          pins = filter (\<lambda>p. IsPinnedContextEvent p \<and> attachment_matches e p) (ta_Proof a) in
      list_ex (\<lambda>p. he_BranchID p = identity \<and> he_GitAfter p = ta_Code a) pins \<or>
      list_ex (\<lambda>receipt. he_Kind receipt = ''pr-merge'' \<and> he_PRCompleted receipt \<and> he_BranchID receipt = identity \<and>
          he_Source receipt = he_Target e \<and>
          (case he_PR receipt of
             None \<Rightarrow> False
           | Some pr \<Rightarrow> pr_MergeSHA pr = ta_Code a \<and>
               list_ex (\<lambda>p. he_BranchID p = he_SourceBranchID receipt \<and> he_GitAfter p = pr_HeadSHA pr) pins))
        (ta_Proof a))"

definition ValidateTrackingAttachment :: "TrackingAttachment \<Rightarrow> check" where
  "ValidateTrackingAttachment a =
     (case first_error
        [ValidateHistoryEvent (ta_Event a), ValidateRef (ta_ObservedRef a),
         fail_if (\<not> attachment_shape a) ErrHashMismatch] of
        Some err \<Rightarrow> Some err
      | None \<Rightarrow> check_of
          (bind_r (TrackingProof (ta_ObservedRef a) (ta_Proof a) (ta_Code a) (he_Target (ta_Event a))) (\<lambda>closure.
           bind_r (OrderHistoryEvents (ta_Proof a)) (\<lambda>ordered.
           check_then (first_error
             [fail_if (closure \<noteq> ordered) ErrHashMismatch,
              fail_if (\<not> pinned_source a) ErrSyncConflict]) (Inr ())))))"

fun without_event :: "HistoryEvent \<Rightarrow> HistoryEvent list \<Rightarrow> HistoryEvent list result" where
  "without_event a [] = Inr []"
| "without_event a (e # es) =
     (if he_ID e = he_ID a then if e \<noteq> a then Inl ErrHashMismatch else without_event a es
      else bind_r (without_event a es) (\<lambda>rest. Inr (e # rest)))"

definition ValidateTrackingAttachmentCompatibilityWithMemoryOwners ::
  "HistoryEvent list \<Rightarrow> TrackingAttachment \<Rightarrow> memory_owners \<Rightarrow> check" where
  "ValidateTrackingAttachmentCompatibilityWithMemoryOwners local a owners =
     (case ValidateTrackingAttachment a of
        Some err \<Rightarrow> Some err
      | None \<Rightarrow> check_of (bind_r (without_event (ta_Event a) local) (\<lambda>filtered.
          TrackingHistoryWithMemoryOwners (ta_ObservedRef a) (ta_Proof a) filtered owners)))"

section \<open>Correctness of the closure\<close>

definition depends :: "HistoryEvent list \<Rightarrow> (string \<times> string) set" where
  "depends byID = {(i, d). d \<in> set (event_deps byID i)}"

lemma event_deps_nonempty: "[] \<notin> set (event_deps byID i)"
  using HistoryDependencies_no_empty by (auto simp: event_deps_def split: option.splits)

lemma want_deps_Inr:
  "want_deps byID ds w q = Inr (w', q') \<Longrightarrow> [] \<notin> set ds \<Longrightarrow>
     set w' = set w \<union> set ds \<and> set q' = set q \<union> (set ds - set w) \<and>
     set ds - set w \<subseteq> he_ID ` set byID"
proof (induction ds arbitrary: w q)
  case (Cons d ds)
  show ?case
  proof (cases "d \<in> set w")
    case True
    with Cons show ?thesis by auto
  next
    case False
    with Cons.prems have d: "d \<in> he_ID ` set byID" and rest: "want_deps byID ds (d # w) (d # q) = Inr (w', q')"
      by (auto simp: lookup_event_None split: if_splits)
    from Cons.IH [OF rest] Cons.prems(2) d False show ?thesis by auto
  qed
qed auto

lemma want_deps_Inl:
  "want_deps byID ds w q = Inl err \<Longrightarrow> err = ErrHashMismatch \<and> (\<exists>d \<in> set ds. d \<notin> he_ID ` set byID)"
proof (induction ds arbitrary: w q)
  case (Cons d ds)
  then show ?case by (cases "lookup_event d byID") (auto simp: lookup_event_None split: if_splits)
qed simp

definition closure_inv :: "HistoryEvent list \<Rightarrow> string set \<Rightarrow> string list \<Rightarrow> string list \<Rightarrow> bool" where
  "closure_inv byID roots wanted queue \<longleftrightarrow>
     roots \<subseteq> set wanted \<and> set wanted \<subseteq> (depends byID)\<^sup>* `` roots \<and> set queue \<subseteq> set wanted \<and>
     depends byID `` (set wanted - set queue) \<subseteq> set wanted \<and> set wanted - roots \<subseteq> he_ID ` set byID"

lemma closure_step:
  assumes "closure_inv byID roots wanted (i # queue)"
    and step: "want_deps byID (event_deps byID i) wanted queue = Inr (wanted', queue')"
  shows "closure_inv byID roots wanted' queue'"
proof -
  let ?D = "depends byID" and ?ds = "set (event_deps byID i)"
  note wd = want_deps_Inr [OF step event_deps_nonempty]
  note w = conjunct1 [OF wd] conjunct1 [OF conjunct2 [OF wd]] conjunct2 [OF conjunct2 [OF wd]]
  have inv: "roots \<subseteq> set wanted" "set wanted \<subseteq> ?D\<^sup>* `` roots" "i \<in> set wanted" "set queue \<subseteq> set wanted"
    "?D `` (set wanted - set (i # queue)) \<subseteq> set wanted" "set wanted - roots \<subseteq> he_ID ` set byID"
    using assms(1) unfolding closure_inv_def by simp_all
  have i: "?D `` {i} = ?ds" by (auto simp: depends_def)
  have "?ds \<subseteq> ?D\<^sup>* `` roots"
  proof
    fix d assume "d \<in> ?ds"
    then have "(i, d) \<in> ?D" using i by blast
    moreover from inv(2,3) obtain r where "r \<in> roots" "(r, i) \<in> ?D\<^sup>*" by blast
    ultimately show "d \<in> ?D\<^sup>* `` roots" by (blast intro: rtrancl_into_rtrancl)
  qed
  then have reach: "set wanted' \<subseteq> ?D\<^sup>* `` roots" unfolding w(1) using inv(2) by (rule Un_least [rotated])
  have "set wanted' - set queue' \<subseteq> (set wanted - set (i # queue)) \<union> {i}" unfolding w by auto
  then have "?D `` (set wanted' - set queue') \<subseteq> ?D `` (set wanted - set (i # queue)) \<union> ?D `` {i}" by blast
  also have "\<dots> \<subseteq> set wanted'" unfolding i w(1) using inv(5) by (rule Un_mono) simp
  finally have closed: "?D `` (set wanted' - set queue') \<subseteq> set wanted'" .
  have "roots \<subseteq> set wanted'" "set queue' \<subseteq> set wanted'" "set wanted' - roots \<subseteq> he_ID ` set byID"
    unfolding w(1,2) using inv(1,4,6) w(3) by blast+
  with reach closed show ?thesis unfolding closure_inv_def by simp
qed

lemma closure_loop_spec:
  assumes "closure_inv byID roots wanted queue"
  shows "case closure_loop byID wanted queue of
           Inl err \<Rightarrow> err = ErrHashMismatch \<and> (\<exists>d \<in> (depends byID)\<^sup>+ `` roots. d \<notin> he_ID ` set byID)
         | Inr ids \<Rightarrow> closure_inv byID roots ids []"
  using assms
proof (induction byID wanted queue rule: closure_loop.induct)
  case (2 byID wanted i queue)
  show ?case
  proof (cases "want_deps byID (event_deps byID i) wanted queue")
    case (Inl err)
    from want_deps_Inl [OF Inl] obtain d where d: "err = ErrHashMismatch" "d \<in> set (event_deps byID i)" "d \<notin> he_ID ` set byID"
      by blast
    from "2.prems" obtain r where "r \<in> roots" "(r, i) \<in> (depends byID)\<^sup>*" unfolding closure_inv_def by auto
    with d(2) have "d \<in> (depends byID)\<^sup>+ `` roots" by (auto simp: depends_def intro: rtrancl_into_trancl1)
    with d Inl show ?thesis by auto
  next
    case (Inr wq)
    obtain wanted' queue' where wq: "wq = (wanted', queue')" by (cases wq)
    from closure_step [OF "2.prems" Inr [unfolded wq]] "2.IH" [OF Inr wq [symmetric]] Inr wq show ?thesis by simp
  qed
qed simp

lemma closure_inv_final:
  assumes "closure_inv byID roots ids []"
  shows "set ids = (depends byID)\<^sup>* `` roots" "(depends byID)\<^sup>* `` roots \<subseteq> roots \<union> he_ID ` set byID"
proof -
  let ?D = "depends byID"
  have inv: "roots \<subseteq> set ids" "set ids \<subseteq> ?D\<^sup>* `` roots" "?D `` set ids \<subseteq> set ids"
    "set ids - roots \<subseteq> he_ID ` set byID"
    using assms unfolding closure_inv_def by auto
  have "?D\<^sup>* `` roots \<subseteq> ?D\<^sup>* `` set ids" using inv(1) by (rule Image_mono [OF order_refl])
  also have "\<dots> = set ids" using inv(3) by (rule Image_closed_trancl)
  finally show eq: "set ids = ?D\<^sup>* `` roots" using inv(2) by (rule equalityI [rotated])
  show "?D\<^sup>* `` roots \<subseteq> roots \<union> he_ID ` set byID" unfolding eq [symmetric] using inv(4) by blast
qed

lemma trackingHistoryClosure_exact:
  "case trackingHistoryClosure ordered wanted of
     Inl err \<Rightarrow> err = ErrHashMismatch \<and> (\<exists>d \<in> (depends ordered)\<^sup>+ `` set wanted. d \<notin> he_ID ` set ordered)
   | Inr out \<Rightarrow> out = filter (\<lambda>e. he_ID e \<in> (depends ordered)\<^sup>* `` set wanted) ordered \<and>
       (depends ordered)\<^sup>* `` set wanted \<subseteq> set wanted \<union> he_ID ` set ordered"
proof -
  have "closure_inv ordered (set wanted) wanted wanted" by (auto simp: closure_inv_def)
  note spec = closure_loop_spec [OF this]
  show ?thesis
  proof (cases "closure_loop ordered wanted wanted")
    case (Inl err)
    with spec show ?thesis by (simp add: trackingHistoryClosure_def)
  next
    case (Inr ids)
    with spec have inv: "closure_inv ordered (set wanted) ids []" by simp
    from Inr closure_inv_final(2) [OF inv] show ?thesis
      by (simp add: trackingHistoryClosure_def flip: closure_inv_final(1) [OF inv])
  qed
qed

lemma closure_closed:
  assumes out: "trackingHistoryClosure ordered wanted = Inr out" and ids: "distinct_ids ordered"
    and known: "set wanted \<subseteq> he_ID ` set ordered"
  shows "\<forall>e \<in> set ordered. he_ID e \<in> set wanted \<longrightarrow> e \<in> set out"
    and "\<forall>e \<in> set out. set (HistoryDependencies e) \<subseteq> he_ID ` set out"
    and "\<forall>e \<in> set out. e \<in> set ordered \<and> (\<exists>r \<in> set wanted. (r, he_ID e) \<in> (depends ordered)\<^sup>*)"
proof -
  let ?R = "(depends ordered)\<^sup>* `` set wanted"
  from trackingHistoryClosure_exact [of ordered wanted] out known
  have eq: "out = filter (\<lambda>e. he_ID e \<in> ?R) ordered" and sub: "?R \<subseteq> he_ID ` set ordered" by auto
  show "\<forall>e \<in> set ordered. he_ID e \<in> set wanted \<longrightarrow> e \<in> set out" unfolding eq by auto
  show "\<forall>e \<in> set out. e \<in> set ordered \<and> (\<exists>r \<in> set wanted. (r, he_ID e) \<in> (depends ordered)\<^sup>*)"
    unfolding eq by auto
  show "\<forall>e \<in> set out. set (HistoryDependencies e) \<subseteq> he_ID ` set out"
  proof (intro ballI subsetI)
    fix e d assume e: "e \<in> set out" and d: "d \<in> set (HistoryDependencies e)"
    have eo: "e \<in> set ordered" and eR: "he_ID e \<in> ?R" using e unfolding eq by simp_all
    have "lookup_event (he_ID e) ordered = Some e" using ids eo by (rule lookup_event_in)
    with d have "(he_ID e, d) \<in> depends ordered" by (simp add: depends_def event_deps_def)
    with eR have "d \<in> ?R" by (blast intro: rtrancl_into_rtrancl)
    moreover from this sub obtain f where "f \<in> set ordered" "he_ID f = d" by blast
    ultimately show "d \<in> he_ID ` set out" unfolding eq by auto
  qed
qed

lemma check_tracked_None [simp, check_simps]:
  "check_tracked repo e = None \<longleftrightarrow> ValidateHistoryEvent e = None \<and> he_RepoID e = repo"
  by (auto simp: check_tracked_def)

lemma TrackingHistoryWithMemoryOwners_Inr:
  assumes "TrackingHistoryWithMemoryOwners ref remote local owners = Inr ordered"
  obtains observed combined merged pins where
    "ValidateRef ref = None" "ref_Kind ref = ''branch''" "ref_Target ref \<noteq> []" "ref_Symbolic ref = []"
    "\<forall>e \<in> set remote \<union> set local. ValidateHistoryEvent e = None \<and> he_RepoID e = ref_RepoID ref"
    "OrderHistoryEvents remote = Inr ordered" "ProjectContextBranches ordered = Inr observed"
    "observed_identity ref observed = None"
    "OrderHistoryEvents (ordered @ local) = Inr combined" "ProjectContextBranches combined = Inr merged"
    "merged_identity ref (Active observed (ref_Name ref) \<noteq> None) merged = None"
    "known_pins owners (tracking_identity ref) ordered [] = Inr pins"
    "check_local owners (tracking_identity ref) ordered pins local = None"
proof -
  have conf': "as_conflict r = Inr x \<longleftrightarrow> r = Inr x" for r and x :: ContextBranchProjection
    by (cases r) (simp_all add: as_conflict_def)
  have conf'': "as_conflict r = Inr x \<longleftrightarrow> r = Inr x" for r and x :: "HistoryEvent list"
    by (cases r) (simp_all add: as_conflict_def)
  from assms show thesis
    unfolding TrackingHistoryWithMemoryOwners_def check_then_Inr bind_r_Inr conf' conf''
    by (elim conjE exE) (rule that, simp_all add: ball_Un)
qed

lemma proof_roots_known: "set (proof_roots identity code target ordered) \<subseteq> he_ID ` set ordered"
  by (auto simp: proof_roots_def)

text \<open>
  A tracking proof is the exact part of an observed history that one identity needs. It is a
  subsequence of the replay order, holds every event of the identity, is closed under dependencies,
  and holds nothing else than what an event of the identity, or a pinned source of its completed
  pull request at the selected code, depends on. The work-list loop ends on every input.
\<close>

theorem TrackingProof_closed:
  assumes "TrackingProof ref events code target = Inr prf"
  shows "\<exists>ordered. OrderHistoryEvents events = Inr ordered \<and> (\<exists>P. prf = filter P ordered) \<and>
     (\<forall>e \<in> set events. he_BranchID e = tracking_identity ref \<longrightarrow> e \<in> set prf) \<and>
     (\<forall>e \<in> set prf. set (HistoryDependencies e) \<subseteq> he_ID ` set prf) \<and>
     (\<forall>e \<in> set prf. \<exists>r \<in> set events. (he_ID r, he_ID e) \<in> (depends ordered)\<^sup>* \<and>
        (he_BranchID r = tracking_identity ref \<or>
         (\<exists>receipt \<in> set events. completed_receipt (tracking_identity ref) code target receipt \<and> receipt_source receipt r)))"
proof -
  let ?roots = "proof_roots (tracking_identity ref) code target"
  from assms obtain ordered where h: "TrackingHistory ref events [] = Inr ordered"
    and out: "trackingHistoryClosure ordered (?roots ordered) = Inr prf" by (auto simp: TrackingProof_def)
  from h have ord: "OrderHistoryEvents events = Inr ordered"
    unfolding TrackingHistory_def by (rule TrackingHistoryWithMemoryOwners_Inr)
  note oi = OrderHistoryEvents_Inr [OF ord]
  note cl = closure_closed [OF out oi(5) proof_roots_known]
  have "\<exists>P. prf = filter P ordered" using trackingHistoryClosure_exact [of ordered "?roots ordered"] out by auto
  moreover have "\<forall>e \<in> set events. he_BranchID e = tracking_identity ref \<longrightarrow> e \<in> set prf"
    using cl(1) oi(4) by (auto simp: proof_roots_def)
  moreover have "\<exists>r \<in> set events. (he_ID r, he_ID e) \<in> (depends ordered)\<^sup>* \<and>
      (he_BranchID r = tracking_identity ref \<or>
       (\<exists>receipt \<in> set events. completed_receipt (tracking_identity ref) code target receipt \<and> receipt_source receipt r))"
    if "e \<in> set prf" for e
  proof -
    from cl(3) that obtain i where i: "i \<in> set (?roots ordered)" "(i, he_ID e) \<in> (depends ordered)\<^sup>*" by blast
    from i(1) oi(4) obtain r where "r \<in> set events" "he_ID r = i" "he_BranchID r = tracking_identity ref \<or>
       (\<exists>receipt \<in> set events. completed_receipt (tracking_identity ref) code target receipt \<and> receipt_source receipt r)"
      by (auto simp: proof_roots_def)
    with i(2) show ?thesis by blast
  qed
  ultimately show ?thesis using ord cl(2) by blast
qed

text \<open>A branch with one pinned position, and the attachment that adopts it.\<close>

definition sample_pinned :: HistoryEvent where
  "sample_pinned = sample_birth\<lparr>he_ID := replicate 32 (CHR ''7''), he_Kind := ''position'',
     he_Source := ''sha256:'' @ replicate 64 (CHR ''b''), he_Target := ''sha256:'' @ replicate 64 (CHR ''b''),
     he_MemoryPinned := True, he_GitAfter := replicate 40 (CHR ''1'')\<rparr>"

definition sample_tracked :: Ref where
  "sample_tracked = empty_ref\<lparr>ref_BranchID := ''b1'', ref_Kind := ''branch'', ref_Name := ''topic'',
     ref_RepoID := he_RepoID sample_birth, ref_Target := ''sha256:'' @ replicate 64 (CHR ''b'')\<rparr>"

definition sample_attachment :: TrackingAttachment where
  "sample_attachment =
     \<lparr>ta_Event = sample_pinned\<lparr>he_ID := replicate 32 (CHR ''8''), he_Kind := ''attach'',
        he_SharedTarget := ''sha256:'' @ replicate 64 (CHR ''b'')\<rparr>,
      ta_ObservedRef = sample_tracked, ta_Proof = [sample_pinned, sample_birth],
      ta_Code = replicate 40 (CHR ''1''), ta_Rewound = False\<rparr>"

lemma sample_tracking_eval:
  "TrackingProof sample_tracked [sample_pinned, sample_birth] (replicate 40 (CHR ''1''))
     (''sha256:'' @ replicate 64 (CHR ''b'')) = Inr [sample_birth, sample_pinned]"
  by code_simp

theorem TrackingProof_closed_witness:
  "TrackingProof sample_tracked [sample_pinned, sample_birth] (replicate 40 (CHR ''1''))
     (''sha256:'' @ replicate 64 (CHR ''b'')) = Inr [sample_birth, sample_pinned] \<and>
   (\<exists>ordered. OrderHistoryEvents [sample_pinned, sample_birth] = Inr ordered \<and>
      (\<exists>P. [sample_birth, sample_pinned] = filter P ordered))"
  using sample_tracking_eval TrackingProof_closed [OF sample_tracking_eval] by blast

section \<open>No silent replacement\<close>

lemma pinOf_Inr:
  "pinOf owners e = Inr p \<Longrightarrow>
     pin_code p = he_GitAfter e \<and> pin_target p = he_Target e \<and> pin_memory p = he_MemoryHash e"
  by (auto simp: pinOf_def Let_def split: option.splits if_splits)

lemma known_pins_Inr:
  "known_pins owners identity es acc = Inr pins \<Longrightarrow> p \<in> set pins \<Longrightarrow>
     p \<in> set acc \<or> (\<exists>e \<in> set es. he_BranchID e = identity \<and> he_MemoryPinned e \<and> pinOf owners e = Inr p)"
proof (induction es arbitrary: acc)
  case (Cons e es)
  show ?case
  proof (cases "he_BranchID e = identity \<and> he_MemoryPinned e \<and> he_Kind e \<noteq> ''publish'' \<and> he_Kind e \<noteq> ''pr-merge''")
    case True
    with Cons.prems(1) obtain q where q: "pinOf owners e = Inr q" "known_pins owners identity es (q # acc) = Inr pins"
      by auto
    from Cons.IH [OF q(2) Cons.prems(2)] q(1) True show ?thesis by auto
  next
    case False
    with Cons show ?thesis by auto
  qed
qed simp

lemma check_local_None:
  "check_local owners identity ordered pins es = None \<Longrightarrow> e \<in> set es \<Longrightarrow> he_BranchID e = identity \<Longrightarrow>
     \<not> IsBranchBindingEvent e \<Longrightarrow> he_Kind e \<noteq> ''publish'' \<Longrightarrow> he_ID e \<notin> he_ID ` set ordered \<Longrightarrow>
     he_MemoryPinned e \<and> (\<exists>p \<in> set pins. pinOf owners e = Inr p)"
  by (induction es) (auto simp: lookup_event_None [symmetric] split: if_splits sum.splits)

lemma ProjectContextBranches_set_cong:
  "set es = set es' \<Longrightarrow> ProjectContextBranches es = ProjectContextBranches es'"
  unfolding ProjectContextBranches_def
  using OrderHistoryEvents_set_cong [of "filter IsBranchBindingEvent es" "filter IsBranchBindingEvent es'"] by simp

text \<open>
  C18: Observing a server branch never silently replaces local work. When a remote history is found
  compatible, the joint history of both sides still projects, the branch name still means the
  observed identity in it, and every unpublished local observation of that identity (one that is no
  lifecycle event, no completion and unknown to the server) is pinned and agrees with a pinned server
  observation in Git revision, context target and memory; otherwise the operation stays queued.
\<close>

theorem TrackingHistory_keeps_local:
  assumes "TrackingHistoryWithMemoryOwners ref remote local owners = Inr ordered"
  shows "OrderHistoryEvents remote = Inr ordered \<and>
     (\<exists>merged. ProjectContextBranches (remote @ local) = Inr merged \<and>
        Identity merged (ref_RepoID ref) (ref_Name ref) = tracking_identity ref) \<and>
     (\<forall>e \<in> set local. he_BranchID e = tracking_identity ref \<and> \<not> IsBranchBindingEvent e \<and>
        he_Kind e \<noteq> ''publish'' \<and> he_ID e \<notin> he_ID ` set remote \<longrightarrow>
        he_MemoryPinned e \<and> (\<exists>r \<in> set remote. he_BranchID r = tracking_identity ref \<and> he_MemoryPinned r \<and>
          he_GitAfter r = he_GitAfter e \<and> he_Target r = he_Target e \<and> he_MemoryHash r = he_MemoryHash e))"
proof -
  from assms obtain observed :: ContextBranchProjection and combined merged pins where
    ord: "OrderHistoryEvents remote = Inr ordered"
    and comb: "OrderHistoryEvents (ordered @ local) = Inr combined" "ProjectContextBranches combined = Inr merged"
      "merged_identity ref (Active observed (ref_Name ref) \<noteq> None) merged = None"
    and pins: "known_pins owners (tracking_identity ref) ordered [] = Inr pins"
      "check_local owners (tracking_identity ref) ordered pins local = None"
    by (rule TrackingHistoryWithMemoryOwners_Inr) (rule that)
  note o1 = OrderHistoryEvents_Inr(4) [OF ord] and o2 = OrderHistoryEvents_Inr(4) [OF comb(1)]
  have "ProjectContextBranches (remote @ local) = Inr merged"
    using ProjectContextBranches_set_cong [of "remote @ local" combined] comb(2) o1 o2 by simp
  moreover have "Identity merged (ref_RepoID ref) (ref_Name ref) = tracking_identity ref"
    using comb(3) by (cases "Active observed (ref_Name ref)")
      (auto simp: merged_identity_def Let_def Identity_def split: option.splits)
  moreover have "he_MemoryPinned e \<and> (\<exists>r \<in> set remote. he_BranchID r = tracking_identity ref \<and> he_MemoryPinned r \<and>
          he_GitAfter r = he_GitAfter e \<and> he_Target r = he_Target e \<and> he_MemoryHash r = he_MemoryHash e)"
    if e: "e \<in> set local" "he_BranchID e = tracking_identity ref" "\<not> IsBranchBindingEvent e"
      "he_Kind e \<noteq> ''publish''" "he_ID e \<notin> he_ID ` set remote" for e
  proof -
    from check_local_None [OF pins(2) e(1-4)] e(5) o1 obtain p where
      p: "he_MemoryPinned e" "p \<in> set pins" "pinOf owners e = Inr p" by auto
    from known_pins_Inr [OF pins(1) p(2)] o1 obtain r where
      r: "r \<in> set remote" "he_BranchID r = tracking_identity ref" "he_MemoryPinned r" "pinOf owners r = Inr p" by auto
    from pinOf_Inr [OF p(3)] pinOf_Inr [OF r(4)] have
      "he_GitAfter r = he_GitAfter e \<and> he_Target r = he_Target e \<and> he_MemoryHash r = he_MemoryHash e" by simp
    with p(1) r show ?thesis by blast
  qed
  ultimately show ?thesis using ord by blast
qed

definition sample_unpublished :: HistoryEvent where
  "sample_unpublished = sample_pinned\<lparr>he_ID := replicate 32 (CHR ''9'')\<rparr>"

lemma sample_compatible:
  "TrackingHistoryWithMemoryOwners sample_tracked [sample_pinned, sample_birth] [sample_unpublished] None =
     Inr [sample_birth, sample_pinned]"
  by code_simp

theorem TrackingHistory_keeps_local_witness:
  "TrackingHistoryWithMemoryOwners sample_tracked [sample_pinned, sample_birth] [sample_unpublished] None =
     Inr [sample_birth, sample_pinned] \<and>
   (\<exists>r \<in> {sample_pinned, sample_birth}. he_MemoryPinned r \<and> he_Target r = he_Target sample_unpublished)"
proof -
  note claim = TrackingHistory_keeps_local [OF sample_compatible]
  have "he_BranchID sample_unpublished = tracking_identity sample_tracked" "\<not> IsBranchBindingEvent sample_unpublished"
    "he_Kind sample_unpublished \<noteq> ''publish''" "he_ID sample_unpublished \<notin> he_ID ` set [sample_pinned, sample_birth]"
    by code_simp+
  with claim have "\<exists>r \<in> set [sample_pinned, sample_birth]. he_MemoryPinned r \<and> he_Target r = he_Target sample_unpublished"
    by (metis list.set_intros(1))
  with sample_compatible show ?thesis by simp
qed

section \<open>Validated attachments\<close>

lemma pinned_source_witness:
  assumes "pinned_source a"
  obtains p where "p \<in> set (ta_Proof a)" "IsPinnedContextEvent p" "attachment_matches (ta_Event a) p"
    "(he_BranchID p = tracking_identity (ta_ObservedRef a) \<and> he_GitAfter p = ta_Code a) \<or>
     (\<exists>receipt \<in> set (ta_Proof a). receipt_source receipt p \<and>
        completed_receipt (tracking_identity (ta_ObservedRef a)) (ta_Code a) (he_Target (ta_Event a)) receipt)"
proof -
  from assms consider
    (direct) p where "p \<in> set (ta_Proof a)" "IsPinnedContextEvent p" "attachment_matches (ta_Event a) p"
      "he_BranchID p = tracking_identity (ta_ObservedRef a)" "he_GitAfter p = ta_Code a"
  | (receipt) r p pr where "p \<in> set (ta_Proof a)" "IsPinnedContextEvent p" "attachment_matches (ta_Event a) p"
      "r \<in> set (ta_Proof a)" "he_Kind r = ''pr-merge''" "he_PRCompleted r" "he_PR r = Some pr"
      "he_BranchID r = tracking_identity (ta_ObservedRef a)" "he_Source r = he_Target (ta_Event a)"
      "pr_MergeSHA pr = ta_Code a" "he_BranchID p = he_SourceBranchID r" "he_GitAfter p = pr_HeadSHA pr"
    unfolding pinned_source_def Let_def by (auto simp: list_ex_iff split: option.splits)
  then show thesis
  proof cases
    case direct
    then show thesis by (blast intro: that)
  next
    case receipt
    then have "receipt_source r p" by (simp add: receipt_source_def attachment_matches_def)
    with receipt show thesis by (intro that [of p]) (auto simp: completed_receipt_def)
  qed
qed

lemma order_no_missing:
  assumes "OrderHistoryEvents es = Inr out" "e \<in> set out"
  shows "set (HistoryDependencies e) \<subseteq> he_ID ` set out"
proof -
  from split_list [OF assms(2)] obtain xs ys where out: "out = xs @ e # ys" by blast
  from OrderHistoryEvents_deps_first [OF assms(1) [unfolded out]] show ?thesis unfolding out by auto
qed

lemma closure_ok:
  assumes "OrderHistoryEvents es = Inr ordered" "set wanted \<subseteq> he_ID ` set ordered"
  shows "\<exists>out. trackingHistoryClosure ordered wanted = Inr out"
proof (rule ccontr)
  assume "\<nexists>out. trackingHistoryClosure ordered wanted = Inr out"
  then obtain err where "trackingHistoryClosure ordered wanted = Inl err"
    by (cases "trackingHistoryClosure ordered wanted") auto
  with trackingHistoryClosure_exact [of ordered wanted] obtain r d where
    rd: "(r, d) \<in> (depends ordered)\<^sup>+" "d \<notin> he_ID ` set ordered" by auto
  from rd(1) obtain i where "(i, d) \<in> depends ordered" by (meson tranclE)
  then obtain e where "lookup_event i ordered = Some e" "d \<in> set (HistoryDependencies e)"
    by (cases "lookup_event i ordered") (simp_all add: depends_def event_deps_def)
  with order_no_missing [OF assms(1)] rd(2) show False by (metis lookup_event_Some subsetD)
qed


lemma sample_attachment_valid: "ValidateTrackingAttachment sample_attachment = None"
  by code_simp


end
