(* ===== verification/BranchPull.thy ===== *)
theory BranchPull
  imports Tracking
begin

text \<open>
  The inventory of a branch pull (\<open>cli/internal/domain/branch_pull.go\<close>, \<open>branch_pull_validate.go\<close>):
  the request, the server's plan, and its validation before any object is requested.

  A Go map is an association list, read with \<open>map_of\<close> (a missing key is the zero value) and counted by its
  distinct keys. \<open>ValidateHistoryEvent\<close> guarantees the pull request of a \<open>pr-merge\<close> event, so the
  branch of the model for an absent one is never taken.
\<close>

record BranchPullRequest =
  bq_Version :: int
  bq_Branch :: string
  bq_ObservationRoots :: "string list"

record BranchPullSettings =
  bs_Kind :: string
  bs_Hash :: string

record BranchPullPlan =
  bp_Version :: int
  bp_RepoID :: string
  bp_Branch :: string
  bp_ContextProtocol :: int
  bp_SelectedRef :: Ref
  bp_Refs :: "Ref list"
  bp_History :: "HistoryEvent list"
  bp_SnapshotIndex :: "string list"
  bp_SnapshotStates :: "(string \<times> string) list"
  bp_AbsentRoots :: "string list"
  bp_SettingsObjects :: "BranchPullSettings list"

definition ValidateBranchPullRequest :: "BranchPullRequest \<Rightarrow> check" where
  "ValidateBranchPullRequest r = first_error
     ([fail_if (bq_Version r \<noteq> 1 \<or> ValidateBranchName (bq_Branch r) \<noteq> None \<or> 256 < length (bq_ObservationRoots r))
         ErrInvalidRef] @
      map (\<lambda>i. fail_if (ValidateContentHash i \<noteq> None) ErrInvalidRef) (bq_ObservationRoots r))"

definition pull_envelope :: "string \<Rightarrow> BranchPullRequest \<Rightarrow> BranchPullPlan \<Rightarrow> bool" where
  "pull_envelope repo request plan \<longleftrightarrow>
     (let selected = bp_SelectedRef plan in
      bp_Version plan = 1 \<and> bp_RepoID plan = repo \<and> bp_Branch plan = bq_Branch request \<and>
      0 \<le> bp_ContextProtocol plan \<and> bp_ContextProtocol plan \<le> 1 \<and>
      ref_RepoID selected = repo \<and> ref_Kind selected = ''branch'' \<and> ref_Name selected = bq_Branch request \<and>
      ref_Target selected \<noteq> [] \<and> ref_Symbolic selected = [] \<and> ValidateRef selected = None)"

fun pull_index :: "(string \<times> string) list \<Rightarrow> string list \<Rightarrow> string list \<Rightarrow> string list option" where
  "pull_index states [] index = Some index"
| "pull_index states (i # ids) index =
     (if ValidateContentHash i \<noteq> None \<or> i \<in> set index \<or>
         ValidateContentHash (case map_of states i of None \<Rightarrow> [] | Some h \<Rightarrow> h) \<noteq> None
      then None else pull_index states ids (index @ [i]))"

fun pull_refs ::
  "string \<Rightarrow> string \<Rightarrow> Ref \<Rightarrow> string list \<Rightarrow> Ref list \<Rightarrow> string list \<Rightarrow> nat \<Rightarrow> nat option" where
  "pull_refs repo branch selected index [] seen cnt = Some cnt"
| "pull_refs repo branch selected index (r # rs) seen cnt =
     (let key = ref_Kind r @ ''/'' @ ref_Name r in
      if ref_RepoID r \<noteq> repo \<or> ValidateRef r \<noteq> None \<or> ref_Symbolic r \<noteq> [] \<or> ref_Target r \<notin> set index then None
      else if key \<in> set seen then None
      else if ref_Kind r = ''branch'' then
        if r \<noteq> selected then None else pull_refs repo branch selected index rs (key # seen) (Suc cnt)
      else case ParseBranchLifecycleRef r of
             Inr (Some lifecycle) \<Rightarrow>
               if ble_Branch lifecycle \<noteq> branch then None
               else pull_refs repo branch selected index rs (key # seen) cnt
           | _ \<Rightarrow> None)"

definition pull_event :: "string \<Rightarrow> string list \<Rightarrow> HistoryEvent \<Rightarrow> bool" where
  "pull_event repo index e \<longleftrightarrow>
     he_RepoID e = repo \<and> ValidateHistoryEvent e = None \<and>
     list_all (\<lambda>i. i = [] \<or> i \<in> set index) [he_Source e, he_Target e, he_SharedTarget e, he_MemorySource e]"

definition pull_archived :: "BranchPullRequest \<Rightarrow> BranchPullPlan \<Rightarrow> bool" where
  "pull_archived request plan \<longleftrightarrow>
     (case LatestBranchLifecycle (bp_Refs plan) (bq_Branch request) of
        Inl _ \<Rightarrow> True
      | Inr None \<Rightarrow> False
      | Inr (Some latest) \<Rightarrow> ref_BranchID (bp_SelectedRef plan) = [] \<and> ble_State latest = ''archived'' \<and>
          ble_Target latest = ref_Target (bp_SelectedRef plan))"

definition pull_receipt_proved :: "string \<Rightarrow> HistoryEvent list \<Rightarrow> HistoryEvent \<Rightarrow> bool" where
  "pull_receipt_proved identity ordered e \<longleftrightarrow>
     (he_BranchID e = identity \<and> he_Kind e = ''pr-merge'' \<and> he_PRCompleted e \<longrightarrow>
      list_ex (receipt_source e) ordered)"

definition pull_history :: "string \<Rightarrow> BranchPullRequest \<Rightarrow> BranchPullPlan \<Rightarrow> bool" where
  "pull_history repo request plan \<longleftrightarrow>
     (case OrderHistoryEvents (bp_History plan) of
        Inl _ \<Rightarrow> False
      | Inr ordered \<Rightarrow>
          length ordered = length (bp_History plan) \<and>
          (case ProjectContextBranches ordered of
             Inl _ \<Rightarrow> False
           | Inr projection \<Rightarrow>
               (let identity = (if ref_BranchID (bp_SelectedRef plan) = [] then LegacyContextBranchID repo (bq_Branch request)
                                else ref_BranchID (bp_SelectedRef plan)) in
                (case Active projection (bq_Branch request) of
                   Some active \<Rightarrow> cb_ID active = identity
                 | None \<Rightarrow> released projection (bq_Branch request) = [] \<and>
                     identity = LegacyContextBranchID repo (bq_Branch request)) \<and>
                list_all (pull_receipt_proved identity ordered) ordered)))"

fun pull_absent :: "string list \<Rightarrow> string list \<Rightarrow> string list \<Rightarrow> string list \<Rightarrow> string list option" where
  "pull_absent requested index [] absent = Some absent"
| "pull_absent requested index (i # ids) absent =
     (if i \<notin> set requested \<or> i \<in> set absent \<or> i \<in> set index then None
      else pull_absent requested index ids (i # absent))"

fun pull_settings :: "BranchPullSettings list \<Rightarrow> string list \<Rightarrow> bool" where
  "pull_settings [] seen \<longleftrightarrow> True"
| "pull_settings (s # ss) seen \<longleftrightarrow>
     ValidateContentHash (bs_Hash s) = None \<and> bs_Hash s \<notin> set seen \<and>
     bs_Kind s \<in> set [''claude'', ''codex'', ''agents''] \<and> pull_settings ss (bs_Hash s # seen)"

definition ValidateBranchPullPlan :: "string \<Rightarrow> BranchPullRequest \<Rightarrow> BranchPullPlan \<Rightarrow> check" where
  "ValidateBranchPullPlan repo request plan =
     (if \<not> pull_envelope repo request plan then Some ErrHashMismatch
      else case pull_index (bp_SnapshotStates plan) (bp_SnapshotIndex plan) [] of
        None \<Rightarrow> Some ErrHashMismatch
      | Some index \<Rightarrow>
          if length index \<noteq> length (remdups (map fst (bp_SnapshotStates plan))) \<or>
             ref_Target (bp_SelectedRef plan) \<notin> set index then Some ErrHashMismatch
          else if pull_refs repo (bq_Branch request) (bp_SelectedRef plan) index (bp_Refs plan) [] 0 \<noteq> Some 1
            then Some ErrHashMismatch
          else if pull_archived request plan then Some ErrHashMismatch
          else if \<not> list_all (pull_event repo index) (bp_History plan) then Some ErrHashMismatch
          else if \<not> pull_history repo request plan then Some ErrHashMismatch
          else case pull_absent (bq_ObservationRoots request) index (bp_AbsentRoots plan) [] of
            None \<Rightarrow> Some ErrHashMismatch
          | Some absent \<Rightarrow>
              if \<not> list_all (\<lambda>i. i \<in> set index \<or> i \<in> set absent) (bq_ObservationRoots request) then Some ErrHashMismatch
              else if \<not> pull_settings (bp_SettingsObjects plan) [] then Some ErrHashMismatch
              else None)"

section \<open>A validated inventory is closed\<close>

lemma pull_index_Some:
  "pull_index states ids index = Some out \<Longrightarrow> distinct index \<Longrightarrow>
     out = index @ ids \<and> distinct out \<and> set ids \<subseteq> fst ` set states"
proof (induction ids arbitrary: index)
  case (Cons i ids)
  have "ValidateContentHash [] \<noteq> None" by code_simp
  with Cons.prems have "i \<notin> set index" "i \<in> fst ` set states" "pull_index states ids (index @ [i]) = Some out"
    by (auto split: if_splits option.splits dest: map_of_SomeD simp: rev_image_eqI)
  with Cons.IH [of "index @ [i]"] Cons.prems(2) show ?case by auto
qed simp

lemma pull_refs_Some:
  "pull_refs repo branch selected index rs seen cnt = Some n \<Longrightarrow>
     (\<forall>r \<in> set rs. ref_RepoID r = repo \<and> ref_Target r \<in> set index \<and> (ref_Kind r = ''branch'' \<longrightarrow> r = selected)) \<and>
     n = cnt + length (filter (\<lambda>r. ref_Kind r = ''branch'') rs)"
proof (induction rs arbitrary: seen cnt)
  case (Cons r rs)
  let ?key = "ref_Kind r @ ''/'' @ ref_Name r"
  have ok: "ref_RepoID r = repo" "ref_Target r \<in> set index" "ref_Kind r = ''branch'' \<longrightarrow> r = selected"
    and rest: "pull_refs repo branch selected index rs (?key # seen) (if ref_Kind r = ''branch'' then Suc cnt else cnt) = Some n"
    using Cons.prems by (auto simp: Let_def split: if_splits sum.splits option.splits)
  from Cons.IH [OF rest] ok show ?case by auto
qed simp

lemma pull_absent_Some:
  "pull_absent requested index ids absent = Some out \<Longrightarrow>
     set out = set ids \<union> set absent \<and> set ids \<subseteq> set requested \<and> set ids \<inter> set index = {}"
  by (induction ids arbitrary: absent) (auto split: if_splits)

text \<open>
  C22: An accepted inventory is complete before any object is fetched: the snapshot index and the
  state tokens name the same snapshots, each once; the selected branch ref is the only branch ref;
  the targets of all refs and all snapshots named by the history are in the index; the requested
  observation roots split exactly into indexed and absent ones; and every completed pull request of
  the branch comes with an exact pinned source observation.
\<close>

theorem ValidateBranchPullPlan_closed:
  assumes "ValidateBranchPullPlan repo request plan = None"
  shows "distinct (bp_SnapshotIndex plan) \<and> set (bp_SnapshotIndex plan) = fst ` set (bp_SnapshotStates plan) \<and>
     filter (\<lambda>r. ref_Kind r = ''branch'') (bp_Refs plan) = [bp_SelectedRef plan] \<and>
     ref_Target ` set (bp_Refs plan) \<subseteq> set (bp_SnapshotIndex plan) \<and>
     (\<forall>e \<in> set (bp_History plan).
        {he_Source e, he_Target e, he_SharedTarget e, he_MemorySource e} - {[]} \<subseteq> set (bp_SnapshotIndex plan)) \<and>
     set (bp_AbsentRoots plan) = set (bq_ObservationRoots request) - set (bp_SnapshotIndex plan) \<and>
     (\<forall>e \<in> set (bp_History plan). he_Kind e = ''pr-merge'' \<and> he_PRCompleted e \<and>
        he_BranchID e = tracking_identity (bp_SelectedRef plan) \<longrightarrow> (\<exists>p \<in> set (bp_History plan). receipt_source e p))"
proof -
  let ?idx = "bp_SnapshotIndex plan" and ?st = "bp_SnapshotStates plan"
  from assms obtain index absent where
    env: "pull_envelope repo request plan" and idx: "pull_index ?st ?idx [] = Some index"
    and len: "length index = length (remdups (map fst ?st))"
    and refs: "pull_refs repo (bq_Branch request) (bp_SelectedRef plan) index (bp_Refs plan) [] 0 = Some 1"
    and ev: "list_all (pull_event repo index) (bp_History plan)" and hist: "pull_history repo request plan"
    and abs: "pull_absent (bq_ObservationRoots request) index (bp_AbsentRoots plan) [] = Some absent"
    and cover: "list_all (\<lambda>i. i \<in> set index \<or> i \<in> set absent) (bq_ObservationRoots request)"
    by (auto simp: ValidateBranchPullPlan_def split: if_splits option.splits)
  from pull_index_Some [OF idx] have i: "index = ?idx" "distinct ?idx" "set ?idx \<subseteq> fst ` set ?st" by auto
  have "card (set ?idx) = card (fst ` set ?st)"
    using len i(1,2) by (metis List.finite_set card_set distinct_card length_remdups_card_conv list.set_map)
  then have same: "set ?idx = fst ` set ?st" using i(3) by (simp add: card_subset_eq)
  note r = pull_refs_Some [OF refs]
  then have "length (filter (\<lambda>r. ref_Kind r = ''branch'') (bp_Refs plan)) = Suc 0" by simp
  then obtain b where b: "filter (\<lambda>r. ref_Kind r = ''branch'') (bp_Refs plan) = [b]"
    unfolding length_Suc_conv length_0_conv by blast
  then have "b \<in> set (filter (\<lambda>r. ref_Kind r = ''branch'') (bp_Refs plan))" by simp
  with r have "b = bp_SelectedRef plan" by auto
  moreover have "set (bp_AbsentRoots plan) = set (bq_ObservationRoots request) - set ?idx"
    using pull_absent_Some [OF abs] cover i(1) by (auto simp: list_all_iff)
  moreover have "\<exists>p \<in> set (bp_History plan). receipt_source e p"
    if "e \<in> set (bp_History plan)" "he_Kind e = ''pr-merge''" "he_PRCompleted e"
      "he_BranchID e = tracking_identity (bp_SelectedRef plan)" for e
  proof -
    from hist obtain ordered where ord: "OrderHistoryEvents (bp_History plan) = Inr ordered"
      and proved: "list_all (pull_receipt_proved
        (if ref_BranchID (bp_SelectedRef plan) = [] then LegacyContextBranchID repo (bq_Branch request)
         else ref_BranchID (bp_SelectedRef plan)) ordered) ordered"
      by (auto simp: pull_history_def Let_def split: sum.splits)
    have "tracking_identity (bp_SelectedRef plan) =
        (if ref_BranchID (bp_SelectedRef plan) = [] then LegacyContextBranchID repo (bq_Branch request)
         else ref_BranchID (bp_SelectedRef plan))"
      using env by (simp add: tracking_identity_def pull_envelope_def Let_def)
    with proved that OrderHistoryEvents_Inr(4) [OF ord] show ?thesis
      by (auto simp: list_all_iff list_ex_iff pull_receipt_proved_def)
  qed
  ultimately show ?thesis using i(1,2) same r ev b by (auto simp: list_all_iff pull_event_def)
qed

definition sample_request :: BranchPullRequest where
  "sample_request = \<lparr>bq_Version = 1, bq_Branch = ''topic'',
     bq_ObservationRoots = [ref_Target sample_tracked, ''sha256:'' @ replicate 64 (CHR ''f'')]\<rparr>"

definition sample_inventory :: BranchPullPlan where
  "sample_inventory =
     \<lparr>bp_Version = 1, bp_RepoID = he_RepoID sample_birth, bp_Branch = ''topic'', bp_ContextProtocol = 1,
      bp_SelectedRef = sample_tracked, bp_Refs = [sample_tracked], bp_History = [sample_birth, sample_pinned],
      bp_SnapshotIndex = [ref_Target sample_tracked],
      bp_SnapshotStates = [(ref_Target sample_tracked, ''sha256:'' @ replicate 64 (CHR ''e''))],
      bp_AbsentRoots = [''sha256:'' @ replicate 64 (CHR ''f'')], bp_SettingsObjects = []\<rparr>"

lemma sample_inventory_valid: "ValidateBranchPullPlan (he_RepoID sample_birth) sample_request sample_inventory = None"
  by code_simp

theorem ValidateBranchPullPlan_closed_witness:
  "ValidateBranchPullPlan (he_RepoID sample_birth) sample_request sample_inventory = None \<and>
   filter (\<lambda>r. ref_Kind r = ''branch'') (bp_Refs sample_inventory) = [bp_SelectedRef sample_inventory] \<and>
   set (bp_AbsentRoots sample_inventory) = set (bq_ObservationRoots sample_request) - set (bp_SnapshotIndex sample_inventory)"
  using sample_inventory_valid ValidateBranchPullPlan_closed [OF sample_inventory_valid] by blast

end
