(* ===== verification/Utf8.thy ===== *)
theory Utf8
  imports Json
begin

text \<open>
  Unicode text as Go's package \<open>strings\<close> sees it. A string is cut into runes the way
  \<open>utf8.DecodeRuneInString\<close> does: a valid UTF-8 sequence, or a single byte where there is none.
  \<open>unicode.IsSpace\<close> is the set of the encodings of the white-space characters. \<open>TrimSpace\<close> and
  \<open>Fields\<close> work on runes; trimming from the right decodes backwards in Go, which finds the same runes.
\<close>

function runes :: "string \<Rightarrow> string list" where
  "runes [] = []"
| "runes (c # s) = take (max 1 (utf8_length (c # s))) (c # s) # runes (drop (max 1 (utf8_length (c # s))) (c # s))"
  by pat_completeness auto

termination
  by (relation "measure length") (auto simp: max_def)

declare runes.simps(2) [simp del]

definition space_rune :: "string \<Rightarrow> bool" where
  "space_rune r \<longleftrightarrow>
     (case r of
        [a] \<Rightarrow> (of_char a :: nat) \<in> set [9, 10, 11, 12, 13, 32]
      | [a, b] \<Rightarrow> a = CHR 0xC2 \<and> (b = CHR 0x85 \<or> b = CHR 0xA0)
      | [a, b, c] \<Rightarrow>
          (a = CHR 0xE1 \<and> b = CHR 0x9A \<and> c = CHR 0x80) \<or>
          (a = CHR 0xE2 \<and> b = CHR 0x80 \<and>
            ((of_char c :: nat) \<in> {0x80..0x8A} \<or> (of_char c :: nat) \<in> set [0xA8, 0xA9, 0xAF])) \<or>
          (a = CHR 0xE2 \<and> b = CHR 0x81 \<and> c = CHR 0x9F) \<or>
          (a = CHR 0xE3 \<and> b = CHR 0x80 \<and> c = CHR 0x80)
      | _ \<Rightarrow> False)"

definition trim_left :: "string \<Rightarrow> string" where
  "trim_left s = concat (dropWhile space_rune (runes s))"

definition TrimSpace :: "string \<Rightarrow> string" where
  "TrimSpace s = concat (rev (dropWhile space_rune (rev (dropWhile space_rune (runes s)))))"

text \<open>\<open>strings.Fields\<close>: the maximal runs of runes that are not white space.\<close>

fun fields_of :: "string list \<Rightarrow> string \<Rightarrow> string list" where
  "fields_of [] word = (if word = [] then [] else [word])"
| "fields_of (r # rs) word =
     (if space_rune r then (if word = [] then fields_of rs [] else word # fields_of rs [])
      else fields_of rs (word @ r))"

definition Fields :: "string \<Rightarrow> string list" where
  "Fields s = fields_of (runes s) []"

definition encode_rune :: "string \<Rightarrow> string" where
  "encode_rune r = (if utf8_length r = 0 then [CHR 0xEF, CHR 0xBF, CHR 0xBD] else r)"

section \<open>Cutting at ASCII characters\<close>

definition ascii :: "char \<Rightarrow> bool" where
  "ascii c \<longleftrightarrow> (of_char c :: nat) < 0x80"

text \<open>
  \<open>strings.ToLower\<close>. ASCII text is mapped byte by byte; other text rune by rune, where the case table
  of package \<open>unicode\<close> for the characters outside ASCII is the argument \<open>table\<close>, on their encodings.
\<close>

type_synonym case_table = "string \<Rightarrow> string"

definition lower_rune :: "case_table \<Rightarrow> string \<Rightarrow> string" where
  "lower_rune table r = (if list_all ascii r then to_lower r else table (encode_rune r))"

definition ToLower :: "case_table \<Rightarrow> string \<Rightarrow> string" where
  "ToLower table s = (if list_all ascii s then to_lower s else concat (map (lower_rune table) (runes s)))"

lemma utf8_length_ascii [simp]: "ascii c \<Longrightarrow> utf8_length (c # s) = 1"
  by (simp add: utf8_length_def utf8_need_def ascii_def)

lemma concat_runes [simp]: "concat (runes s) = s"
  by (induction s rule: runes.induct) (simp_all add: runes.simps(2))

lemma runes_Nil [simp]: "runes s = [] \<longleftrightarrow> s = []"
  by (cases s) (simp_all add: runes.simps(2))

lemma runes_ascii [simp]: "ascii c \<Longrightarrow> runes (c # s) = [c] # runes s"
  by (simp add: runes.simps(2))

lemma utf8_second_ascii: "ascii d \<Longrightarrow> \<not> utf8_second c d"
  by (simp add: utf8_second_def continuation_def ascii_def Let_def)

lemma utf8_length_le: "utf8_length s \<le> length s"
proof (cases s)
  case (Cons c rest)
  then show ?thesis by (auto simp: utf8_length_def)
qed (simp add: utf8_length_def)

text \<open>A sequence that is cut short by an ASCII character is invalid, with or without what follows.\<close>

lemma utf8_length_append:
  assumes "ascii d"
  shows "utf8_length (c # r @ d # s) = utf8_length (c # r)"
proof (cases "utf8_need c \<le> 1 \<or> utf8_need c - 1 \<le> length r")
  case True
  then show ?thesis by (cases r) (auto simp: utf8_length_def)
next
  case False
  have "\<not> (utf8_second c (hd (r @ d # s)) \<and> list_all (continuation 0x80 0xBF) (take (utf8_need c - 2) (tl (r @ d # s))))"
  proof (cases r)
    case Nil
    then show ?thesis using utf8_second_ascii [OF assms] by simp
  next
    case (Cons e t)
    with False have "length t < utf8_need c - 2" by auto
    then have "utf8_need c - 2 - length t \<noteq> 0" by simp
    then obtain k where "utf8_need c - 2 - length t = Suc k" using not0_implies_Suc by blast
    then have "d \<in> set (take (utf8_need c - 2) (t @ d # s))" by (simp del: diff_diff_left)
    moreover have "\<not> continuation 0x80 0xBF d" using assms by (simp add: continuation_def ascii_def)
    ultimately show ?thesis using Cons by (auto simp: list_all_iff)
  qed
  then show ?thesis using False by (auto simp: utf8_length_def)
qed

lemma runes_append:
  assumes "ascii d"
  shows "runes (a @ d # s) = runes a @ runes (d # s)"
proof (induction a rule: runes.induct)
  case (2 c r)
  let ?n = "max 1 (utf8_length (c # r))"
  have n: "?n - length (c # r) = 0" using utf8_length_le [of "c # r"] by simp
  have "runes ((c # r) @ d # s) = take ?n ((c # r) @ d # s) # runes (drop ?n ((c # r) @ d # s))"
    unfolding append_Cons runes.simps(2) utf8_length_append [OF assms] ..
  also have "\<dots> = take ?n (c # r) # runes (drop ?n (c # r)) @ runes (d # s)"
    unfolding take_append drop_append n take_0 drop_0 append_Nil2 2 ..
  also have "\<dots> = runes (c # r) @ runes (d # s)" by (simp only: runes.simps(2) append_Cons)
  finally show ?case .
qed simp

section \<open>Trimming\<close>

text \<open>A text that trimming leaves alone: it begins and ends with a rune that is not white space.\<close>

definition trimmed :: "string \<Rightarrow> bool" where
  "trimmed s \<longleftrightarrow> s \<noteq> [] \<and> \<not> space_rune (hd (runes s)) \<and> \<not> space_rune (last (runes s))"

lemma dropWhile_hd: "xs \<noteq> [] \<Longrightarrow> \<not> P (hd xs) \<Longrightarrow> dropWhile P xs = xs"
  by (cases xs) simp_all

lemma TrimSpace_trimmed [simp]: "trimmed s \<Longrightarrow> TrimSpace s = s"
  by (simp add: trimmed_def TrimSpace_def dropWhile_hd hd_rev)

lemma TrimSpace_Nil [simp]: "TrimSpace [] = []"
  by (simp add: TrimSpace_def)

lemma ascii_space: "ascii c \<Longrightarrow> space_rune [c] \<longleftrightarrow> (of_char c :: nat) \<in> {9, 10, 11, 12, 13, 32}"
  by (simp add: space_rune_def)

lemma newline_ascii [simp]: "ascii (CHR 0x0A)" and newline_space [simp]: "space_rune [CHR 0x0A]"
  by (simp_all add: ascii_def space_rune_def)

lemma trimmed_cat:
  assumes "ascii c" "\<not> space_rune [c]" "s = [] \<or> \<not> space_rune (last (runes s))"
  shows "trimmed (c # s)"
  using assms by (cases s) (auto simp: trimmed_def)

lemma TrimSpace_newline:
  assumes "trimmed s"
  shows "TrimSpace (s @ [CHR 0x0A]) = s"
proof -
  have "runes (s @ [CHR 0x0A]) = runes s @ [[CHR 0x0A]]" by (simp add: runes_append)
  with assms show ?thesis by (simp add: trimmed_def TrimSpace_def dropWhile_hd hd_rev)
qed

lemma last_runes_append:
  assumes "ascii d" "s \<noteq> []"
  shows "last (runes (a @ d # s)) = last (runes s)"
  using assms by (simp add: runes_append)

section \<open>Trimming\<close>

lemma utf8_length_take:
  assumes "utf8_length s \<le> m" "0 < m"
  shows "utf8_length (take m s) = utf8_length s"
proof (cases s)
  case (Cons c rest)
  obtain k where m: "m = Suc k" using assms(2) by (cases m) auto
  show ?thesis
  proof (cases "utf8_need c \<le> 1 \<or> length (take k rest) < utf8_need c - 1")
    case True
    then show ?thesis
      using assms(1) by (auto simp: Cons m utf8_length_def split: if_splits)
  next
    case False
    then have n: "2 \<le> utf8_need c" "utf8_need c - 1 \<le> k" "utf8_need c - 1 \<le> length rest" by auto
    then have "hd (take k rest) = hd rest" "take (utf8_need c - 2) (tl (take k rest)) = take (utf8_need c - 2) (tl rest)"
      by (auto simp: hd_take tl_take min_def)
    with n False show ?thesis by (simp add: Cons m utf8_length_def)
  qed
qed simp

lemma concat_take_prefix: "concat (take k xs) = take (length (concat (take k xs))) (concat xs)"
proof -
  have "concat xs = concat (take k xs) @ concat (drop k xs)" by (metis append_take_drop_id concat_append)
  then show ?thesis by simp
qed

lemma runes_take: "runes (concat (take k (runes s))) = take k (runes s)"
proof (induction s arbitrary: k rule: runes.induct)
  case (2 c s)
  let ?n = "max 1 (utf8_length (c # s))"
  show ?case
  proof (cases k)
    case (Suc j)
    let ?p = "concat (take j (runes (drop ?n (c # s))))"
    have n: "?n \<le> length (c # s)" using utf8_length_le [of "c # s"] by simp
    have p: "take ?n (c # s) @ ?p = take (?n + length ?p) (c # s)"
      using concat_take_prefix [of j "runes (drop ?n (c # s))"] by (simp add: take_add)
    have "utf8_length (take ?n (c # s) @ ?p) = utf8_length (c # s)"
      unfolding p by (rule utf8_length_take) auto
    moreover obtain x xs where x: "take ?n (c # s) @ ?p = x # xs" by (cases ?n) auto
    ultimately have "runes (take ?n (c # s) @ ?p) = take ?n (x # xs) # runes (drop ?n (x # xs))"
      by (simp add: runes.simps(2))
    also have "\<dots> = take ?n (c # s) # runes ?p" using n unfolding x [symmetric] by simp
    finally show ?thesis using 2 [of j] by (simp add: Suc runes.simps(2))
  qed simp
qed simp

lemma runes_drop: "runes (concat (drop k (runes s))) = drop k (runes s)"
proof (induction s arbitrary: k rule: runes.induct)
  case (2 c s)
  then show ?case by (cases k) (simp_all add: runes.simps(2) [of c s] flip: runes.simps(2))
qed simp

lemma runes_TrimSpace: "runes (TrimSpace s) = rev (dropWhile space_rune (rev (dropWhile space_rune (runes s))))"
proof -
  obtain j where j: "dropWhile space_rune (runes s) = drop j (runes s)" by (metis dropWhile_eq_drop)
  let ?L = "drop j (runes s)"
  obtain i where i: "dropWhile space_rune (rev ?L) = drop i (rev ?L)" by (metis dropWhile_eq_drop)
  have rd: "rev (drop i (rev xs)) = take (length xs - i) xs" for xs :: "string list" by (simp add: rev_drop)
  have "runes (concat (take (length ?L - i) ?L)) = take (length ?L - i) ?L"
    using runes_take [of "length ?L - i" "concat ?L"] unfolding runes_drop .
  then show ?thesis unfolding TrimSpace_def j i rd .
qed

lemma trimmed_TrimSpace: "TrimSpace s = [] \<or> trimmed (TrimSpace s)"
proof (cases "TrimSpace s = []")
  case False
  let ?L = "dropWhile space_rune (runes s)" and ?R = "dropWhile space_rune (rev (dropWhile space_rune (runes s)))"
  from False have ne: "?R \<noteq> []" using runes_TrimSpace [of s] by (metis rev_is_Nil_conv runes_Nil)
  then have "\<not> space_rune (hd ?R)" by (rule hd_dropWhile)
  moreover have "hd (rev ?R) = hd ?L"
  proof -
    have "rev ?L = takeWhile space_rune (rev ?L) @ ?R" by simp
    then have "?L = rev ?R @ rev (takeWhile space_rune (rev ?L))" by (metis rev_append rev_rev_ident)
    then show ?thesis using ne by (metis hd_append2 rev_is_Nil_conv)
  qed
  moreover have "?L \<noteq> []" using ne by (metis dropWhile.simps(1) rev.simps(1))
  then have "\<not> space_rune (hd ?L)" by (rule hd_dropWhile)
  ultimately show ?thesis using False ne by (simp add: trimmed_def runes_TrimSpace last_rev)
qed simp

lemma TrimSpace_idem [simp]: "TrimSpace (TrimSpace s) = TrimSpace s"
  using trimmed_TrimSpace [of s] by auto

lemma set_TrimSpace: "set (TrimSpace s) \<subseteq> set s"
proof -
  have "set (dropWhile space_rune (rev (dropWhile space_rune (runes s)))) \<subseteq> set (runes s)"
    by (metis set_dropWhileD set_rev subsetI)
  then have "set (TrimSpace s) \<subseteq> \<Union> (set ` set (runes s))" unfolding TrimSpace_def set_concat by auto
  also have "\<dots> = set s" using arg_cong [OF concat_runes [of s], of set] unfolding set_concat .
  finally show ?thesis .
qed

end
