(* ===== verification/Fallback.thy ===== *)
theory Fallback
  imports Utf8
begin

text \<open>
  The deterministic text of a conversation fallback (\<open>cli/internal/domain/entities.go\<close>): normalised
  conversation items, the rendered sections, the strict parser that recognises them again, and the
  marker that separates a provider's own baseline from the fallback.
\<close>

abbreviation newline :: char where
  "newline \<equiv> CHR 0x0A"

definition extractiveFallbackHeader :: string where
  "extractiveFallbackHeader =
     ''Conversation digest (extractive fallback; provider compaction summary unavailable):''"

definition extractiveFallbackUsersHeader :: string where
  "extractiveFallbackUsersHeader = ''Recent user intent:''"

definition extractiveFallbackAssistantsHeader :: string where
  "extractiveFallbackAssistantsHeader = ''Recent assistant outcomes:''"

definition extractiveFallbackDeltaMarker :: string where
  "extractiveFallbackDeltaMarker = ''[cxt conversation delta v1]''"

definition AppendExtractiveConversationDelta :: "string \<Rightarrow> string \<Rightarrow> string" where
  "AppendExtractiveConversationDelta baseline delta =
     (if delta = [] then baseline
      else if baseline = [] then delta
      else baseline @ [newline, newline] @ extractiveFallbackDeltaMarker @ [newline] @ delta)"

definition NormalizeExtractiveConversationItem :: "string \<Rightarrow> string" where
  "NormalizeExtractiveConversationItem text =
     (let t = join (CHR '' '') (Fields text) in
      if length (runes t) \<le> 2000 then t
      else concat (map encode_rune (take 2000 (runes t))) @ [CHR 0xE2, CHR 0x80, CHR 0xA6])"

definition fallback_section :: "string \<Rightarrow> string list \<Rightarrow> string" where
  "fallback_section header items =
     (if items = [] then []
      else [newline, newline] @ header @ [newline] @
        concat (map (\<lambda>item. let t = TrimSpace item in if t = [] then [] else ''- '' @ t @ [newline]) items))"

definition RenderExtractiveFallbackSummary :: "string list \<Rightarrow> string list \<Rightarrow> string" where
  "RenderExtractiveFallbackSummary users assistants =
     TrimSpace (extractiveFallbackHeader @ [newline] @
       fallback_section extractiveFallbackUsersHeader users @
       fallback_section extractiveFallbackAssistantsHeader assistants)"

record parse_state =
  fp_section :: nat
  fp_seenUsers :: bool
  fp_seenAssistants :: bool
  fp_users :: "string list"
  fp_assistants :: "string list"

definition parse_item :: "string \<Rightarrow> parse_state \<Rightarrow> parse_state option" where
  "parse_item line st =
     (if fp_section st = 0 \<or> \<not> has_prefix ''- '' line then None
      else let item = TrimSpace (trim_prefix ''- '' line) in
        if item = [] then None
        else if fp_section st = 1 then Some (st\<lparr>fp_users := fp_users st @ [item]\<rparr>)
        else Some (st\<lparr>fp_assistants := fp_assistants st @ [item]\<rparr>))"

definition parse_line :: "string \<Rightarrow> parse_state \<Rightarrow> parse_state option" where
  "parse_line raw st =
     (let line = TrimSpace raw in
      if line = [] then Some st
      else if line = extractiveFallbackUsersHeader then
        if fp_seenUsers st \<or> fp_seenAssistants st then None else Some (st\<lparr>fp_seenUsers := True, fp_section := 1\<rparr>)
      else if line = extractiveFallbackAssistantsHeader then
        if fp_seenAssistants st then None else Some (st\<lparr>fp_seenAssistants := True, fp_section := 2\<rparr>)
      else parse_item line st)"

fun parse_lines :: "string list \<Rightarrow> parse_state \<Rightarrow> parse_state option" where
  "parse_lines [] st = Some st"
| "parse_lines (raw # lines) st = (case parse_line raw st of None \<Rightarrow> None | Some st' \<Rightarrow> parse_lines lines st')"

definition start_state :: parse_state where
  "start_state = \<lparr>fp_section = 0, fp_seenUsers = False, fp_seenAssistants = False, fp_users = [], fp_assistants = []\<rparr>"

definition parseExtractiveFallbackSummary :: "string \<Rightarrow> (string list \<times> string list) option" where
  "parseExtractiveFallbackSummary summary =
     (case split_on newline (TrimSpace summary) of
        [] \<Rightarrow> None
      | first # lines \<Rightarrow>
          if TrimSpace first \<noteq> extractiveFallbackHeader then None
          else (case parse_lines lines start_state of
                  None \<Rightarrow> None
                | Some st \<Rightarrow> if fp_users st = [] \<and> fp_assistants st = [] then None
                             else Some (fp_users st, fp_assistants st)))"

text \<open>\<open>strings.LastIndex\<close>: the last position at which \<open>sub\<close> occurs.\<close>

definition LastIndex :: "string \<Rightarrow> string \<Rightarrow> nat option" where
  "LastIndex s sub = find (\<lambda>i. has_prefix sub (drop i s)) (rev [0..<Suc (length s)])"

definition delta_marker :: string where
  "delta_marker = [newline, newline] @ extractiveFallbackDeltaMarker @ [newline]"

text \<open>The result is the baseline, and the items when the text carries a fallback.\<close>

definition splitExtractiveFallbackSummary :: "string \<Rightarrow> string \<times> (string list \<times> string list) option" where
  "splitExtractiveFallbackSummary summary =
     (let s = TrimSpace summary in
      case parseExtractiveFallbackSummary s of
        Some items \<Rightarrow> ([], Some items)
      | None \<Rightarrow>
          (case LastIndex s delta_marker of
             None \<Rightarrow> (s, None)
           | Some at \<Rightarrow>
               (case parseExtractiveFallbackSummary (drop (at + length delta_marker) s) of
                  Some items \<Rightarrow> (TrimSpace (take at s), Some items)
                | None \<Rightarrow> (s, None))))"

section \<open>The lines of a rendered fallback\<close>

definition fallback_item :: "string \<Rightarrow> bool" where
  "fallback_item s \<longleftrightarrow> trimmed s \<and> newline \<notin> set s"

definition section_lines :: "string \<Rightarrow> string list \<Rightarrow> string list" where
  "section_lines header items = (if items = [] then [] else [[], [], header] @ map (\<lambda>i. ''- '' @ i) items)"

definition fallback_lines :: "string list \<Rightarrow> string list \<Rightarrow> string list" where
  "fallback_lines users assistants =
     extractiveFallbackHeader # section_lines extractiveFallbackUsersHeader users @
       section_lines extractiveFallbackAssistantsHeader assistants"

lemma split_on_append: "split_on c (x @ c # y) = split_on c x @ split_on c y"
  by (induction x) (auto split: list.splits)

lemma join_lines: "ls \<noteq> [] \<Longrightarrow> join c ls @ [c] = concat (map (\<lambda>l. l @ [c]) ls)"
proof (induction ls rule: induct_list012)
  case (3 x y zs)
  then show ?case by simp
qed simp_all

lemma split_on_join:
  assumes "ls \<noteq> []" "\<forall>l \<in> set ls. c \<notin> set l"
  shows "split_on c (join c ls) = ls"
  using assms by (induction ls rule: induct_list012) (simp_all add: split_on_append)

lemma section_text:
  assumes "\<forall>i \<in> set items. fallback_item i"
  shows "fallback_section header items = concat (map (\<lambda>l. l @ [newline]) (section_lines header items))"
proof -
  have "(let t = TrimSpace i in if t = [] then [] else ''- '' @ t @ [newline]) = ''- '' @ i @ [newline]"
    if "i \<in> set items" for i
    using assms that by (auto simp: fallback_item_def trimmed_def Let_def)
  then have "concat (map (\<lambda>i. let t = TrimSpace i in if t = [] then [] else ''- '' @ t @ [newline]) items) =
      concat (map (\<lambda>i. ''- '' @ i @ [newline]) items)"
    by (intro arg_cong [where f = concat] map_cong) simp_all
  then show ?thesis by (simp add: fallback_section_def section_lines_def o_def)
qed

lemma rendered_text:
  assumes "\<forall>i \<in> set users \<union> set assistants. fallback_item i"
  shows "extractiveFallbackHeader @ [newline] @ fallback_section extractiveFallbackUsersHeader users @
      fallback_section extractiveFallbackAssistantsHeader assistants =
    join newline (fallback_lines users assistants) @ [newline]"
proof -
  have ne: "fallback_lines users assistants \<noteq> []" by (simp add: fallback_lines_def)
  show ?thesis
    unfolding join_lines [OF ne] using section_text [of users] section_text [of assistants] assms
    by (simp add: fallback_lines_def)
qed

lemma constants_trimmed:
  "trimmed extractiveFallbackHeader" "trimmed extractiveFallbackUsersHeader"
  "trimmed extractiveFallbackAssistantsHeader" "trimmed extractiveFallbackDeltaMarker"
  by code_simp+

lemma constants_newline:
  "newline \<notin> set extractiveFallbackHeader" "newline \<notin> set extractiveFallbackUsersHeader"
  "newline \<notin> set extractiveFallbackAssistantsHeader" "newline \<notin> set extractiveFallbackDeltaMarker"
  by code_simp+

lemma item_line_last:
  assumes "trimmed i"
  shows "last (runes (''- '' @ i)) = last (runes i)"
  using assms by (simp add: ascii_def trimmed_def)

lemma item_line:
  assumes "fallback_item i"
  shows "trimmed (''- '' @ i)" "newline \<notin> set (''- '' @ i)"
proof -
  have "\<not> space_rune (last (runes (CHR '' '' # i)))" using assms by (simp add: ascii_def trimmed_def fallback_item_def)
  then show "trimmed (''- '' @ i)" by (simp add: trimmed_cat ascii_def space_rune_def)
  show "newline \<notin> set (''- '' @ i)" using assms by (simp add: fallback_item_def)
qed

lemma fallback_lines_newline:
  assumes "\<forall>i \<in> set users \<union> set assistants. fallback_item i"
  shows "\<forall>l \<in> set (fallback_lines users assistants). newline \<notin> set l"
  using assms item_line(2) constants_newline by (auto simp: fallback_lines_def section_lines_def)

lemma last_section:
  assumes "items \<noteq> []" "\<forall>i \<in> set items. fallback_item i"
  shows "trimmed (last (section_lines header items))"
  using assms item_line(1) [of "last items"] by (simp add: section_lines_def last_map)

lemma join_butlast: "tl ls \<noteq> [] \<Longrightarrow> join c ls = join c (butlast ls) @ c # last ls"
proof (induction ls rule: induct_list012)
  case (3 x y zs)
  then show ?case by (cases zs) simp_all
qed simp_all

lemma join_hd: "tl ls \<noteq> [] \<Longrightarrow> join c ls = hd ls @ c # join c (tl ls)"
  by (induction ls rule: induct_list012) simp_all

lemma join_trimmed:
  assumes "ls \<noteq> []" "trimmed (hd ls)" "trimmed (last ls)"
  shows "trimmed (join newline ls)"
proof (cases "tl ls = []")
  case True
  with assms show ?thesis by (cases ls) simp_all
next
  case False
  have "hd (runes (join newline ls)) = hd (runes (hd ls))"
    using assms(2) unfolding join_hd [OF False] by (simp add: runes_append trimmed_def)
  moreover have "last (runes (join newline ls)) = last (runes (last ls))"
    using assms(3) unfolding join_butlast [OF False] by (simp add: runes_append trimmed_def)
  ultimately show ?thesis using assms False by (simp add: trimmed_def join_hd)
qed

lemma Render_lines:
  assumes "\<forall>i \<in> set users \<union> set assistants. fallback_item i" "users \<noteq> [] \<or> assistants \<noteq> []"
  shows "RenderExtractiveFallbackSummary users assistants = join newline (fallback_lines users assistants)"
    and "trimmed (join newline (fallback_lines users assistants))"
proof -
  have "trimmed (last (fallback_lines users assistants))"
  proof (cases "assistants = []")
    case True
    then have "section_lines extractiveFallbackUsersHeader users \<noteq> []" using assms(2) by (simp add: section_lines_def)
    with True assms last_section [of users extractiveFallbackUsersHeader] show ?thesis
      by (simp add: fallback_lines_def section_lines_def)
  next
    case False
    then have "section_lines extractiveFallbackAssistantsHeader assistants \<noteq> []" by (simp add: section_lines_def)
    with False assms(1) last_section [of assistants extractiveFallbackAssistantsHeader] show ?thesis
      by (simp add: fallback_lines_def)
  qed
  then show t: "trimmed (join newline (fallback_lines users assistants))"
    by (intro join_trimmed) (simp_all add: fallback_lines_def constants_trimmed)
  from TrimSpace_newline [OF this] show
    "RenderExtractiveFallbackSummary users assistants = join newline (fallback_lines users assistants)"
    unfolding RenderExtractiveFallbackSummary_def rendered_text [OF assms(1)] .
qed

section \<open>Parsing it back\<close>

lemma parse_line_item:
  assumes "fallback_item i"
  shows "parse_line (''- '' @ i) st =
    (if fp_section st = 0 then None
     else Some (if fp_section st = 1 then st\<lparr>fp_users := fp_users st @ [i]\<rparr> else st\<lparr>fp_assistants := fp_assistants st @ [i]\<rparr>))"
proof -
  have "TrimSpace (''- '' @ i) = ''- '' @ i" "TrimSpace i = i" "i \<noteq> []"
    using item_line(1) [OF assms] assms by (auto simp: fallback_item_def trimmed_def)
  moreover have "''- '' @ i \<noteq> extractiveFallbackUsersHeader" "''- '' @ i \<noteq> extractiveFallbackAssistantsHeader"
    by (simp_all add: extractiveFallbackUsersHeader_def extractiveFallbackAssistantsHeader_def)
  moreover have "has_prefix ''- '' (''- '' @ i)" "trim_prefix ''- '' (''- '' @ i) = i" by (rule has_prefix_append, rule trim_prefix_append)
  ultimately show ?thesis unfolding parse_line_def parse_item_def Let_def by simp
qed

lemma parse_users:
  "\<forall>i \<in> set items. fallback_item i \<Longrightarrow> fp_section st = 1 \<Longrightarrow>
     parse_lines (map (\<lambda>i. ''- '' @ i) items @ rest) st = parse_lines rest (st\<lparr>fp_users := fp_users st @ items\<rparr>)"
  by (induction items arbitrary: st) (simp_all add: parse_line_item [simplified])

lemma parse_assistants:
  "\<forall>i \<in> set items. fallback_item i \<Longrightarrow> fp_section st = 2 \<Longrightarrow>
     parse_lines (map (\<lambda>i. ''- '' @ i) items @ rest) st = parse_lines rest (st\<lparr>fp_assistants := fp_assistants st @ items\<rparr>)"
  by (induction items arbitrary: st) (simp_all add: parse_line_item [simplified])

lemma parse_blank: "parse_line [] st = Some st"
  by (simp add: parse_line_def)

lemma parse_headers:
  "parse_line extractiveFallbackUsersHeader st =
     (if fp_seenUsers st \<or> fp_seenAssistants st then None else Some (st\<lparr>fp_seenUsers := True, fp_section := 1\<rparr>))"
  "parse_line extractiveFallbackAssistantsHeader st =
     (if fp_seenAssistants st then None else Some (st\<lparr>fp_seenAssistants := True, fp_section := 2\<rparr>))"
proof -
  have "extractiveFallbackUsersHeader \<noteq> []" "extractiveFallbackAssistantsHeader \<noteq> []"
    "extractiveFallbackAssistantsHeader \<noteq> extractiveFallbackUsersHeader"
    by (simp_all add: extractiveFallbackUsersHeader_def extractiveFallbackAssistantsHeader_def)
  then show "parse_line extractiveFallbackUsersHeader st =
     (if fp_seenUsers st \<or> fp_seenAssistants st then None else Some (st\<lparr>fp_seenUsers := True, fp_section := 1\<rparr>))"
    "parse_line extractiveFallbackAssistantsHeader st =
     (if fp_seenAssistants st then None else Some (st\<lparr>fp_seenAssistants := True, fp_section := 2\<rparr>))"
    by (simp_all add: parse_line_def constants_trimmed)
qed

lemma parse_head:
  "parse_lines ([[], [], header] @ lines) st = (case parse_line header st of None \<Rightarrow> None | Some st' \<Rightarrow> parse_lines lines st')"
  by (simp add: parse_blank)

lemma parse_sections:
  assumes "\<forall>i \<in> set items. fallback_item i" "\<not> fp_seenAssistants st"
  shows "\<not> fp_seenUsers st \<Longrightarrow>
      parse_lines (section_lines extractiveFallbackUsersHeader items @ rest) st =
        parse_lines rest (if items = [] then st
          else st\<lparr>fp_seenUsers := True, fp_section := 1, fp_users := fp_users st @ items\<rparr>)"
    and "parse_lines (section_lines extractiveFallbackAssistantsHeader items @ rest) st =
        parse_lines rest (if items = [] then st
          else st\<lparr>fp_seenAssistants := True, fp_section := 2, fp_assistants := fp_assistants st @ items\<rparr>)"
  using assms(2) parse_users [OF assms(1), of "st\<lparr>fp_seenUsers := True, fp_section := 1\<rparr>" rest]
    parse_assistants [OF assms(1), of "st\<lparr>fp_seenAssistants := True, fp_section := 2\<rparr>" rest]
  unfolding section_lines_def
  by (auto simp: parse_head parse_headers simp del: append_Cons)

lemma parse_fallback_lines:
  assumes "\<forall>i \<in> set users \<union> set assistants. fallback_item i"
  shows "\<exists>st. parse_lines (section_lines extractiveFallbackUsersHeader users @
      section_lines extractiveFallbackAssistantsHeader assistants) start_state = Some st \<and>
    fp_users st = users \<and> fp_assistants st = assistants"
proof -
  have u: "\<forall>i \<in> set users. fallback_item i" and a: "\<forall>i \<in> set assistants. fallback_item i" using assms by simp_all
  show ?thesis
    using parse_sections(1) [OF u, of start_state]
      parse_sections(2) [OF a, of "if users = [] then start_state
          else start_state\<lparr>fp_seenUsers := True, fp_section := 1, fp_users := fp_users start_state @ users\<rparr>" "[]"]
    by (simp add: start_state_def)
qed

lemma parse_rendered:
  assumes "\<forall>i \<in> set users \<union> set assistants. fallback_item i" "users \<noteq> [] \<or> assistants \<noteq> []"
  shows "parseExtractiveFallbackSummary (RenderExtractiveFallbackSummary users assistants) = Some (users, assistants)"
proof -
  note r = Render_lines [OF assms]
  have "split_on newline (join newline (fallback_lines users assistants)) = fallback_lines users assistants"
    by (intro split_on_join fallback_lines_newline assms) (simp add: fallback_lines_def)
  then show ?thesis
    using parse_fallback_lines [OF assms(1)] assms(2) r(2)
    unfolding parseExtractiveFallbackSummary_def r(1)
    by (auto simp: fallback_lines_def constants_trimmed)
qed

text \<open>A line that is neither blank, nor a header, nor an item makes the whole text unstructured.\<close>

lemma parse_lines_foreign:
  assumes "l \<in> set lines" "TrimSpace l = extractiveFallbackDeltaMarker"
  shows "parse_lines lines st = None"
  using assms(1)
proof (induction lines arbitrary: st)
  case (Cons raw lines)
  have "parse_line l st = None" for st
    unfolding parse_line_def parse_item_def assms(2) Let_def has_prefix_def
      extractiveFallbackDeltaMarker_def extractiveFallbackUsersHeader_def extractiveFallbackAssistantsHeader_def by simp
  with Cons show ?case by (auto split: option.splits)
qed simp

section \<open>The last marker\<close>

lemma find_skip: "\<forall>x \<in> set xs. \<not> P x \<Longrightarrow> find P (xs @ ys) = find P ys"
  by (induction xs) auto

lemma LastIndex_eq:
  assumes "k \<le> length s" "has_prefix sub (drop k s)" "\<And>i. k < i \<Longrightarrow> i \<le> length s \<Longrightarrow> \<not> has_prefix sub (drop i s)"
  shows "LastIndex s sub = Some k"
proof -
  have "[0..<Suc (length s)] = [0..<k] @ k # [Suc k..<Suc (length s)]"
    using assms(1) by (metis le_imp_less_Suc less_imp_le_nat upt_add_eq_append le_add_diff_inverse upt_conv_Cons zero_le plus_nat.add_0)
  then have "rev [0..<Suc (length s)] = rev [Suc k..<Suc (length s)] @ k # rev [0..<k]" by simp
  moreover have "\<forall>i \<in> set (rev [Suc k..<Suc (length s)]). \<not> has_prefix sub (drop i s)"
    using assms(3) by (simp add: Suc_le_eq less_Suc_eq_le del: upt_Suc)
  ultimately show ?thesis unfolding LastIndex_def using assms(2) by (simp add: find_skip del: upt_Suc)
qed

lemma split_on_marker:
  "split_on newline (x @ delta_marker @ y) =
     split_on newline x @ [[], extractiveFallbackDeltaMarker] @ split_on newline y"
proof -
  have m: "split_on newline extractiveFallbackDeltaMarker = [extractiveFallbackDeltaMarker]"
    by (simp add: extractiveFallbackDeltaMarker_def)
  have "x @ delta_marker @ y = x @ newline # [] @ newline # extractiveFallbackDeltaMarker @ newline # y"
    by (simp add: delta_marker_def)
  then show ?thesis by (simp only: split_on_append m) simp
qed

lemma marker_not_in_lines:
  assumes "\<forall>i \<in> set users \<union> set assistants. fallback_item i"
  shows "extractiveFallbackDeltaMarker \<notin> set (fallback_lines users assistants)"
  by (auto simp: fallback_lines_def section_lines_def extractiveFallbackDeltaMarker_def
      extractiveFallbackHeader_def extractiveFallbackUsersHeader_def extractiveFallbackAssistantsHeader_def)

lemma marker_unique:
  assumes "extractiveFallbackDeltaMarker \<notin> set (split_on newline y)" "delta_marker @ y = x @ delta_marker @ z"
  shows "x = []"
proof (rule ccontr)
  let ?M = extractiveFallbackDeltaMarker
  assume "x \<noteq> []"
  with assms(2) obtain x' where x: "x = newline # x'" by (cases x) (auto simp: delta_marker_def)
  let ?L = "split_on newline x" and ?R = "split_on newline y"
  have two: "2 \<le> length ?L"
    using split_on_append [of newline "[]" x'] split_on_not_Nil [of newline x'] by (cases "split_on newline x'") (simp_all add: x)
  have eq: "[[], [], ?M] @ ?R = (?L @ [[]]) @ ?M # split_on newline z"
    using split_on_marker [of "[]" y] split_on_marker [of x z] assms(2) by simp
  have "?M = ((?L @ [[]]) @ ?M # split_on newline z) ! length (?L @ [[]])" by (rule nth_append_length [symmetric])
  also have "\<dots> = ?R ! (length ?L - 2)" using two unfolding eq [symmetric] by (simp add: nth_append numeral_2_eq_2)
  finally have "?M = ?R ! (length ?L - 2)" .
  moreover have "length ?L - 2 < length ?R" using arg_cong [OF eq, of length] two by simp
  ultimately show False using assms(1) by (metis nth_mem)
qed

lemma LastIndex_marker:
  assumes "extractiveFallbackDeltaMarker \<notin> set (split_on newline y)"
  shows "LastIndex (b @ delta_marker @ y) delta_marker = Some (length b)"
proof (rule LastIndex_eq)
  show "has_prefix delta_marker (drop (length b) (b @ delta_marker @ y))" by (simp add: has_prefix_append)
next
  fix i assume i: "length b < i" "i \<le> length (b @ delta_marker @ y)"
  let ?t = "delta_marker @ y" and ?k = "i - length b"
  show "\<not> has_prefix delta_marker (drop i (b @ delta_marker @ y))"
  proof
    assume "has_prefix delta_marker (drop i (b @ delta_marker @ y))"
    then have "take (length delta_marker) (drop ?k ?t) = delta_marker" using i by (simp add: has_prefix_def)
    then have "?t = take ?k ?t @ delta_marker @ drop (length delta_marker) (drop ?k ?t)"
      by (metis append_take_drop_id)
    from marker_unique [OF assms this] have "take ?k ?t = []" .
    with i show False by (simp add: delta_marker_def)
  qed
qed simp

lemma appended_trimmed:
  assumes "trimmed b" "trimmed y"
  shows "trimmed (b @ delta_marker @ y)"
proof -
  have b: "b @ delta_marker @ y = b @ newline # (newline # extractiveFallbackDeltaMarker @ newline # y)"
    by (simp add: delta_marker_def)
  have "last (runes (b @ delta_marker @ y)) = last (runes y)"
    using last_runes_append [OF newline_ascii, of y "b @ [newline, newline] @ extractiveFallbackDeltaMarker"] assms(2)
    by (simp add: delta_marker_def trimmed_def)
  moreover have "hd (runes (b @ delta_marker @ y)) = hd (runes b)"
    using assms(1) unfolding b runes_append [OF newline_ascii] by (simp add: trimmed_def)
  ultimately show ?thesis using assms by (simp add: trimmed_def)
qed

lemma parse_appended: "b \<noteq> [] \<Longrightarrow> trimmed (b @ delta_marker @ y) \<Longrightarrow>
    parseExtractiveFallbackSummary (b @ delta_marker @ y) = None"
proof -
  assume t: "b \<noteq> []" "trimmed (b @ delta_marker @ y)"
  obtain f fs where f: "split_on newline b = f # fs" using split_on_not_Nil [of newline b] by (cases "split_on newline b") auto
  have "parse_lines (fs @ [] # extractiveFallbackDeltaMarker # split_on newline y) start_state = None"
    by (rule parse_lines_foreign [of extractiveFallbackDeltaMarker]) (simp_all add: constants_trimmed)
  then show ?thesis
    unfolding parseExtractiveFallbackSummary_def TrimSpace_trimmed [OF t(2)] split_on_marker f by simp
qed

lemma split_rendered:
  assumes "\<forall>i \<in> set users \<union> set assistants. fallback_item i" "users \<noteq> [] \<or> assistants \<noteq> []"
  shows "splitExtractiveFallbackSummary (RenderExtractiveFallbackSummary users assistants) = ([], Some (users, assistants))"
proof -
  have "trimmed (RenderExtractiveFallbackSummary users assistants)" using Render_lines [OF assms] by simp
  then show ?thesis unfolding splitExtractiveFallbackSummary_def Let_def by (simp add: parse_rendered [OF assms])
qed

lemma split_appended:
  assumes "\<forall>i \<in> set users \<union> set assistants. fallback_item i" "users \<noteq> [] \<or> assistants \<noteq> []" "trimmed baseline"
  shows "splitExtractiveFallbackSummary
      (AppendExtractiveConversationDelta baseline (RenderExtractiveFallbackSummary users assistants)) =
      (baseline, Some (users, assistants))"
proof -
  let ?r = "RenderExtractiveFallbackSummary users assistants"
  note r = Render_lines [OF assms(1,2)] and p = parse_rendered [OF assms(1,2)]
  have tr: "trimmed ?r" using r by simp
  have b: "baseline \<noteq> []" "?r \<noteq> []" using assms(3) tr by (simp_all add: trimmed_def)
  have app: "AppendExtractiveConversationDelta baseline ?r = baseline @ delta_marker @ ?r"
    using b by (simp add: AppendExtractiveConversationDelta_def delta_marker_def)
  have ta: "trimmed (baseline @ delta_marker @ ?r)" by (rule appended_trimmed [OF assms(3) tr])
  have "split_on newline ?r = fallback_lines users assistants"
    unfolding r(1) by (intro split_on_join fallback_lines_newline assms) (simp add: fallback_lines_def)
  then have "LastIndex (baseline @ delta_marker @ ?r) delta_marker = Some (length baseline)"
    using marker_not_in_lines [OF assms(1)] by (intro LastIndex_marker) simp
  then show ?thesis
    unfolding splitExtractiveFallbackSummary_def app Let_def TrimSpace_trimmed [OF ta] parse_appended [OF b(1) ta]
    using assms(3) p by simp
qed

text \<open>C23: the text a fallback summary is stored as loses nothing.  For conversation items that are
non-empty single trimmed lines, and not both lists empty, splitting the rendered summary gives no
baseline and exactly those items; splitting the same summary appended as a delta to any trimmed
baseline text, one that is itself a fallback or that carries an earlier delta marker included, gives
that baseline and exactly those items.\<close>

theorem split_fallback_roundtrip:
  assumes "\<forall>i \<in> set users \<union> set assistants. fallback_item i" "users \<noteq> [] \<or> assistants \<noteq> []" "trimmed baseline"
  shows "splitExtractiveFallbackSummary (RenderExtractiveFallbackSummary users assistants) = ([], Some (users, assistants)) \<and>
    splitExtractiveFallbackSummary
      (AppendExtractiveConversationDelta baseline (RenderExtractiveFallbackSummary users assistants)) =
      (baseline, Some (users, assistants))"
  using split_rendered [OF assms(1,2)] split_appended [OF assms] by simp

theorem split_fallback_roundtrip_witness:
  "splitExtractiveFallbackSummary
     (AppendExtractiveConversationDelta ''Ship the parser'' (RenderExtractiveFallbackSummary [''add tests'', ''fix - bug''] [''done''])) =
     (''Ship the parser'', Some ([''add tests'', ''fix - bug''], [''done'']))"
proof -
  have "\<forall>i \<in> set [''add tests'', ''fix - bug''] \<union> set [''done'']. fallback_item i" by code_simp
  moreover have "trimmed ''Ship the parser''" by code_simp
  ultimately show ?thesis
    using split_fallback_roundtrip [of "[''add tests'', ''fix - bug'']" "[''done'']" "''Ship the parser''"] by blast
qed

section \<open>What splitting returns\<close>

definition fallback_items :: "parse_state \<Rightarrow> bool" where
  "fallback_items st \<longleftrightarrow> (\<forall>i \<in> set (fp_users st) \<union> set (fp_assistants st). fallback_item i)"

lemma parse_line_items:
  assumes "parse_line raw st = Some st'" "newline \<notin> set raw" "fallback_items st"
  shows "fallback_items st'"
proof -
  let ?item = "TrimSpace (trim_prefix ''- '' (TrimSpace raw))"
  have "set (trim_prefix ''- '' (TrimSpace raw)) \<subseteq> set (TrimSpace raw)"
    by (auto simp: trim_prefix_def dest: in_set_dropD)
  then have "newline \<notin> set ?item" using assms(2) set_TrimSpace [of raw] set_TrimSpace by blast
  then have "?item \<noteq> [] \<Longrightarrow> fallback_item ?item" using trimmed_TrimSpace by (auto simp: fallback_item_def)
  then show ?thesis
    using assms(1,3) by (auto simp: parse_line_def parse_item_def Let_def fallback_items_def split: if_splits)
qed

lemma parse_lines_items:
  "parse_lines lines st = Some st' \<Longrightarrow> \<forall>l \<in> set lines. newline \<notin> set l \<Longrightarrow> fallback_items st \<Longrightarrow> fallback_items st'"
proof (induction lines arbitrary: st)
  case (Cons raw lines)
  then obtain s1 where "parse_line raw st = Some s1" "parse_lines lines s1 = Some st'" by (auto split: option.splits)
  with Cons parse_line_items show ?case by (meson list.set_intros)
qed simp

lemma parse_fallback_items:
  assumes "parseExtractiveFallbackSummary t = Some (us, as)"
  shows "(\<forall>i \<in> set us \<union> set as. fallback_item i) \<and> (us \<noteq> [] \<or> as \<noteq> [])"
proof -
  from assms obtain first ls st where l: "split_on newline (TrimSpace t) = first # ls" "parse_lines ls start_state = Some st"
    "us = fp_users st" "as = fp_assistants st" "us \<noteq> [] \<or> as \<noteq> []"
    by (auto simp: parseExtractiveFallbackSummary_def split: list.splits if_splits option.splits)
  have "\<forall>l \<in> set ls. newline \<notin> set l" using split_on_sep_free [of _ newline "TrimSpace t"] l(1) by auto
  moreover have "fallback_items start_state" by (simp add: fallback_items_def start_state_def)
  ultimately have "fallback_items st" using parse_lines_items [OF l(2)] by blast
  then show ?thesis using l(3-5) by (simp add: fallback_items_def)
qed

lemma split_shape:
  assumes "splitExtractiveFallbackSummary t = (b, items)"
  shows "(b = [] \<or> trimmed b) \<and>
    (case items of None \<Rightarrow> b = TrimSpace t
     | Some (us, as) \<Rightarrow> (\<forall>i \<in> set us \<union> set as. fallback_item i) \<and> (us \<noteq> [] \<or> as \<noteq> []))"
  using assms trimmed_TrimSpace parse_fallback_items
  by (auto simp: splitExtractiveFallbackSummary_def Let_def split: option.splits)

end
