(* ===== verification/Memory.thy ===== *)
theory Memory
  imports Fallback Events "HOL-Library.Word"
begin

text \<open>
  Distilled memory (\<open>entities.go\<close>, \<open>memory_sequence.go\<close>, \<open>memory_claims.go\<close>). A digest carries fragments,
  one per contributing snapshot; its summary, facts and tasks are rendered from them. Digests are merged
  along the history: pairwise by \<open>MergeDigests\<close>, or a whole sequence at once by \<open>MergeDigestSequence\<close>.
  A nil slice and an empty one are not told apart here, except for the paths of a code claim, whose JSON
  form is part of the key of a fragment.
\<close>

section \<open>Data\<close>

record MemoryCodeScope =
  ms_Commit :: string
  ms_Parent :: string
  ms_Paths :: "string slice"

record MemoryClaim =
  mc_Kind :: string
  mc_Text :: string
  mc_Code :: "MemoryCodeScope option"

record MemoryFragment =
  mf_SourceSnapshot :: string
  mf_Summary :: string
  mf_KeyFacts :: "string list"
  mf_OpenTasks :: "string list"
  mf_TasksAuthoritative :: bool
  mf_Claims :: "MemoryClaim list"

record MemoryGraftCoverage =
  gc_ProjectionVersion :: "32 word"
  gc_ProjectionComplete :: bool
  gc_LineageFingerprint :: string
  gc_GraftSeq :: "64 word"
  gc_GraftParents :: "string list"
  gc_PinnedSources :: "string list"

record MemoryDigest =
  md_SnapshotID :: string
  md_PreviousMemoryHash :: string
  md_Summary :: string
  md_KeyFacts :: "string list"
  md_OpenTasks :: "string list"
  md_TasksAuthoritative :: bool
  md_Provider :: string
  md_Fragments :: "MemoryFragment list"
  md_GraftCoverage :: "MemoryGraftCoverage option"
  md_ClaimsVersion :: "32 word"

definition MemoryClaimsVersion :: "32 word" where
  "MemoryClaimsVersion = 1"

definition zero_digest :: MemoryDigest where
  "zero_digest = \<lparr>md_SnapshotID = [], md_PreviousMemoryHash = [], md_Summary = [], md_KeyFacts = [],
     md_OpenTasks = [], md_TasksAuthoritative = False, md_Provider = [], md_Fragments = [],
     md_GraftCoverage = None, md_ClaimsVersion = 0\<rparr>"

section \<open>Lists without repetition\<close>

text \<open>The loops with a \<open>seen\<close> map: admissible elements whose key did not occur before.\<close>

fun first_seen :: "('a \<Rightarrow> 'k) \<Rightarrow> ('a \<Rightarrow> bool) \<Rightarrow> 'k list \<Rightarrow> 'a list \<Rightarrow> 'a list" where
  "first_seen key admit seen [] = []"
| "first_seen key admit seen (x # xs) =
     (if \<not> admit x \<or> key x \<in> set seen then first_seen key admit seen xs
      else x # first_seen key admit (key x # seen) xs)"

definition dedupStrings :: "string list list \<Rightarrow> string list" where
  "dedupStrings items = first_seen (\<lambda>s. s) (\<lambda>s. s \<noteq> []) [] (concat items)"

definition code_scope_json :: "MemoryCodeScope \<Rightarrow> json" where
  "code_scope_json s = JObj ([(''commit'', JStr (ms_Commit s))] @
     omitempty (ms_Parent s = []) ''parent'' (JStr (ms_Parent s)) @
     [(''paths'', slice_json JStr (ms_Paths s))])"

definition claim_json :: "MemoryClaim \<Rightarrow> json" where
  "claim_json c = JObj ([(''kind'', JStr (mc_Kind c)), (''text'', JStr (mc_Text c))] @
     (case mc_Code c of None \<Rightarrow> [] | Some s \<Rightarrow> [(''code'', code_scope_json s)]))"

definition fragment_json :: "MemoryFragment \<Rightarrow> json" where
  "fragment_json f = JObj ([(''source_snapshot'', JStr (mf_SourceSnapshot f))] @
     omitempty (mf_Summary f = []) ''summary'' (JStr (mf_Summary f)) @
     omitempty (mf_KeyFacts f = []) ''key_facts'' (JArr (map JStr (mf_KeyFacts f))) @
     omitempty (mf_OpenTasks f = []) ''open_tasks'' (JArr (map JStr (mf_OpenTasks f))) @
     omitempty (\<not> mf_TasksAuthoritative f) ''tasks_authoritative'' (JBool (mf_TasksAuthoritative f)) @
     omitempty (mf_Claims f = []) ''claims'' (JArr (map claim_json (mf_Claims f))))"

definition memoryFragmentKey :: "MemoryFragment \<Rightarrow> string" where
  "memoryFragmentKey fragment = json_text (fragment_json fragment)"

definition mergeMemoryFragments :: "MemoryFragment list list \<Rightarrow> MemoryFragment list" where
  "mergeMemoryFragments groups = first_seen memoryFragmentKey (\<lambda>f. mf_SourceSnapshot f \<noteq> []) [] (concat groups)"

section \<open>Rendering\<close>

fun join_text :: "string \<Rightarrow> string list \<Rightarrow> string" where
  "join_text sep [] = []"
| "join_text sep [x] = x"
| "join_text sep (x # y # ys) = x @ sep @ join_text sep (y # ys)"

record render_state =
  rd_summaries :: "string list"
  rd_fallbackInsertAt :: "nat option"
  rd_fallbackUsers :: "string list"
  rd_fallbackAssistants :: "string list"
  rd_facts :: "string list"
  rd_tasks :: "string list"

definition render_summary :: "string \<Rightarrow> render_state \<Rightarrow> render_state" where
  "render_summary text st =
     (let summary = TrimSpace text in
      if summary = [] then st
      else case splitExtractiveFallbackSummary summary of
        (baseline, items) \<Rightarrow>
          let known = rd_summaries st;
              summaries = (if baseline \<noteq> [] \<and> baseline \<notin> set known then known @ [baseline] else known)
          in case items of
               Some (users, assistants) \<Rightarrow>
                 st\<lparr>rd_summaries := summaries, rd_fallbackInsertAt := Some (length summaries),
                    rd_fallbackUsers := dedupStrings [rd_fallbackUsers st, users],
                    rd_fallbackAssistants := dedupStrings [rd_fallbackAssistants st, assistants]\<rparr>
             | None \<Rightarrow>
                 st\<lparr>rd_summaries := (if baseline = [] \<and> summary \<notin> set summaries then summaries @ [summary] else summaries)\<rparr>)"

definition render_fragment :: "MemoryFragment \<Rightarrow> render_state \<Rightarrow> render_state" where
  "render_fragment f st0 =
     (let st = render_summary (mf_Summary f) st0 in
      st\<lparr>rd_facts := dedupStrings [rd_facts st, mf_KeyFacts f],
         rd_tasks := (if mf_TasksAuthoritative f then dedupStrings [mf_OpenTasks f]
                      else dedupStrings [rd_tasks st, mf_OpenTasks f])\<rparr>)"

definition render_start :: render_state where
  "render_start = \<lparr>rd_summaries = [], rd_fallbackInsertAt = None, rd_fallbackUsers = [],
     rd_fallbackAssistants = [], rd_facts = [], rd_tasks = []\<rparr>"

definition render_all :: "MemoryFragment list \<Rightarrow> render_state" where
  "render_all fragments = fold render_fragment fragments render_start"

definition rendered_summaries :: "render_state \<Rightarrow> string list" where
  "rendered_summaries st =
     (case rd_fallbackInsertAt st of
        None \<Rightarrow> rd_summaries st
      | Some at \<Rightarrow> take at (rd_summaries st) @
          [RenderExtractiveFallbackSummary (rd_fallbackUsers st) (rd_fallbackAssistants st)] @
          drop at (rd_summaries st))"

definition renderMemoryFragments :: "MemoryDigest \<Rightarrow> MemoryDigest" where
  "renderMemoryFragments d =
     (let st = render_all (md_Fragments d) in
      d\<lparr>md_Summary := join_text [newline, newline] (rendered_summaries st),
        md_KeyFacts := rd_facts st, md_OpenTasks := rd_tasks st\<rparr>)"

section \<open>Merging\<close>

definition memoryFragments :: "MemoryDigest \<Rightarrow> MemoryFragment list" where
  "memoryFragments d =
     (if md_Fragments d \<noteq> [] then md_Fragments d
      else if md_SnapshotID d = [] \<or> (md_Summary d = [] \<and> md_KeyFacts d = [] \<and> md_OpenTasks d = []) then []
      else [\<lparr>mf_SourceSnapshot = md_SnapshotID d, mf_Summary = md_Summary d, mf_KeyFacts = md_KeyFacts d,
             mf_OpenTasks = md_OpenTasks d, mf_TasksAuthoritative = md_TasksAuthoritative d, mf_Claims = []\<rparr>])"

definition HasMemoryClaims :: "MemoryDigest \<Rightarrow> bool" where
  "HasMemoryClaims d \<longleftrightarrow> list_ex (\<lambda>f. mf_Claims f \<noteq> []) (md_Fragments d)"

definition mergeLegacyDigests :: "case_table \<Rightarrow> MemoryDigest \<Rightarrow> MemoryDigest \<Rightarrow> MemoryDigest" where
  "mergeLegacyDigests table prior fresh =
     fresh\<lparr>md_Summary :=
         (if md_Summary prior \<noteq> [] \<and> md_Summary prior \<noteq> md_Summary fresh \<and>
             \<not> contains (ToLower table (md_Summary prior)) (ToLower table (md_Summary fresh)) then
            if md_Summary fresh = [] then md_Summary prior
            else md_Summary prior @ [newline, newline] @ md_Summary fresh
          else md_Summary fresh),
       md_KeyFacts := dedupStrings [md_KeyFacts prior, md_KeyFacts fresh],
       md_OpenTasks :=
         (if md_TasksAuthoritative fresh then dedupStrings [md_OpenTasks fresh]
          else dedupStrings [md_OpenTasks prior, md_OpenTasks fresh])\<rparr>"

definition raise_claims :: "32 word \<Rightarrow> MemoryDigest \<Rightarrow> MemoryDigest" where
  "raise_claims v out = (if md_ClaimsVersion out < v then out\<lparr>md_ClaimsVersion := v\<rparr> else out)"

definition default_claims :: "MemoryDigest \<Rightarrow> MemoryDigest" where
  "default_claims out =
     (if HasMemoryClaims out \<and> md_ClaimsVersion out = 0 then out\<lparr>md_ClaimsVersion := MemoryClaimsVersion\<rparr> else out)"

definition MergeDigests :: "case_table \<Rightarrow> MemoryDigest \<Rightarrow> MemoryDigest \<Rightarrow> MemoryDigest" where
  "MergeDigests table prior fresh =
     (if memoryFragments prior = [] \<and> memoryFragments fresh = [] then
        raise_claims (md_ClaimsVersion prior) (mergeLegacyDigests table prior fresh)
      else
        renderMemoryFragments (default_claims (raise_claims (md_ClaimsVersion prior)
          (fresh\<lparr>md_Fragments := mergeMemoryFragments [memoryFragments prior, memoryFragments fresh]\<rparr>))))"

definition MergeDigestSequence :: "case_table \<Rightarrow> MemoryDigest list \<Rightarrow> MemoryDigest" where
  "MergeDigestSequence table digests =
     (case digests of
        [] \<Rightarrow> zero_digest
      | [d] \<Rightarrow> d
      | d # rest \<Rightarrow>
          if list_ex (\<lambda>d. memoryFragments d = []) digests then foldl (MergeDigests table) d rest
          else renderMemoryFragments (default_claims
            ((foldl (\<lambda>out d. raise_claims (md_ClaimsVersion d) out) (last digests) digests)
               \<lparr>md_Fragments := mergeMemoryFragments (map memoryFragments digests)\<rparr>)))"

section \<open>First occurrences\<close>

lemma first_seen_cong: "set seen = set seen' \<Longrightarrow> first_seen key admit seen xs = first_seen key admit seen' xs"
proof (induction xs arbitrary: seen seen')
  case (Cons x xs)
  from Cons.IH [OF Cons.prems] Cons.IH [of "key x # seen" "key x # seen'"] Cons.prems show ?case by simp
qed simp

lemma first_seen_append:
  "first_seen key admit seen (xs @ ys) = first_seen key admit seen xs @
     first_seen key admit (map key (first_seen key admit seen xs) @ seen) ys"
proof (induction xs arbitrary: seen)
  case (Cons x xs)
  then show ?case by (auto intro!: first_seen_cong)
qed simp

lemma first_seen_keys:
  "key ` set (first_seen key admit seen xs) = key ` {x \<in> set xs. admit x} - set seen"
  by (induction xs arbitrary: seen) (auto simp: image_iff)

lemma first_seen_distinct: "distinct (map key (first_seen key admit seen xs))"
  by (induction xs arbitrary: seen) (simp_all add: first_seen_keys)

lemma first_seen_subset: "set (first_seen key admit seen xs) \<subseteq> {x \<in> set xs. admit x}"
  by (induction xs arbitrary: seen) (auto split: if_splits)

lemma first_seen_fixed:
  "distinct (map key xs) \<Longrightarrow> \<forall>x \<in> set xs. admit x \<and> key x \<notin> set seen \<Longrightarrow> first_seen key admit seen xs = xs"
proof (induction xs arbitrary: seen)
  case (Cons x xs)
  then have "first_seen key admit (key x # seen) xs = xs" by (intro Cons.IH) (auto simp: image_iff)
  with Cons.prems show ?case by simp
qed simp

lemma first_seen_absorb:
  "key ` {x \<in> set xs. admit x} \<subseteq> set seen \<Longrightarrow> first_seen key admit seen xs = []"
  by (induction xs arbitrary: seen) auto

lemma first_seen_again:
  "first_seen key admit [] (first_seen key admit [] xs @ ys) = first_seen key admit [] (xs @ ys)"
proof -
  have "first_seen key admit [] (first_seen key admit [] xs) = first_seen key admit [] xs"
    using first_seen_subset [of key admit "[]" xs] by (intro first_seen_fixed first_seen_distinct) auto
  then show ?thesis by (simp add: first_seen_append)
qed

lemma dedupStrings_again: "dedupStrings (dedupStrings xss # yss) = dedupStrings (xss @ yss)"
  by (simp add: dedupStrings_def first_seen_again)

lemma dedupStrings_set: "set (dedupStrings xss) = \<Union> (set ` set xss) - {[]}"
  using first_seen_keys [of "\<lambda>s. s" "\<lambda>s. s \<noteq> []" "[]" "concat xss"] by (auto simp: dedupStrings_def)

lemma dedupStrings_distinct: "distinct (dedupStrings xss)"
  using first_seen_distinct [of "\<lambda>s. s"] by (simp add: dedupStrings_def)

lemma mergeMemoryFragments_again:
  "mergeMemoryFragments (mergeMemoryFragments fss # gss) = mergeMemoryFragments (fss @ gss)"
  by (simp add: mergeMemoryFragments_def first_seen_again)

section \<open>What a rendered digest says\<close>

text \<open>The fragments from the last authoritative task list on; all of them when there is none.\<close>

fun since_authority :: "MemoryFragment list \<Rightarrow> MemoryFragment list" where
  "since_authority [] = []"
| "since_authority (f # fs) = (if list_ex mf_TasksAuthoritative fs then since_authority fs else f # fs)"

lemma since_authority_snoc:
  "since_authority (fs @ [f]) = (if mf_TasksAuthoritative f then [f] else since_authority fs @ [f])"
  by (induction fs) auto

lemma render_summary_keeps [simp]:
  "rd_facts (render_summary t st) = rd_facts st" "rd_tasks (render_summary t st) = rd_tasks st"
  by (simp_all add: render_summary_def Let_def split: prod.split option.split)

lemma render_all_snoc: "render_all (fs @ [f]) = render_fragment f (render_all fs)"
  by (simp add: render_all_def)

lemma render_all_facts: "rd_facts (render_all fs) = dedupStrings (map mf_KeyFacts fs)"
proof (induction fs rule: rev_induct)
  case Nil
  then show ?case by (simp add: render_all_def render_start_def dedupStrings_def)
next
  case (snoc f fs)
  then show ?case by (simp add: render_all_snoc render_fragment_def Let_def dedupStrings_again)
qed

lemma render_all_tasks: "rd_tasks (render_all fs) = dedupStrings (map mf_OpenTasks (since_authority fs))"
proof (induction fs rule: rev_induct)
  case Nil
  then show ?case by (simp add: render_all_def render_start_def dedupStrings_def)
next
  case (snoc f fs)
  then show ?case by (simp add: render_all_snoc render_fragment_def Let_def dedupStrings_again since_authority_snoc)
qed

lemma render_fields [simp]:
  "md_Fragments (renderMemoryFragments d) = md_Fragments d"
  "md_SnapshotID (renderMemoryFragments d) = md_SnapshotID d"
  "md_ClaimsVersion (renderMemoryFragments d) = md_ClaimsVersion d"
  "md_KeyFacts (renderMemoryFragments d) = dedupStrings (map mf_KeyFacts (md_Fragments d))"
  "md_OpenTasks (renderMemoryFragments d) = dedupStrings (map mf_OpenTasks (since_authority (md_Fragments d)))"
  by (simp_all add: renderMemoryFragments_def Let_def render_all_facts render_all_tasks)

lemma render_empty: "md_Fragments d = [] \<Longrightarrow> md_Summary (renderMemoryFragments d) = []"
  by (simp add: renderMemoryFragments_def render_all_def render_start_def rendered_summaries_def)

lemma memoryFragments_render [simp]: "memoryFragments (renderMemoryFragments d) = md_Fragments d"
  by (cases "md_Fragments d = []") (simp_all add: memoryFragments_def render_empty dedupStrings_def)

section \<open>One merge, and a sequence of them\<close>

definition merged_claims :: "MemoryFragment list \<Rightarrow> 32 word \<Rightarrow> 32 word" where
  "merged_claims fs v = (if list_ex (\<lambda>f. mf_Claims f \<noteq> []) fs \<and> v = 0 then MemoryClaimsVersion else v)"

definition merged_digest :: "MemoryDigest \<Rightarrow> MemoryFragment list \<Rightarrow> 32 word \<Rightarrow> MemoryDigest" where
  "merged_digest d fs v = renderMemoryFragments (d\<lparr>md_Fragments := fs, md_ClaimsVersion := merged_claims fs v\<rparr>)"

lemma raise_claims_max: "raise_claims v out = out\<lparr>md_ClaimsVersion := max v (md_ClaimsVersion out)\<rparr>"
  by (auto simp: raise_claims_def max_def)

lemma default_claims_eq:
  "default_claims out = out\<lparr>md_ClaimsVersion := merged_claims (md_Fragments out) (md_ClaimsVersion out)\<rparr>"
  by (simp add: default_claims_def merged_claims_def HasMemoryClaims_def)

lemma merged_digest_fields [simp]:
  "md_Fragments (merged_digest d fs v) = fs" "memoryFragments (merged_digest d fs v) = fs"
  "md_ClaimsVersion (merged_digest d fs v) = merged_claims fs v"
  "md_KeyFacts (merged_digest d fs v) = dedupStrings (map mf_KeyFacts fs)"
  "md_OpenTasks (merged_digest d fs v) = dedupStrings (map mf_OpenTasks (since_authority fs))"
  by (simp_all add: merged_digest_def)

lemma MergeDigests_attributed:
  assumes "memoryFragments prior \<noteq> [] \<or> memoryFragments fresh \<noteq> []"
  shows "MergeDigests table prior fresh =
    merged_digest fresh (mergeMemoryFragments [memoryFragments prior, memoryFragments fresh])
      (max (md_ClaimsVersion prior) (md_ClaimsVersion fresh))"
  using assms by (auto simp: MergeDigests_def merged_digest_def raise_claims_max default_claims_eq)

lemma foldl_raise:
  "foldl (\<lambda>out d. raise_claims (md_ClaimsVersion d) out) z ds =
     z\<lparr>md_ClaimsVersion := Max (set (md_ClaimsVersion z # map md_ClaimsVersion ds))\<rparr>"
  unfolding Max.set_eq_fold by (induction ds arbitrary: z) (simp_all add: raise_claims_max)

lemma merged_claims_step:
  assumes "set fs \<subseteq> set gs"
  shows "merged_claims gs (max (merged_claims fs v) w) = merged_claims gs (max v w)"
proof (cases "list_ex (\<lambda>f. mf_Claims f \<noteq> []) fs \<and> v = 0")
  case True
  then have "list_ex (\<lambda>f. mf_Claims f \<noteq> []) gs" using assms by (auto simp: list_ex_iff)
  moreover have "max 1 w = (if w = 0 then 1 else w)" for w :: "32 word"
    by (auto simp: max_def word_le_nat_alt unat_eq_zero not_less_eq_eq)
  ultimately show ?thesis using True by (simp add: merged_claims_def MemoryClaimsVersion_def max_def)
next
  case False
  then have "merged_claims fs v = v" by (auto simp: merged_claims_def)
  then show ?thesis by simp
qed

definition merged_sequence :: "MemoryDigest list \<Rightarrow> MemoryDigest" where
  "merged_sequence ds = merged_digest (last ds) (mergeMemoryFragments (map memoryFragments ds))
     (Max (md_ClaimsVersion ` set ds))"

lemma MergeDigestSequence_merged:
  assumes "2 \<le> length ds" "\<forall>d \<in> set ds. memoryFragments d \<noteq> []"
  shows "MergeDigestSequence table ds = merged_sequence ds"
proof -
  obtain d e rest where ds: "ds = d # e # rest" using assms(1) by (cases ds; cases "tl ds") auto
  have "last ds \<in> set ds" using ds by (intro last_in_set) simp
  then have "insert (md_ClaimsVersion (last ds)) (md_ClaimsVersion ` set ds) = md_ClaimsVersion ` set ds" by auto
  moreover have "\<not> list_ex (\<lambda>d. memoryFragments d = []) ds" using assms(2) by (auto simp: list_ex_iff)
  ultimately show ?thesis
    using ds unfolding MergeDigestSequence_def merged_sequence_def merged_digest_def foldl_raise
    by (simp add: default_claims_eq del: foldl_Cons)
qed

lemma MergeDigests_merged:
  assumes "memoryFragments x \<noteq> []" "ds \<noteq> []"
  shows "MergeDigests table (merged_sequence ds) x = merged_sequence (ds @ [x])"
proof -
  let ?F = "mergeMemoryFragments (map memoryFragments ds)" and ?v = "Max (md_ClaimsVersion ` set ds)"
  let ?G = "mergeMemoryFragments (map memoryFragments (ds @ [x]))"
  have G: "mergeMemoryFragments [?F, memoryFragments x] = ?G" by (simp add: mergeMemoryFragments_again)
  have "set ?F \<subseteq> set ?G" by (auto simp: mergeMemoryFragments_def first_seen_append)
  then have "merged_claims ?G (max (merged_claims ?F ?v) (md_ClaimsVersion x)) = merged_claims ?G (max ?v (md_ClaimsVersion x))"
    by (rule merged_claims_step)
  moreover have "Max (md_ClaimsVersion ` set (ds @ [x])) = max ?v (md_ClaimsVersion x)"
    using assms(2) by (simp add: max.commute)
  ultimately show ?thesis
    using assms(1) unfolding merged_sequence_def MergeDigests_attributed [OF disjI2, OF assms(1)]
    by (simp add: G merged_digest_def)
qed

text \<open>C24: merging a sequence of digests at once is the ordered pairwise fold of \<open>MergeDigests\<close>, for every
non-empty sequence, with or without attributed fragments, claims versions included.\<close>

theorem MergeDigestSequence_fold:
  "MergeDigestSequence table (d # rest) = foldl (MergeDigests table) d rest"
proof (cases "rest = [] \<or> list_ex (\<lambda>d. memoryFragments d = []) (d # rest)")
  case True
  then show ?thesis by (cases rest) (auto simp: MergeDigestSequence_def)
next
  case False
  then have all: "\<forall>x \<in> set (d # rest). memoryFragments x \<noteq> []" by (auto simp: list_ex_iff)
  have "foldl (MergeDigests table) d rest = merged_sequence (d # rest)"
    if "rest \<noteq> []" "\<forall>x \<in> set (d # rest). memoryFragments x \<noteq> []" for rest
    using that
  proof (induction rest rule: rev_induct)
    case (snoc x rest)
    show ?case
    proof (cases "rest = []")
      case True
      have "max (md_ClaimsVersion d) (md_ClaimsVersion x) = Max {md_ClaimsVersion x, md_ClaimsVersion d}"
        by (simp add: max.commute)
      with True snoc.prems show ?thesis by (simp add: MergeDigests_attributed merged_sequence_def insert_commute)
    next
      case False
      with snoc show ?thesis using MergeDigests_merged [of x "d # rest" table] by simp
    qed
  qed simp
  moreover have "MergeDigestSequence table (d # rest) = merged_sequence (d # rest)"
    using False all by (intro MergeDigestSequence_merged) (auto simp: Suc_le_eq)
  ultimately show ?thesis using False all by simp
qed

lemma mergeMemoryFragments_keys:
  "memoryFragmentKey ` set (mergeMemoryFragments fss) =
     memoryFragmentKey ` {f \<in> \<Union> (set ` set fss). mf_SourceSnapshot f \<noteq> []}"
  using first_seen_keys [of memoryFragmentKey "\<lambda>f. mf_SourceSnapshot f \<noteq> []" "[]" "concat fss"]
  by (simp add: mergeMemoryFragments_def)

lemma mergeMemoryFragments_absorb: "mergeMemoryFragments [mergeMemoryFragments [fs, gs], gs] = mergeMemoryFragments [fs, gs]"
proof -
  have "first_seen key admit [] ((xs @ ys) @ ys) = first_seen key admit [] (xs @ ys)"
    for key :: "MemoryFragment \<Rightarrow> string" and admit and xs ys
  proof -
    have "first_seen key admit (map key (first_seen key admit [] (xs @ ys)) @ []) ys = []"
      by (rule first_seen_absorb) (auto simp: first_seen_keys)
    then show ?thesis unfolding first_seen_append [of key admit "[]" "xs @ ys" ys] by simp
  qed
  then show ?thesis by (simp add: mergeMemoryFragments_again) (simp add: mergeMemoryFragments_def)
qed


definition sample_digest :: "string \<Rightarrow> string \<Rightarrow> string list \<Rightarrow> bool \<Rightarrow> MemoryDigest" where
  "sample_digest snapshot text tasks authoritative = zero_digest\<lparr>md_SnapshotID := snapshot, md_Summary := text,
     md_KeyFacts := [''Go 1.26'', text], md_OpenTasks := tasks, md_TasksAuthoritative := authoritative\<rparr>"


end
