(* ===== verification/Replay.thy ===== *)
theory Replay
  imports Memory
begin

text \<open>
  Prompt-only projections of a digest (\<open>entities.go\<close>): what a replay supplies verbatim, or what the provider
  loads by itself, is left out of the copy that goes into a prompt. The stored digest is never changed.
  The digest is passed by value in Go, so each projection returns the changed copy.
\<close>

section \<open>The projections\<close>

definition drop_delta :: "string \<Rightarrow> string" where
  "drop_delta summary =
     (case splitExtractiveFallbackSummary summary of (baseline, Some _) \<Rightarrow> baseline | (_, None) \<Rightarrow> summary)"

definition WithoutConversationDeltaFromSource :: "MemoryDigest \<Rightarrow> string \<Rightarrow> MemoryDigest" where
  "WithoutConversationDeltaFromSource d source =
     (if source = [] then d
      else if md_Fragments d = [] then
        if md_SnapshotID d = source then d\<lparr>md_Summary := drop_delta (md_Summary d)\<rparr> else d
      else renderMemoryFragments (d\<lparr>md_Fragments :=
        map (\<lambda>f. if mf_SourceSnapshot f \<noteq> source then f else f\<lparr>mf_Summary := drop_delta (mf_Summary f)\<rparr>) (md_Fragments d)\<rparr>))"

text \<open>The shape the remaining projections share: rewrite every summary, then render.\<close>

definition project_summaries :: "(string \<Rightarrow> string) \<Rightarrow> MemoryDigest \<Rightarrow> MemoryDigest" where
  "project_summaries f d =
     (if md_Fragments d = [] then d\<lparr>md_Summary := f (md_Summary d)\<rparr>
      else renderMemoryFragments (d\<lparr>md_Fragments := map (\<lambda>g. g\<lparr>mf_Summary := f (mf_Summary g)\<rparr>) (md_Fragments d)\<rparr>))"

definition normalizedSet :: "string list \<Rightarrow> string list" where
  "normalizedSet items = filter (\<lambda>i. i \<noteq> []) (map NormalizeExtractiveConversationItem items)"

definition not_replayed :: "string list \<Rightarrow> string list \<Rightarrow> string list" where
  "not_replayed replayed items = filter (\<lambda>i. NormalizeExtractiveConversationItem i \<notin> set (normalizedSet replayed)) items"

definition replay_filter :: "string list \<Rightarrow> string list \<Rightarrow> string \<Rightarrow> string" where
  "replay_filter replayedUsers replayedAssistants summary =
     (case splitExtractiveFallbackSummary summary of
        (_, None) \<Rightarrow> summary
      | (baseline, Some (fallbackUsers, fallbackAssistants)) \<Rightarrow>
          let keptUsers = not_replayed replayedUsers fallbackUsers;
              keptAssistants = not_replayed replayedAssistants fallbackAssistants;
              delta = (if keptUsers \<noteq> [] \<or> keptAssistants \<noteq> []
                       then RenderExtractiveFallbackSummary keptUsers keptAssistants else [])
          in AppendExtractiveConversationDelta baseline delta)"

definition WithoutExactReplayedConversationItems :: "MemoryDigest \<Rightarrow> string list \<Rightarrow> string list \<Rightarrow> MemoryDigest" where
  "WithoutExactReplayedConversationItems d replayedUsers replayedAssistants =
     project_summaries (replay_filter replayedUsers replayedAssistants) d"

definition strip_summary :: "string \<Rightarrow> string \<Rightarrow> string \<times> bool" where
  "strip_summary exact summary =
     (case splitExtractiveFallbackSummary summary of
        (baseline, Some (users, assistants)) \<Rightarrow>
          if TrimSpace baseline \<noteq> exact then (summary, False)
          else (if users \<noteq> [] \<or> assistants \<noteq> [] then RenderExtractiveFallbackSummary users assistants else [], True)
      | (_, None) \<Rightarrow> if TrimSpace summary = exact then ([], True) else (summary, False))"

definition strip_fragment :: "string \<Rightarrow> MemoryFragment \<Rightarrow> MemoryFragment" where
  "strip_fragment exact f =
     (case strip_summary exact (mf_Summary f) of
        (summary, True) \<Rightarrow> f\<lparr>mf_Summary := summary, mf_KeyFacts := [], mf_OpenTasks := []\<rparr>
      | (_, False) \<Rightarrow> f)"

definition tombstone :: "string \<Rightarrow> MemoryFragment" where
  "tombstone snapshot = \<lparr>mf_SourceSnapshot = snapshot, mf_Summary = [], mf_KeyFacts = [], mf_OpenTasks = [],
     mf_TasksAuthoritative = True, mf_Claims = []\<rparr>"

definition WithoutExactReplayedSummary :: "MemoryDigest \<Rightarrow> string \<Rightarrow> MemoryDigest" where
  "WithoutExactReplayedSummary d exact0 =
     (let exact = TrimSpace exact0 in
      if exact = [] then d
      else if md_Fragments d = [] then
        (case strip_summary exact (md_Summary d) of
           (_, False) \<Rightarrow> d
         | (summary, True) \<Rightarrow>
             let out = d\<lparr>md_Summary := summary, md_KeyFacts := [], md_OpenTasks := []\<rparr> in
             if md_TasksAuthoritative d \<and> summary = [] \<and> md_SnapshotID d \<noteq> []
             then out\<lparr>md_Fragments := [tombstone (md_SnapshotID d)]\<rparr> else out)
      else if list_ex (\<lambda>f. snd (strip_summary exact (mf_Summary f))) (md_Fragments d)
        then renderMemoryFragments (d\<lparr>md_Fragments := map (strip_fragment exact) (md_Fragments d)\<rparr>)
      else d)"

definition strip_prefix :: "string \<Rightarrow> string \<Rightarrow> string \<Rightarrow> string" where
  "strip_prefix full remaining summary =
     (case splitExtractiveFallbackSummary summary of
        (baseline, Some (users, assistants)) \<Rightarrow>
          if TrimSpace baseline \<noteq> full then summary
          else AppendExtractiveConversationDelta remaining (RenderExtractiveFallbackSummary users assistants)
      | (_, None) \<Rightarrow> if TrimSpace summary = full then remaining else summary)"

definition WithoutAutoLoadedSummaryPrefix :: "MemoryDigest \<Rightarrow> string \<Rightarrow> string \<Rightarrow> MemoryDigest" where
  "WithoutAutoLoadedSummaryPrefix d full0 loadedPrefix0 =
     (let full = TrimSpace full0; loadedPrefix = TrimSpace loadedPrefix0 in
      if full = [] \<or> loadedPrefix = [] \<or> \<not> has_prefix loadedPrefix full then d
      else project_summaries (strip_prefix full (TrimSpace (trim_prefix loadedPrefix full))) d)"

definition WithoutExactSummaryBaseline :: "MemoryDigest \<Rightarrow> string \<Rightarrow> MemoryDigest" where
  "WithoutExactSummaryBaseline d exact = WithoutAutoLoadedSummaryPrefix d exact exact"

section \<open>Texts that survive\<close>

lemma append_no_delta: "AppendExtractiveConversationDelta b [] = b"
  by (simp add: AppendExtractiveConversationDelta_def)

text \<open>Rebuilding a text from a baseline and items, either of which may be absent, and splitting it again.\<close>

lemma split_rebuilt:
  assumes "b = [] \<or> trimmed b" "\<forall>i \<in> set us \<union> set as. fallback_item i" "us \<noteq> [] \<or> as \<noteq> []"
  shows "splitExtractiveFallbackSummary (AppendExtractiveConversationDelta b (RenderExtractiveFallbackSummary us as)) =
    (b, Some (us, as))"
proof (cases "b = []")
  case True
  have "RenderExtractiveFallbackSummary us as \<noteq> []" using Render_lines [OF assms(2,3)] by (simp add: trimmed_def)
  then show ?thesis using split_rendered [OF assms(2,3)] True by (simp add: AppendExtractiveConversationDelta_def)
next
  case False
  with assms(1) show ?thesis by (intro split_appended [OF assms(2,3)]) simp
qed

text \<open>The texts of a digest: those of its fragments, or its own when it has none.\<close>

definition summaries_of :: "MemoryDigest \<Rightarrow> string list" where
  "summaries_of d = (if md_Fragments d = [] then [md_Summary d] else map mf_Summary (md_Fragments d))"

definition replay_relation :: "string list \<Rightarrow> string list \<Rightarrow> string \<Rightarrow> string \<Rightarrow> bool" where
  "replay_relation users assistants t t' =
     (case splitExtractiveFallbackSummary t of
        (_, None) \<Rightarrow> t' = t
      | (b, Some (us, as)) \<Rightarrow>
          if not_replayed users us = [] \<and> not_replayed assistants as = [] then t' = b
          else splitExtractiveFallbackSummary t' = (b, Some (not_replayed users us, not_replayed assistants as)))"

lemma replay_filter_exact: "replay_relation users assistants t (replay_filter users assistants t)"
proof (cases "snd (splitExtractiveFallbackSummary t)")
  case None
  then show ?thesis by (auto simp: replay_relation_def replay_filter_def split: prod.splits)
next
  case (Some items)
  obtain b us as where s: "splitExtractiveFallbackSummary t = (b, Some (us, as))"
    using Some by (cases "splitExtractiveFallbackSummary t"; cases items) auto
  from split_shape [OF s] have b: "b = [] \<or> trimmed b" and i: "\<forall>i \<in> set us \<union> set as. fallback_item i" by auto
  let ?us = "not_replayed users us" and ?as = "not_replayed assistants as"
  have "\<forall>i \<in> set ?us \<union> set ?as. fallback_item i" using i by (auto simp: not_replayed_def)
  then show ?thesis
    using split_rebuilt [OF b, of ?us ?as] s
    by (auto simp: replay_relation_def replay_filter_def Let_def append_no_delta)
qed

lemma summaries_of_project: "summaries_of (project_summaries f d) = map f (summaries_of d)"
  by (simp add: summaries_of_def project_summaries_def)

lemma project_summaries_keeps:
  "map (mf_Summary_update (\<lambda>_. [])) (md_Fragments (project_summaries f d)) = map (mf_Summary_update (\<lambda>_. [])) (md_Fragments d)"
  by (simp add: project_summaries_def)

text \<open>Dropping replayed conversation is exact. Every text of the digest without a conversation
fallback is unchanged; a text with one keeps its baseline and exactly those items whose normal form is
not among the normal forms of the replayed ones, in order, and is just the baseline when none is left.
Sources, facts, tasks, authority and claims of the fragments are unchanged.\<close>

theorem WithoutExactReplayedConversationItems_exact:
  "list_all2 (replay_relation users assistants)
     (summaries_of d) (summaries_of (WithoutExactReplayedConversationItems d users assistants)) \<and>
   map (mf_Summary_update (\<lambda>_. [])) (md_Fragments (WithoutExactReplayedConversationItems d users assistants)) =
     map (mf_Summary_update (\<lambda>_. [])) (md_Fragments d)"
  unfolding WithoutExactReplayedConversationItems_def summaries_of_project project_summaries_keeps
  by (simp add: list.rel_map replay_filter_exact list.rel_refl)

text \<open>What stripping an exact provider summary may do to a fragment.\<close>

definition strip_relation :: "string \<Rightarrow> MemoryFragment \<Rightarrow> MemoryFragment \<Rightarrow> bool" where
  "strip_relation exact f f' =
     (case splitExtractiveFallbackSummary (mf_Summary f) of
        (b, None) \<Rightarrow> f' = (if b = exact then f\<lparr>mf_Summary := [], mf_KeyFacts := [], mf_OpenTasks := []\<rparr> else f)
      | (b, Some items) \<Rightarrow>
          if b = exact then
            f' = f\<lparr>mf_Summary := mf_Summary f', mf_KeyFacts := [], mf_OpenTasks := []\<rparr> \<and>
            splitExtractiveFallbackSummary (mf_Summary f') = ([], Some items)
          else f' = f)"

lemma strip_fragment_exact: "strip_relation exact f (strip_fragment exact f)"
proof (cases "snd (splitExtractiveFallbackSummary (mf_Summary f))")
  case None
  obtain b where s: "splitExtractiveFallbackSummary (mf_Summary f) = (b, None)"
    using None by (cases "splitExtractiveFallbackSummary (mf_Summary f)") auto
  from split_shape [OF s] have "b = TrimSpace (mf_Summary f)" by simp
  with s show ?thesis by (simp add: strip_relation_def strip_fragment_def strip_summary_def)
next
  case (Some items)
  obtain b us as where s: "splitExtractiveFallbackSummary (mf_Summary f) = (b, Some (us, as))"
    using Some by (cases "splitExtractiveFallbackSummary (mf_Summary f)"; cases items) auto
  from split_shape [OF s] have i: "\<forall>i \<in> set us \<union> set as. fallback_item i" "us \<noteq> [] \<or> as \<noteq> []"
    and b: "TrimSpace b = b" by auto
  from split_rendered [OF i] i(2) show ?thesis
    by (simp add: strip_relation_def strip_fragment_def strip_summary_def s b)
qed

lemma strip_fragment_keeps [simp]:
  "mf_SourceSnapshot (strip_fragment exact f) = mf_SourceSnapshot f"
  "mf_TasksAuthoritative (strip_fragment exact f) = mf_TasksAuthoritative f"
  "mf_Claims (strip_fragment exact f) = mf_Claims f"
  "set (mf_OpenTasks (strip_fragment exact f)) \<subseteq> set (mf_OpenTasks f)"
  by (auto simp: strip_fragment_def split: prod.splits bool.splits)

lemma since_authority_map:
  assumes "\<And>f. mf_TasksAuthoritative (g f) = mf_TasksAuthoritative f"
  shows "since_authority (map g fs) = map g (since_authority fs)"
  by (induction fs) (simp_all add: list_ex_iff assms)

lemma strip_unmatched: "\<not> snd (strip_summary exact (mf_Summary f)) \<Longrightarrow> strip_fragment exact f = f"
  by (auto simp: strip_fragment_def split: prod.splits bool.splits)

lemma WithoutExactReplayedSummary_fragments:
  assumes "TrimSpace exact \<noteq> []" "md_Fragments d \<noteq> []"
  shows "md_Fragments (WithoutExactReplayedSummary d exact) = map (strip_fragment (TrimSpace exact)) (md_Fragments d)"
proof (cases "list_ex (\<lambda>f. snd (strip_summary (TrimSpace exact) (mf_Summary f))) (md_Fragments d)")
  case True
  with assms show ?thesis by (simp add: WithoutExactReplayedSummary_def Let_def)
next
  case False
  then have "map (strip_fragment (TrimSpace exact)) (md_Fragments d) = md_Fragments d"
    by (intro map_idI strip_unmatched) (auto simp: list_ex_iff)
  with assms False show ?thesis by (simp add: WithoutExactReplayedSummary_def Let_def)
qed

text \<open>C26: removing a provider summary that the replay already holds. In a digest with fragments, exactly
the fragments whose whole text or whose baseline is that summary lose it, together with the facts and
tasks derived from it; their conversation items stay, as do all other fragments, every source, claim
and task-authority mark. No task appears that was not listed before. A digest without fragments keeps
its task authority as well: it says its task list is authoritative before exactly when it does after.\<close>

theorem WithoutExactReplayedSummary_exact:
  assumes "TrimSpace exact \<noteq> []" "out = WithoutExactReplayedSummary d exact"
  shows "(md_Fragments d = [] \<or> list_all2 (strip_relation (TrimSpace exact)) (md_Fragments d) (md_Fragments out)) \<and>
    set (md_OpenTasks (renderMemoryFragments out)) \<subseteq> set (md_OpenTasks (renderMemoryFragments d)) \<and>
    list_ex mf_TasksAuthoritative (memoryFragments out) = list_ex mf_TasksAuthoritative (memoryFragments d)"
proof (cases "md_Fragments d = []")
  case False
  note f = WithoutExactReplayedSummary_fragments [OF assms(1) False]
  have "list_all2 (strip_relation (TrimSpace exact)) (md_Fragments d) (md_Fragments out)"
    unfolding assms(2) f by (simp add: list.rel_map strip_fragment_exact list.rel_refl)
  moreover have "set (md_OpenTasks (renderMemoryFragments out)) \<subseteq> set (md_OpenTasks (renderMemoryFragments d))"
    unfolding assms(2) render_fields f since_authority_map [OF strip_fragment_keeps(2)] dedupStrings_set
    by (auto dest!: subsetD [OF strip_fragment_keeps(4)])
  moreover have "memoryFragments out = md_Fragments out" using f False by (simp add: memoryFragments_def assms(2))
  moreover have "memoryFragments d = md_Fragments d" using False by (simp add: memoryFragments_def)
  ultimately show ?thesis using f by (simp add: assms(2) list_ex_iff)
next
  case True
  have "splitExtractiveFallbackSummary [] = ([], None)" by code_simp
  then have "md_Summary d \<noteq> []" if "snd (strip_summary (TrimSpace exact) (md_Summary d))"
    using that assms(1) by (auto simp: strip_summary_def)
  moreover obtain t m where t: "strip_summary (TrimSpace exact) (md_Summary d) = (t, m)" by fastforce
  moreover have "list_ex mf_TasksAuthoritative (memoryFragments out) = list_ex mf_TasksAuthoritative (memoryFragments d)"
    using True t calculation assms(1)
    by (cases m; cases "md_TasksAuthoritative d"; cases "md_SnapshotID d = []"; cases "t = []")
      (simp_all add: assms(2) WithoutExactReplayedSummary_def Let_def memoryFragments_def tombstone_def)
  moreover have "md_OpenTasks (renderMemoryFragments out) = []"
    using True t assms(1)
    by (cases m) (simp_all add: assms(2) WithoutExactReplayedSummary_def Let_def tombstone_def dedupStrings_def)
  ultimately show ?thesis using True by simp
qed

theorem WithoutExactReplayedSummary_exact_witness:
  "TrimSpace ''Plan A'' \<noteq> [] \<and>
   list_ex mf_TasksAuthoritative (memoryFragments (WithoutExactReplayedSummary (sample_digest ''a'' ''Plan A'' [''x''] True) ''Plan A''))"
proof -
  have "TrimSpace ''Plan A'' \<noteq> []" by code_simp
  moreover have "list_ex mf_TasksAuthoritative (memoryFragments (sample_digest ''a'' ''Plan A'' [''x''] True))" by code_simp
  ultimately show ?thesis
    using WithoutExactReplayedSummary_exact [OF _ refl, of "''Plan A''" "sample_digest ''a'' ''Plan A'' [''x''] True"] by blast
qed

end
