(* ===== verification/Prompt.thy ===== *)
theory Prompt
  imports Replay
begin

text \<open>
  The provider-visible projection of a digest (\<open>memory_prompt.go\<close>). Facts are filtered to project knowledge
  and tasks are shown only from an authoritative list; superseded generations of provider summaries,
  narrative task sections and code assessments are left out of the texts. The case table of Unicode is
  the argument of \<open>ToLower\<close> (theory \<open>Utf8\<close>).
\<close>

section \<open>Provider summaries\<close>

definition providerContinuationPrefix :: string where
  "providerContinuationPrefix = ''This session is being continued from a previous conversation''"

definition isProviderContinuationHeader :: "string \<Rightarrow> bool" where
  "isProviderContinuationHeader line \<longleftrightarrow>
     has_prefix providerContinuationPrefix line \<and>
     trim_prefix providerContinuationPrefix line \<in> set
       [''.'', '' that ran out of context.'',
        '' that ran out of context. The summary below covers the earlier portion of the conversation.'']"

text \<open>The scan over the lines: the offset of the last header and the number of headers.\<close>

function scan_generations :: "nat \<Rightarrow> string \<Rightarrow> nat option \<times> nat \<Rightarrow> nat option \<times> nat" where
  "scan_generations offset rest acc =
     (if rest = [] then acc
      else let line = takeWhile (\<lambda>c. c \<noteq> newline) rest;
               acc' = (if isProviderContinuationHeader (TrimSpace line) then (Some offset, Suc (snd acc)) else acc)
           in if length line = length rest then acc'
              else scan_generations (offset + length line + 1) (drop (length line + 1) rest) acc')"
  by pat_completeness auto

termination
  by (relation "measure (\<lambda>(_, rest, _). length rest)") auto

declare scan_generations.simps [simp del]

definition LatestProviderCompactionGeneration :: "string \<Rightarrow> string" where
  "LatestProviderCompactionGeneration summary =
     (case scan_generations 0 summary (None, 0) of
        (None, _) \<Rightarrow> summary
      | (Some at, occurrences) \<Rightarrow> if occurrences < 2 then summary else TrimSpace (drop at summary))"

definition isCanonicalProviderContinuation :: "string \<Rightarrow> bool" where
  "isCanonicalProviderContinuation summary =
     isProviderContinuationHeader (TrimSpace (takeWhile (\<lambda>c. c \<noteq> newline) summary))"

definition contained_elsewhere :: "MemoryFragment list \<Rightarrow> nat \<Rightarrow> bool" where
  "contained_elsewhere fs i =
     (let candidate = TrimSpace (mf_Summary (fs ! i)) in
      candidate \<noteq> [] \<and> isCanonicalProviderContinuation candidate \<and>
      list_ex (\<lambda>j. let other = TrimSpace (mf_Summary (fs ! j)) in
          i \<noteq> j \<and> length candidate \<le> length other \<and> isCanonicalProviderContinuation other \<and>
          contains candidate other \<and> (length candidate < length other \<or> i < j)) [0..<length fs])"

definition dropByteContainedProviderSummaries :: "MemoryFragment list \<Rightarrow> MemoryFragment list" where
  "dropByteContainedProviderSummaries fragments =
     fold (\<lambda>i fs. if contained_elsewhere fs i then fs[i := (fs ! i)\<lparr>mf_Summary := []\<rparr>] else fs)
       [0..<length fragments] fragments"

section \<open>Narrative task sections\<close>

definition numberedMemorySectionTitle :: "case_table \<Rightarrow> string \<Rightarrow> string option" where
  "numberedMemorySectionTitle table raw =
     (let line = rev (dropWhile (\<lambda>c. c = CHR 0x0D \<or> c = newline) (rev raw));
          trimmedLeft = dropWhile (\<lambda>c. c = CHR '' '') line in
      if 3 < length line - length trimmedLeft then None
      else let text = TrimSpace trimmedLeft in
        if text = [] \<or> \<not> in_range (CHR ''1'') (CHR ''9'') (hd text) then None
        else let i = Suc (length (takeWhile is_digit (tl text))) in
          if length text \<le> i + 1 \<or> text ! i \<noteq> CHR ''.'' \<or> text ! (i + 1) \<noteq> CHR '' '' then None
          else Some (ToLower table (trim_set ''*#: '' (TrimSpace (drop (i + 2) text)))))"

definition isTaskSectionTitle :: "string \<Rightarrow> bool" where
  "isTaskSectionTitle title \<longleftrightarrow> title = ''pending tasks'' \<or> title = ''open tasks'' \<or>
     has_prefix ''pending tasks '' title \<or> has_prefix ''open tasks '' title"

text \<open>\<open>strings.SplitAfter\<close> at newlines.\<close>

definition split_after :: "string \<Rightarrow> string list" where
  "split_after s = (let parts = split_on newline s in map (\<lambda>p. p @ [newline]) (butlast parts) @ [last parts])"

definition narrative_step :: "case_table \<Rightarrow> string \<Rightarrow> bool \<times> string list \<Rightarrow> bool \<times> string list" where
  "narrative_step table line acc =
     (case numberedMemorySectionTitle table line of
        Some title \<Rightarrow> if isTaskSectionTitle title then (True, snd acc) else (False, snd acc @ [line])
      | None \<Rightarrow>
          let trimmed = TrimSpace line;
              skipping = (fst acc \<and> \<not> (trimmed = extractiveFallbackDeltaMarker \<or>
                trimmed = extractiveFallbackHeader \<or> isProviderContinuationHeader trimmed))
          in (skipping, if skipping then snd acc else snd acc @ [line]))"

definition withoutStructuredTaskNarrative :: "case_table \<Rightarrow> string \<Rightarrow> string" where
  "withoutStructuredTaskNarrative table summary =
     (if summary = [] then []
      else TrimSpace (concat (snd (fold (narrative_step table) (split_after summary) (False, [])))))"

section \<open>Facts and tasks\<close>

definition IsNativeMemoryProvenanceFact :: "case_table \<Rightarrow> string \<Rightarrow> bool" where
  "IsNativeMemoryProvenanceFact table item =
     (let f = ToLower table (TrimSpace item) in
      has_prefix ''native memory:'' f \<or> has_prefix ''absorbed from'' f \<or> has_prefix ''ingested from'' f)"

definition promptWorthyMemoryItem :: "case_table \<Rightarrow> string \<Rightarrow> bool" where
  "promptWorthyMemoryItem table item \<longleftrightarrow>
     item \<noteq> [] \<and> contains_any [CHR '' '', CHR 0x09, newline] item \<and> \<not> IsNativeMemoryProvenanceFact table item \<and>
     \<not> list_ex (\<lambda>prefix. has_prefix prefix (ToLower table item))
       [''[cxt] this session was resumed from a branch context seed.'',
        ''[cxt seed] branch-switch context:'',
        ''<environment_context'',
        ''<turn_aborted'',
        ''conversation digest (extractive fallback;'',
        ''recent user intent:'',
        ''recent assistant outcomes:'',
        ''session summary:'',
        ''tools ['']"

definition memoryItemSet :: "case_table \<Rightarrow> string list \<Rightarrow> string list" where
  "memoryItemSet table items = map (\<lambda>i. ToLower table (TrimSpace i)) items"

definition PromptWorthyMemoryFacts :: "case_table \<Rightarrow> string list \<Rightarrow> string list" where
  "PromptWorthyMemoryFacts table facts =
     first_seen (ToLower table) (promptWorthyMemoryItem table) [] (map TrimSpace facts)"

definition promptWorthyMemoryTasks :: "case_table \<Rightarrow> string list \<Rightarrow> string list \<Rightarrow> string list" where
  "promptWorthyMemoryTasks table tasks facts =
     first_seen (ToLower table) (\<lambda>i. promptWorthyMemoryItem table i \<and> ToLower table i \<notin> set facts) [] (map TrimSpace tasks)"

section \<open>The projection\<close>

definition latestTaskAuthority :: "MemoryFragment list \<Rightarrow> nat option" where
  "latestTaskAuthority fs = find (\<lambda>i. mf_TasksAuthoritative (fs ! i)) (rev [0..<length fs])"

definition prompt_fragment :: "case_table \<Rightarrow> bool \<Rightarrow> MemoryFragment \<Rightarrow> MemoryFragment" where
  "prompt_fragment table latest source =
     (let summary = LatestProviderCompactionGeneration (mf_Summary source) in
      source\<lparr>mf_Summary := (if latest then summary else withoutStructuredTaskNarrative table summary),
             mf_KeyFacts := PromptWorthyMemoryFacts table (mf_KeyFacts source), mf_OpenTasks := []\<rparr>)"

definition prompt_tasks :: "case_table \<Rightarrow> string list \<Rightarrow> MemoryFragment \<Rightarrow> MemoryFragment \<Rightarrow> MemoryFragment" where
  "prompt_tasks table factSet source f =
     (if mf_TasksAuthoritative source
      then f\<lparr>mf_OpenTasks := promptWorthyMemoryTasks table (mf_OpenTasks source) factSet\<rparr> else f)"

definition prompt_fragments :: "case_table \<Rightarrow> MemoryFragment list \<Rightarrow> MemoryFragment list" where
  "prompt_fragments table fs =
     (let projected = map (\<lambda>i. prompt_fragment table (latestTaskAuthority fs = Some i) (fs ! i)) [0..<length fs];
          factSet = concat (map (\<lambda>f. memoryItemSet table (mf_KeyFacts f)) projected)
      in dropByteContainedProviderSummaries (map2 (prompt_tasks table factSet) fs projected))"

definition PromptStructuredProjection :: "case_table \<Rightarrow> MemoryDigest \<Rightarrow> MemoryDigest" where
  "PromptStructuredProjection table d =
     (if md_Fragments d = [] then
        let facts = PromptWorthyMemoryFacts table (md_KeyFacts d) in
        if md_TasksAuthoritative d
        then d\<lparr>md_KeyFacts := facts, md_OpenTasks := promptWorthyMemoryTasks table (md_OpenTasks d) (memoryItemSet table facts)\<rparr>
        else d\<lparr>md_KeyFacts := facts, md_Summary := withoutStructuredTaskNarrative table (md_Summary d), md_OpenTasks := []\<rparr>
      else renderMemoryFragments
        (d\<lparr>md_Fragments := prompt_fragments table (md_Fragments d),
           md_TasksAuthoritative := list_ex mf_TasksAuthoritative (md_Fragments d)\<rparr>))"

section \<open>Code assessments\<close>

definition CodeAssessmentBegin :: string where
  "CodeAssessmentBegin = ''<!-- cxt:code-assessment:v1 -->''"

definition CodeAssessmentEnd :: string where
  "CodeAssessmentEnd = ''<!-- cxt:end-code-assessment -->''"

text \<open>\<open>strings.Index\<close>: the first position at which \<open>sub\<close> occurs.\<close>

fun Index :: "string \<Rightarrow> string \<Rightarrow> nat option" where
  "Index [] sub = (if sub = [] then Some 0 else None)"
| "Index (c # s) sub = (if has_prefix sub (c # s) then Some 0 else map_option Suc (Index s sub))"

lemma Index_bound: "Index s sub = Some i \<Longrightarrow> i + length sub \<le> length s"
proof (induction s arbitrary: i)
  case (Cons c s)
  show ?case
  proof (cases "has_prefix sub (c # s)")
    case True
    then have "length sub \<le> length (c # s)" by (metis has_prefix_def length_take min.cobounded1)
    with True Cons.prems show ?thesis by simp
  next
    case False
    with Cons show ?thesis by auto
  qed
qed (auto split: if_splits)

text \<open>The argument is the text from the offset on; what lies before it is final.\<close>

function WithoutCodeAssessment :: "string \<Rightarrow> string" where
  "WithoutCodeAssessment text =
     (case Index text CodeAssessmentBegin of
        None \<Rightarrow> text
      | Some start \<Rightarrow>
          (let after = drop (start + length CodeAssessmentBegin) text in
           case Index after CodeAssessmentEnd of
             None \<Rightarrow> text
           | Some stop \<Rightarrow> take start text @ WithoutCodeAssessment (drop (stop + length CodeAssessmentEnd) after)))"
  by pat_completeness auto

termination
proof (relation "measure length")
  fix s start after stop
  assume "Index s CodeAssessmentBegin = Some start" "after = drop (start + length CodeAssessmentBegin) s"
    "Index after CodeAssessmentEnd = Some stop"
  then show "(drop (stop + length CodeAssessmentEnd) after, s) \<in> measure length"
    using Index_bound [of s CodeAssessmentBegin start] by (auto simp: CodeAssessmentBegin_def)
qed simp

declare WithoutCodeAssessment.simps [simp del]

definition HistoricalPromptProjection :: "case_table \<Rightarrow> MemoryDigest \<Rightarrow> MemoryDigest" where
  "HistoricalPromptProjection table d =
     PromptStructuredProjection table
       (d\<lparr>md_Summary := WithoutCodeAssessment (md_Summary d),
          md_Fragments := map (\<lambda>f. f\<lparr>mf_Summary := WithoutCodeAssessment (mf_Summary f)\<rparr>) (md_Fragments d)\<rparr>)"

section \<open>What a prompt may say\<close>

definition recorded_facts :: "MemoryDigest \<Rightarrow> string list" where
  "recorded_facts d = (if md_Fragments d = [] then md_KeyFacts d else concat (map mf_KeyFacts (md_Fragments d)))"

definition authoritative_lists :: "MemoryDigest \<Rightarrow> string list list" where
  "authoritative_lists d =
     (if md_Fragments d = [] then (if md_TasksAuthoritative d then [md_OpenTasks d] else [])
      else map mf_OpenTasks (filter mf_TasksAuthoritative (md_Fragments d)))"

lemma drop_summaries_keeps:
  assumes "\<And>f x. g (f\<lparr>mf_Summary := x\<rparr>) = g f"
  shows "map g (dropByteContainedProviderSummaries fs) = map g fs"
proof -
  let ?step = "\<lambda>i fs. if contained_elsewhere fs i then fs[i := (fs ! i)\<lparr>mf_Summary := []\<rparr>] else fs"
  have "map g (fold ?step ns xs) = map g xs" for ns xs
  proof (induction ns arbitrary: xs)
    case (Cons n ns)
    have "map g (xs[n := (xs ! n)\<lparr>mf_Summary := []\<rparr>]) = map g xs"
      by (cases "n < length xs") (simp_all add: map_update assms list_update_same_conv list_update_beyond)
    then show ?case by (simp add: Cons)
  qed simp
  then show ?thesis by (simp add: dropByteContainedProviderSummaries_def)
qed

lemma worthy_tasks:
  "distinct (promptWorthyMemoryTasks table tasks facts)" "[] \<notin> set (promptWorthyMemoryTasks table tasks facts)"
proof -
  show "distinct (promptWorthyMemoryTasks table tasks facts)"
    unfolding promptWorthyMemoryTasks_def using first_seen_distinct distinct_map by blast
  show "[] \<notin> set (promptWorthyMemoryTasks table tasks facts)"
    unfolding promptWorthyMemoryTasks_def
    using first_seen_subset [of "ToLower table" "\<lambda>i. promptWorthyMemoryItem table i \<and> ToLower table i \<notin> set facts"]
    by (auto simp: promptWorthyMemoryItem_def)
qed

lemma worthy_tasks_cong: "set facts = set facts' \<Longrightarrow> promptWorthyMemoryTasks table tasks facts = promptWorthyMemoryTasks table tasks facts'"
  by (simp add: promptWorthyMemoryTasks_def)

lemma worthy_facts:
  "set (PromptWorthyMemoryFacts table facts) \<subseteq> {i \<in> TrimSpace ` set facts. promptWorthyMemoryItem table i}"
  "ToLower table ` set (PromptWorthyMemoryFacts table facts) =
     ToLower table ` {i \<in> TrimSpace ` set facts. promptWorthyMemoryItem table i}"
  using first_seen_subset [of "ToLower table" "promptWorthyMemoryItem table" "[]" "map TrimSpace facts"]
    first_seen_keys [of "ToLower table" "promptWorthyMemoryItem table" "[]" "map TrimSpace facts"]
  by (simp_all add: PromptWorthyMemoryFacts_def)

lemma dedupStrings_fixed: "distinct xs \<Longrightarrow> [] \<notin> set xs \<Longrightarrow> dedupStrings [xs] = xs"
  unfolding dedupStrings_def by (simp, rule first_seen_fixed) auto

lemma dedupStrings_concat: "dedupStrings xss = dedupStrings [concat xss]"
  by (simp add: dedupStrings_def)

text \<open>When only authoritative fragments list tasks, the current tasks are those of the last one.\<close>

lemma current_tasks:
  "\<forall>f \<in> set fs. \<not> mf_TasksAuthoritative f \<longrightarrow> mf_OpenTasks f = [] \<Longrightarrow>
     concat (map mf_OpenTasks (since_authority fs)) =
       (if filter mf_TasksAuthoritative fs = [] then [] else last (map mf_OpenTasks (filter mf_TasksAuthoritative fs)))"
proof (induction fs)
  case (Cons f fs)
  have "concat (map mf_OpenTasks fs) = []" if "filter mf_TasksAuthoritative fs = []"
    using that Cons.prems by (auto simp: filter_empty_conv)
  then show ?case using Cons by (auto simp: list_ex_iff filter_empty_conv last_map)
qed simp

lemma prompt_tasks_lists:
  "list_all2 (\<lambda>f p. mf_TasksAuthoritative p = mf_TasksAuthoritative f \<and> mf_OpenTasks p = []) fs ps \<Longrightarrow>
     map mf_OpenTasks (filter mf_TasksAuthoritative (map2 (prompt_tasks table S) fs ps)) =
       map (\<lambda>f. promptWorthyMemoryTasks table (mf_OpenTasks f) S) (filter mf_TasksAuthoritative fs) \<and>
     (\<forall>f \<in> set (map2 (prompt_tasks table S) fs ps). \<not> mf_TasksAuthoritative f \<longrightarrow> mf_OpenTasks f = [])"
  by (induction rule: list_all2_induct) (auto simp: prompt_tasks_def)

lemma prompt_tasks_current:
  assumes "list_all2 (\<lambda>f p. mf_TasksAuthoritative p = mf_TasksAuthoritative f \<and> mf_OpenTasks p = []) fs ps"
  shows "concat (map mf_OpenTasks (since_authority (map2 (prompt_tasks table S) fs ps))) =
    (if filter mf_TasksAuthoritative fs = [] then []
     else promptWorthyMemoryTasks table (last (map mf_OpenTasks (filter mf_TasksAuthoritative fs))) S)"
proof -
  define M where "M = map2 (prompt_tasks table S) fs ps"
  have M: "map mf_OpenTasks (filter mf_TasksAuthoritative M) =
      map (\<lambda>f. promptWorthyMemoryTasks table (mf_OpenTasks f) S) (filter mf_TasksAuthoritative fs)"
    and only: "\<forall>f \<in> set M. \<not> mf_TasksAuthoritative f \<longrightarrow> mf_OpenTasks f = []"
    using prompt_tasks_lists [OF assms, of table S] unfolding M_def by blast+
  have empty: "map f xs = map g ys \<Longrightarrow> (xs = []) = (ys = [])" for f g and xs ys :: "MemoryFragment list"
    by (cases xs; cases ys) auto
  show ?thesis
    unfolding M_def [symmetric] current_tasks [OF only] unfolding M empty [OF M] by (simp add: last_map)
qed

lemma since_authority_drop:
  "map mf_OpenTasks (since_authority (dropByteContainedProviderSummaries fs)) = map mf_OpenTasks (since_authority fs)"
proof -
  let ?blank = "\<lambda>f. f\<lparr>mf_Summary := []\<rparr>"
  have tasks: "map mf_OpenTasks (since_authority xs) = map mf_OpenTasks (since_authority (map ?blank xs))" for xs
    by (simp add: since_authority_map)
  have "map ?blank (dropByteContainedProviderSummaries fs) = map ?blank fs" by (rule drop_summaries_keeps) simp
  then show ?thesis using tasks by metis
qed

lemma map2_prompt_facts: "length fs = length ps \<Longrightarrow> map mf_KeyFacts (map2 (prompt_tasks table S) fs ps) = map mf_KeyFacts ps"
  by (induction fs ps rule: list_induct2) (auto simp: prompt_tasks_def)

lemma prompt_fragments_facts:
  "map mf_KeyFacts (prompt_fragments table fs) = map (\<lambda>f. PromptWorthyMemoryFacts table (mf_KeyFacts f)) fs"
proof -
  have projected: "map mf_KeyFacts (map (\<lambda>i. prompt_fragment table (b i) (fs ! i)) [0..<length fs]) =
      map (\<lambda>f. PromptWorthyMemoryFacts table (mf_KeyFacts f)) fs" for b
    by (rule nth_equalityI) (simp_all add: prompt_fragment_def Let_def)
  show ?thesis
    unfolding prompt_fragments_def Let_def
    by (subst drop_summaries_keeps, simp, subst map2_prompt_facts, simp, rule projected)
qed

lemma prompt_fragments_tasks:
  "concat (map mf_OpenTasks (since_authority (prompt_fragments table fs))) =
     (if filter mf_TasksAuthoritative fs = [] then []
      else promptWorthyMemoryTasks table (last (map mf_OpenTasks (filter mf_TasksAuthoritative fs)))
        (concat (map (\<lambda>f. memoryItemSet table (PromptWorthyMemoryFacts table (mf_KeyFacts f))) fs)))"
proof -
  let ?P = "map (\<lambda>i. prompt_fragment table (latestTaskAuthority fs = Some i) (fs ! i)) [0..<length fs]"
  let ?S = "concat (map (\<lambda>f. memoryItemSet table (mf_KeyFacts f)) ?P)"
  let ?S' = "concat (map (\<lambda>f. memoryItemSet table (PromptWorthyMemoryFacts table (mf_KeyFacts f))) fs)"
  have S: "?S = ?S'"
    by (intro arg_cong [where f = concat] nth_equalityI) (simp_all add: prompt_fragment_def Let_def)
  have "list_all2 (\<lambda>f p. mf_TasksAuthoritative p = mf_TasksAuthoritative f \<and> mf_OpenTasks p = []) fs ?P"
    by (simp add: list_all2_conv_all_nth prompt_fragment_def Let_def)
  from prompt_tasks_current [OF this, of table ?S] show ?thesis
    unfolding prompt_fragments_def Let_def since_authority_drop S .
qed



end
