(* ===== verification/Claims.thy ===== *)
theory Claims
  imports Memory
begin

text \<open>
  The wire declaration of memory claims (\<open>memory_claims.go\<close>): how many a digest may carry, which kinds
  there are, and which code scope a code claim declares. The paths of a scope name files below the root
  of the repository.
\<close>

definition bad_path_part :: "string \<Rightarrow> bool" where
  "bad_path_part part \<longleftrightarrow> part = [] \<or> part = ''.'' \<or> part = ''..''"

fun check_paths :: "string list \<Rightarrow> string list \<Rightarrow> check" where
  "check_paths seen [] = None"
| "check_paths seen (p # ps) =
     (if p = [] \<or> 4096 < length p \<or> has_prefix ''/'' p \<or> CHR 0x00 \<in> set p \<or> p \<in> set seen
      then Some (ErrText ''invalid or duplicate code claim path'')
      else if list_ex bad_path_part (split_on (CHR ''/'') p) then Some (ErrText ''invalid code claim path'')
      else check_paths (p # seen) ps)"

definition check_scope :: "MemoryCodeScope option \<Rightarrow> check" where
  "check_scope code =
     (case code of
        None \<Rightarrow> Some (ErrText ''code claim requires full source Git SHA'')
      | Some s \<Rightarrow>
          if \<not> memoryClaimOID (ms_Commit s) \<or>
             (ms_Parent s \<noteq> [] \<and> (\<not> memoryClaimOID (ms_Parent s) \<or> length (ms_Parent s) \<noteq> length (ms_Commit s)))
          then Some (ErrText ''code claim requires full source Git SHA'')
          else if elems (ms_Paths s) = [] \<or> 20 < length (elems (ms_Paths s))
          then Some (ErrText ''code claim requires 1 to 20 exact file paths'')
          else check_paths [] (elems (ms_Paths s)))"

definition check_claim :: "32 word \<Rightarrow> MemoryClaim \<Rightarrow> check" where
  "check_claim version c =
     first_error
      [fail_if (version \<noteq> MemoryClaimsVersion) (ErrText ''memory claims require claims_version=1''),
       fail_if (TrimSpace (mc_Text c) = [] \<or> 8192 < length (mc_Text c)) (ErrText ''invalid memory claim text''),
       (if mc_Kind c = ''decision'' \<or> mc_Kind c = ''rationale'' then
          fail_if (mc_Code c \<noteq> None) (ErrText ''historical memory claims cannot declare code scope'')
        else if mc_Kind c = ''code'' then check_scope (mc_Code c)
        else Some (ErrText ''unknown memory claim kind''))]"

fun check_fragments :: "32 word \<Rightarrow> nat \<Rightarrow> MemoryFragment list \<Rightarrow> check" where
  "check_fragments version acc [] = None"
| "check_fragments version acc (f # fs) =
     (let acc' = acc + length (mf_Claims f) in
      if 256 < length (mf_Claims f) \<or> 2048 < acc' then Some (ErrText ''too many memory claims'')
      else first_error
        [if mf_Claims f \<noteq> [] then ValidateContentHash (mf_SourceSnapshot f) else None,
         first_error (map (check_claim version) (mf_Claims f)),
         check_fragments version acc' fs])"

definition ValidateMemoryClaims :: "MemoryDigest \<Rightarrow> check" where
  "ValidateMemoryClaims d =
     (if md_ClaimsVersion d \<noteq> 0 \<and> md_ClaimsVersion d \<noteq> MemoryClaimsVersion
      then Some (ErrText ''unsupported memory claims version'')
      else check_fragments (md_ClaimsVersion d) 0 (md_Fragments d))"

section \<open>What a valid declaration guarantees\<close>

text \<open>A path that stays where it is resolved, and a scope as a code claim declares it.\<close>

definition inside :: "string \<Rightarrow> bool" where
  "inside p \<longleftrightarrow> p \<noteq> [] \<and> length p \<le> 4096 \<and> CHR 0x00 \<notin> set p \<and>
     walk [] (split_on (CHR ''/'') p) = Some (split_on (CHR ''/'') p) \<and> list_ex bad_path_part (split_on (CHR ''/'') p) = False"

definition scope_ok :: "MemoryCodeScope \<Rightarrow> bool" where
  "scope_ok s \<longleftrightarrow> memoryClaimOID (ms_Commit s) \<and>
     (ms_Parent s = [] \<or> memoryClaimOID (ms_Parent s) \<and> length (ms_Parent s) = length (ms_Commit s)) \<and>
     length (elems (ms_Paths s)) \<in> {1..20} \<and> distinct (elems (ms_Paths s)) \<and> list_all inside (elems (ms_Paths s))"

definition claim_ok :: "MemoryClaim \<Rightarrow> bool" where
  "claim_ok c \<longleftrightarrow> TrimSpace (mc_Text c) \<noteq> [] \<and> length (mc_Text c) \<le> 8192 \<and>
     (case mc_Code c of None \<Rightarrow> mc_Kind c \<in> {''decision'', ''rationale''} | Some s \<Rightarrow> mc_Kind c = ''code'' \<and> scope_ok s)"

lemma absolute_part: "has_prefix ''/'' p \<Longrightarrow> list_ex bad_path_part (split_on (CHR ''/'') p)"
  by (cases p) (auto simp: has_prefix_def bad_path_part_def)

lemma check_paths_None: "check_paths seen ps = None \<longleftrightarrow>
    distinct ps \<and> set ps \<inter> set seen = {} \<and> list_all inside ps"
proof (induction ps arbitrary: seen)
  case (Cons p ps)
  have "walk [] (split_on (CHR ''/'') p) = Some (split_on (CHR ''/'') p)" if "\<not> list_ex bad_path_part (split_on (CHR ''/'') p)"
    using that walk_plain [of "split_on (CHR ''/'') p" "[]"] by (auto simp: list_ex_iff list_all_iff bad_path_part_def)
  then show ?case using absolute_part [of p] Cons [of "p # seen"] by (auto simp: inside_def)
qed simp

lemma check_scope_None: "check_scope code = None \<longleftrightarrow> (\<exists>s. code = Some s \<and> scope_ok s)"
  by (cases code) (auto simp: check_scope_def scope_ok_def check_paths_None Suc_le_eq not_less)

lemma check_claim_None: "check_claim v c = None \<longleftrightarrow> v = MemoryClaimsVersion \<and> claim_ok c"
  by (cases "mc_Code c") (auto simp: check_claim_def claim_ok_def check_scope_None not_less)

lemma check_fragments_None: "check_fragments v acc fs = None \<longleftrightarrow>
    (\<forall>f \<in> set fs. length (mf_Claims f) \<le> 256 \<and>
       (mf_Claims f = [] \<or> v = MemoryClaimsVersion \<and> ValidateContentHash (mf_SourceSnapshot f) = None \<and> list_all claim_ok (mf_Claims f))) \<and>
    (fs = [] \<or> acc + (\<Sum>f \<leftarrow> fs. length (mf_Claims f)) \<le> 2048)"
proof (induction fs arbitrary: acc)
  case (Cons f fs)
  have "first_error (map (check_claim v) (mf_Claims f)) = None \<longleftrightarrow> mf_Claims f = [] \<or> v = MemoryClaimsVersion \<and> list_all claim_ok (mf_Claims f)"
    by (cases "mf_Claims f") (auto simp: check_claim_None list_all_iff)
  then show ?case by (cases "fs = []") (auto simp: Cons Let_def add.assoc not_less)
qed simp

text \<open>A digest passes the claims check exactly when its claims version is known, no fragment has more
than 256 claims and all together no more than 2048, every fragment with claims has a well-formed source
and the current version is declared, and every claim is well formed: a decision or rationale without a
code scope, or a code claim with one, which names full Git object IDs of one length and between 1 and 20
different paths, each of which resolves to its own components below the repository root.\<close>

theorem ValidateMemoryClaims_exact:
  "ValidateMemoryClaims d = None \<longleftrightarrow>
     md_ClaimsVersion d \<in> {0, MemoryClaimsVersion} \<and>
     (\<Sum>f \<leftarrow> md_Fragments d. length (mf_Claims f)) \<le> 2048 \<and>
     list_all (\<lambda>f. length (mf_Claims f) \<le> 256 \<and>
       (mf_Claims f = [] \<or> md_ClaimsVersion d = MemoryClaimsVersion \<and>
         ValidateContentHash (mf_SourceSnapshot f) = None \<and> list_all claim_ok (mf_Claims f))) (md_Fragments d)"
  by (auto simp: ValidateMemoryClaims_def check_fragments_None list_all_iff)

end
