(* ===== verification/Staging.thy ===== *)
theory Staging
  imports Publication Json
begin

text \<open>
  The staging index of a worktree (\<open>staging.go\<close>), with the document identities it names
  (\<open>document_identity.go\<close>) and the working position it is committed at (\<open>working_position.go\<close>). The
  revision of an index hashes its JSON form. The model of a time keeps its location abstract, so its
  RFC 3339 text is the argument \<open>clock\<close>; a time outside the range of that format has none and makes
  \<open>json.Marshal\<close> fail, as an unsupported document identity does. The code ignores that error and hashes
  no bytes.
\<close>

section \<open>Data\<close>

type_synonym clock = "gtime \<Rightarrow> string option"

definition DocumentIdentityRootV1 :: string where
  "DocumentIdentityRootV1 = ''cxt-manifest-sha256-v1''"

definition ValidateDocumentIdentity :: "string \<Rightarrow> check" where
  "ValidateDocumentIdentity i = fail_if (i \<noteq> [] \<and> i \<noteq> DocumentIdentityRootV1) ErrUnsupportedDocumentIdentity"

record DocumentRef =
  dr_Hash :: string
  dr_Identity :: string

definition ValidateDocumentRef :: "DocumentRef \<Rightarrow> check" where
  "ValidateDocumentRef r = first_error [ValidateDocumentIdentity (dr_Identity r), ValidateContentHash (dr_Hash r)]"

definition snapshot_DocumentRef :: "Snapshot \<Rightarrow> DocumentRef" where
  "snapshot_DocumentRef s = \<lparr>dr_Hash = sn_DocHash s, dr_Identity = sn_DocIdentity s\<rparr>"

definition MatchesSnapshot :: "DocumentRef \<Rightarrow> Snapshot \<Rightarrow> bool" where
  "MatchesSnapshot r s \<longleftrightarrow> ValidateDocumentRef r = None \<and> sn_ID s = sn_DocHash s \<and> r = snapshot_DocumentRef s"

definition StagingVersion :: int where "StagingVersion = 1"

definition RootStagingVersion :: int where "RootStagingVersion = 2"

definition RootStagingCommitVersion :: int where "RootStagingCommitVersion = 3"

definition StagingCommitVersion :: int where "StagingCommitVersion = 2"

record StagedSession =
  ss_Key :: string
  ss_Provider :: string
  ss_SessionID :: string
  ss_SourceID :: string
  ss_Generation :: string
  ss_DocHash :: string
  ss_DocIdentity :: string
  ss_Events :: int
  ss_StartEvent :: int
  ss_CapturedBytes :: int
  ss_CodeCommit :: string
  ss_Branch :: string
  ss_BranchID :: string
  ss_Base :: string
  ss_CapturedAt :: gtime

record StagingIndex =
  si_Version :: int
  si_RepoID :: string
  si_WorktreeID :: string
  si_Sequence :: "64 word"
  si_Revision :: string
  si_Entries :: "StagedSession list"

record WorkingPosition =
  wp_RepoID :: string
  wp_WorktreeID :: string
  wp_Branch :: string
  wp_BranchID :: string
  wp_LocalBranch :: string
  wp_GitCommit :: string
  wp_Snapshot :: string
  wp_SharedTarget :: string
  wp_MemoryHash :: string
  wp_MemorySource :: string
  wp_MemoryPinned :: bool
  wp_Orphan :: bool
  wp_Rewound :: bool
  wp_Selection :: "HistoryEvent option"

record StagingCommit =
  sc_Version :: int
  sc_ID :: string
  sc_Index :: StagingIndex
  sc_ExpectedPosition :: WorkingPosition
  sc_ExpectedRef :: Ref
  sc_Position :: WorkingPosition
  sc_Ref :: Ref
  sc_Advance :: "HistoryEvent option"
  sc_Publications :: "HistoryEvent list"
  sc_CreatedAt :: gtime
  sc_LocalFinalized :: bool

section \<open>Versions and revisions\<close>

definition session_DocumentRef :: "StagedSession \<Rightarrow> DocumentRef" where
  "session_DocumentRef e = \<lparr>dr_Hash = ss_DocHash e, dr_Identity = ss_DocIdentity e\<rparr>"

definition HasRootDocuments :: "StagingIndex \<Rightarrow> bool" where
  "HasRootDocuments i = list_ex (\<lambda>e. ss_DocIdentity e \<noteq> []) (si_Entries i)"

definition RecordVersion :: "StagingIndex \<Rightarrow> int" where
  "RecordVersion i = (if HasRootDocuments i then RootStagingVersion else StagingVersion)"

definition CommitVersion :: "StagingIndex \<Rightarrow> int" where
  "CommitVersion i = (if HasRootDocuments i then RootStagingCommitVersion else StagingCommitVersion)"

definition StagedSessionKey :: "string \<Rightarrow> string \<Rightarrow> string \<Rightarrow> string \<Rightarrow> string" where
  "StagedSessionKey provider session source generation =
     HashContent (json_text (JArr (map JStr [provider, session, source, generation])))"

definition identity_json :: "string \<Rightarrow> (string \<times> json) list option" where
  "identity_json i =
     (if i = [] then Some []
      else if ValidateDocumentIdentity i = None then Some [(''doc_identity'', JStr i)] else None)"

definition session_json :: "clock \<Rightarrow> StagedSession \<Rightarrow> json option" where
  "session_json clock e =
     (case (identity_json (ss_DocIdentity e), clock (ss_CapturedAt e)) of
        (Some identity, Some at) \<Rightarrow> Some (JObj
          ([(''key'', JStr (ss_Key e)), (''provider'', JStr (ss_Provider e)), (''session_id'', JStr (ss_SessionID e)),
            (''source_id'', JStr (ss_SourceID e)), (''generation'', JStr (ss_Generation e)), (''doc_hash'', JStr (ss_DocHash e))] @
           identity @
           [(''events'', JInt (ss_Events e)), (''start_event'', JInt (ss_StartEvent e)),
            (''captured_bytes'', JInt (ss_CapturedBytes e)), (''code_commit'', JStr (ss_CodeCommit e)),
            (''branch'', JStr (ss_Branch e)), (''branch_id'', JStr (ss_BranchID e))] @
           omitempty (ss_Base e = []) ''base'' (JStr (ss_Base e)) @
           [(''captured_at'', JStr at)]))
      | _ \<Rightarrow> None)"

definition index_json :: "clock \<Rightarrow> StagingIndex \<Rightarrow> json option" where
  "index_json clock i =
     map_option (\<lambda>entries. JObj
       [(''version'', JInt (si_Version i)), (''repo_id'', JStr (si_RepoID i)), (''worktree_id'', JStr (si_WorktreeID i)),
        (''sequence'', JInt (uint (si_Sequence i))), (''revision'', JStr (si_Revision i)), (''entries'', JArr entries)])
     (those (map (session_json clock) (si_Entries i)))"

definition marshalled :: "json option \<Rightarrow> string" where
  "marshalled j = (case j of None \<Rightarrow> [] | Some v \<Rightarrow> json_text v)"

definition index_record_version :: "StagingIndex \<Rightarrow> StagingIndex" where
  "index_record_version i =
     (if si_Version i = StagingVersion \<or> si_Version i = RootStagingVersion then i\<lparr>si_Version := RecordVersion i\<rparr> else i)"

definition WithRevision :: "clock \<Rightarrow> StagingIndex \<Rightarrow> StagingIndex" where
  "WithRevision clock i =
     (let j = (index_record_version i)\<lparr>si_Entries := sort_key ss_Key (si_Entries i), si_Revision := []\<rparr>
      in j\<lparr>si_Revision := HashContent (marshalled (index_json clock j))\<rparr>)"

section \<open>Validation\<close>

definition ValidateStagingCode :: "string \<Rightarrow> check" where
  "ValidateStagingCode sha = first_error
     [fail_if (\<not> git_oid_length sha \<or> sha \<noteq> to_lower sha \<or> trim_set ''0'' sha = [])
        (ErrText ''staging requires an exact current Git commit''),
      fail_if (\<not> hex_ok sha) (ErrText ''invalid staged Git commit'')]"

definition ValidateStagedSession :: "StagedSession \<Rightarrow> check" where
  "ValidateStagedSession e = first_error
     ([ValidateDocumentRef (session_DocumentRef e),
       fail_if (ss_Provider e \<noteq> ''claude'' \<and> ss_Provider e \<noteq> ''codex'') ErrUnsupportedProvider,
       fail_if (ss_SessionID e = [] \<or> 256 < length (ss_SessionID e) \<or> ss_Events e < 0 \<or> ss_StartEvent e < 0 \<or>
           ss_Events e < ss_StartEvent e \<or> ss_CapturedBytes e < 0 \<or> time_is_zero (ss_CapturedAt e) \<or> ss_BranchID e = [])
         ErrHashMismatch] @
      map ValidateContentHash [ss_Key e, ss_SourceID e, ss_Generation e, ss_DocHash e] @
      [ValidateOptionalContentHash (ss_Base e),
       fail_if (ss_Key e \<noteq> StagedSessionKey (ss_Provider e) (ss_SessionID e) (ss_SourceID e) (ss_Generation e)) ErrHashMismatch,
       ValidateStagingCode (ss_CodeCommit e),
       if ss_Branch e \<noteq> [] then ValidateBranchName (ss_Branch e) else None])"

fun check_sessions :: "string list \<Rightarrow> StagedSession list \<Rightarrow> check" where
  "check_sessions seen [] = None"
| "check_sessions seen (e # es) = first_error
     [ValidateStagedSession e, fail_if (ss_Key e \<in> set seen) ErrHashMismatch, check_sessions (ss_Key e # seen) es]"

definition ValidateStagingIndex :: "clock \<Rightarrow> StagingIndex \<Rightarrow> check" where
  "ValidateStagingIndex clock i = first_error
     [fail_if ((si_Version i \<noteq> StagingVersion \<and> si_Version i \<noteq> RootStagingVersion) \<or> si_Version i \<noteq> RecordVersion i) ErrStagingVersion,
      fail_if (ValidateContentHash (si_RepoID i) \<noteq> None \<or> length (si_WorktreeID i) \<noteq> 32) ErrHashMismatch,
      fail_if (\<not> hex_ok (si_WorktreeID i)) ErrHashMismatch,
      fail_if (si_Revision (WithRevision clock i) \<noteq> si_Revision i) ErrHashMismatch,
      check_sessions [] (si_Entries i)]"

section \<open>Consuming staged entries\<close>

text \<open>The map \<open>consumed\<close>: of several frozen entries with one key the last one counts.\<close>

definition consumed :: "StagedSession list \<Rightarrow> string \<Rightarrow> StagedSession option" where
  "consumed frozen key = find (\<lambda>e. ss_Key e = key) (rev frozen)"

definition ConsumeStagedEntries :: "clock \<Rightarrow> StagingIndex \<Rightarrow> StagedSession list \<Rightarrow> StagingIndex" where
  "ConsumeStagedEntries clock current frozen =
     (let kept = filter (\<lambda>e. consumed frozen (ss_Key e) \<noteq> Some e) (si_Entries current);
          out = current\<lparr>si_Entries := kept\<rparr>
      in WithRevision clock
           (if length kept \<noteq> length (si_Entries current) then out\<lparr>si_Sequence := si_Sequence out + 1\<rparr> else out))"

definition zero_event :: HistoryEvent where
  "zero_event = \<lparr>he_Creation = None, he_PRCompleted = False, he_RecoveryEvidence = [], he_PR = None,
     he_SourceBranchID = [], he_ID = [], he_RepoID = [], he_BranchID = [], he_Branch = [], he_Kind = [],
     he_LocalBranch = [], he_PreviousBranch = [], he_BindingParent = [], he_NameParent = [],
     he_MemorySelectionParent = [], he_Source = [], he_Target = [], he_SharedTarget = [], he_MemorySource = [],
     he_MemoryHash = [], he_MemoryPinned = False, he_GitBefore = [], he_GitAfter = [], he_WorktreeID = [],
     he_CreatedAt = \<lparr>instant = 0, repr = 0\<rparr>\<rparr>"

definition observation :: "HistoryEvent \<Rightarrow> HistoryEvent" where
  "observation event = event\<lparr>he_ID := take 32 (drop 7 (HashContent (''staging-observation/v1/'' @ he_ID event))),
     he_Kind := ''position''\<rparr>"

definition StagingObservations :: "StagingCommit \<Rightarrow> HistoryEvent list" where
  "StagingObservations op =
     (let selection = wp_Selection (sc_Position op);
          final = (case selection of None \<Rightarrow> zero_event | Some s \<Rightarrow> s\<lparr>he_Kind := ''position''\<rparr>);
          publications =
            filter (\<lambda>e. \<not> (StagingCommitVersion \<le> sc_Version op \<and> publicationProof e final)) (sc_Publications op) @
            (case selection of None \<Rightarrow> [] | Some s \<Rightarrow> [s])
      in map observation publications)"

section \<open>Revisions\<close>

lemma record_version_cases: "RecordVersion i = StagingVersion \<or> RecordVersion i = RootStagingVersion"
  by (simp add: RecordVersion_def)

lemma RecordVersion_set: "set (si_Entries i) = set (si_Entries j) \<Longrightarrow> RecordVersion i = RecordVersion j"
  by (simp add: RecordVersion_def HasRootDocuments_def list_ex_iff)

lemma WithRevision_fields [simp]:
  "si_Entries (WithRevision clock i) = sort_key ss_Key (si_Entries i)"
  "si_RepoID (WithRevision clock i) = si_RepoID i" "si_WorktreeID (WithRevision clock i) = si_WorktreeID i"
  "si_Sequence (WithRevision clock i) = si_Sequence i"
  "si_Version (WithRevision clock i) = si_Version (index_record_version i)"
  by (simp_all add: WithRevision_def Let_def index_record_version_def)

text \<open>Revising again changes nothing, and neither the old revision nor the order of the entries matters.\<close>

lemma WithRevision_again [simp]: "WithRevision clock (WithRevision clock i) = WithRevision clock i"
proof -
  have "RecordVersion (WithRevision clock i) = RecordVersion i" by (rule RecordVersion_set) simp
  then have "(index_record_version (WithRevision clock i))\<lparr>si_Entries := sort_key ss_Key (sort_key ss_Key (si_Entries i)), si_Revision := []\<rparr> =
      (index_record_version i)\<lparr>si_Entries := sort_key ss_Key (si_Entries i), si_Revision := []\<rparr>"
    using record_version_cases [of i]
    by (auto simp: index_record_version_def WithRevision_def Let_def sorted_sort_id sort_key_id_if_sorted)
  then show ?thesis by (simp add: WithRevision_def [of clock "WithRevision clock i"]) (simp add: WithRevision_def)
qed

lemma check_sessions_None:
  "check_sessions seen es = None \<longleftrightarrow>
     (\<forall>e \<in> set es. ValidateStagedSession e = None) \<and> distinct (map ss_Key es) \<and> ss_Key ` set es \<inter> set seen = {}"
  by (induction es arbitrary: seen) auto

lemma ValidateStagingIndex_None:
  "ValidateStagingIndex clock i = None \<longleftrightarrow>
     si_Version i = RecordVersion i \<and> ValidateContentHash (si_RepoID i) = None \<and>
     length (si_WorktreeID i) = 32 \<and> hex_ok (si_WorktreeID i) \<and> si_Revision (WithRevision clock i) = si_Revision i \<and>
     (\<forall>e \<in> set (si_Entries i). ValidateStagedSession e = None) \<and> distinct (map ss_Key (si_Entries i))"
  using record_version_cases [of i] by (auto simp: ValidateStagingIndex_def check_sessions_None)

text \<open>An index that is revised after entries were dropped is again valid.\<close>

lemma WithRevision_valid:
  assumes "ValidateStagingIndex clock i = None" "set es \<subseteq> set (si_Entries i)" "distinct (map ss_Key es)"
  shows "ValidateStagingIndex clock (WithRevision clock (i\<lparr>si_Entries := es, si_Sequence := n\<rparr>)) = None"
proof -
  let ?x = "i\<lparr>si_Entries := es, si_Sequence := n\<rparr>"
  note v = assms(1) [unfolded ValidateStagingIndex_None]
  have "si_Version (index_record_version ?x) = RecordVersion ?x"
    using v record_version_cases [of i] by (auto simp: index_record_version_def RecordVersion_def HasRootDocuments_def)
  moreover have "RecordVersion (WithRevision clock ?x) = RecordVersion ?x" by (rule RecordVersion_set) simp
  moreover have "distinct (map ss_Key (sort_key ss_Key es))" using assms(3) by (simp add: distinct_map)
  moreover have "\<forall>e \<in> set es. ValidateStagedSession e = None" using v assms(2) by blast
  ultimately show ?thesis using v by (simp add: ValidateStagingIndex_None)
qed

text \<open>C28: committing staged entries consumes exactly what was frozen. From a valid index,
\<open>ConsumeStagedEntries\<close> keeps exactly the entries that are not identical to the frozen entry of their
key, so a source that was added again meanwhile survives; the result is again a valid index, with an
authentic revision and entries in key order; its sequence number advances by one, modulo \<open>2^64\<close>,
exactly when something was removed; and consuming the same entries again changes nothing.\<close>

theorem ConsumeStagedEntries_safe:
  assumes "ValidateStagingIndex clock current = None" "out = ConsumeStagedEntries clock current frozen"
  shows "ValidateStagingIndex clock out = None \<and>
    set (si_Entries out) = {e \<in> set (si_Entries current). consumed frozen (ss_Key e) \<noteq> Some e} \<and>
    sorted (map ss_Key (si_Entries out)) \<and>
    si_Sequence out = (if set (si_Entries out) = set (si_Entries current) then si_Sequence current else si_Sequence current + 1) \<and>
    ConsumeStagedEntries clock out frozen = out"
proof -
  let ?keep = "\<lambda>e. consumed frozen (ss_Key e) \<noteq> Some e"
  let ?kept = "filter ?keep (si_Entries current)"
  let ?n = "if length ?kept \<noteq> length (si_Entries current) then si_Sequence current + 1 else si_Sequence current"
  have out: "out = WithRevision clock (current\<lparr>si_Entries := ?kept, si_Sequence := ?n\<rparr>)"
    by (simp add: assms(2) ConsumeStagedEntries_def Let_def)
  have d: "distinct (map ss_Key (si_Entries current))" using assms(1) by (simp add: ValidateStagingIndex_None)
  have "ValidateStagingIndex clock out = None"
    unfolding out by (rule WithRevision_valid [OF assms(1)]) (use d in \<open>auto simp: distinct_map_filter\<close>)
  moreover have "(length ?kept = length (si_Entries current)) = (set ?kept = set (si_Entries current))"
  proof
    assume "length ?kept = length (si_Entries current)"
    then have "?kept = si_Entries current" by (metis filter_id_conv length_filter_less less_irrefl_nat)
    then show "set ?kept = set (si_Entries current)" by simp
  next
    assume "set ?kept = set (si_Entries current)"
    then have "?kept = si_Entries current" by (intro filter_True) auto
    then show "length ?kept = length (si_Entries current)" by simp
  qed
  moreover have "ConsumeStagedEntries clock out frozen = out"
  proof -
    have "filter ?keep (si_Entries out) = si_Entries out" by (rule filter_True) (auto simp: out)
    moreover have "j\<lparr>si_Entries := si_Entries j\<rparr> = j" for j :: StagingIndex by (cases j) simp
    moreover have "WithRevision clock out = out" by (simp add: out)
    ultimately show ?thesis by (simp add: ConsumeStagedEntries_def Let_def)
  qed
  ultimately show ?thesis by (auto simp: out)
qed

definition sample_session :: StagedSession where
  "sample_session = \<lparr>ss_Key = StagedSessionKey ''claude'' ''s1'' (''sha256:'' @ replicate 64 (CHR ''2'')) (''sha256:'' @ replicate 64 (CHR ''1'')),
     ss_Provider = ''claude'', ss_SessionID = ''s1'', ss_SourceID = ''sha256:'' @ replicate 64 (CHR ''2''),
     ss_Generation = ''sha256:'' @ replicate 64 (CHR ''1''), ss_DocHash = ''sha256:'' @ replicate 64 (CHR ''d''), ss_DocIdentity = [],
     ss_Events = 4, ss_StartEvent = 1, ss_CapturedBytes = 100, ss_CodeCommit = replicate 40 (CHR ''e''), ss_Branch = ''main'',
     ss_BranchID = ''b'', ss_Base = [], ss_CapturedAt = \<lparr>instant = 7, repr = 0\<rparr>\<rparr>"

definition sample_clock :: clock where
  "sample_clock t = (if time_is_zero t then None else Some ''2026-01-02T03:04:05Z'')"

definition sample_index :: StagingIndex where
  "sample_index = WithRevision sample_clock
     \<lparr>si_Version = 1, si_RepoID = ''sha256:'' @ replicate 64 (CHR ''a''), si_WorktreeID = replicate 32 (CHR ''0''), si_Sequence = 5,
      si_Revision = [], si_Entries = [sample_session]\<rparr>"

lemma sample_session_valid: "ValidateStagedSession sample_session = None"
proof -
  have "ValidateContentHash (''sha256:'' @ replicate 64 c) = None" if "is_lower_hex c" for c
    using that by (simp add: ValidateContentHash_iff list_all_iff)
  moreover have "ValidateStagingCode (replicate 40 (CHR ''e'')) = None" by code_simp
  moreover have "ValidateBranchName ''main'' = None" by code_simp
  moreover have "is_lower_hex (CHR ''1'')" "is_lower_hex (CHR ''2'')" "is_lower_hex (CHR ''d'')" by code_simp+
  ultimately show ?thesis
    by (simp add: ValidateStagedSession_def sample_session_def ValidateDocumentRef_def session_DocumentRef_def
        ValidateDocumentIdentity_def ValidateOptionalContentHash_def time_is_zero_def StagedSessionKey_def HashContent_valid
        del: replicate.simps)
qed

lemma sample_index_valid: "ValidateStagingIndex sample_clock sample_index = None"
proof -
  have "ValidateContentHash (''sha256:'' @ replicate 64 (CHR ''a'')) = None" by code_simp
  moreover have "hex_ok (replicate 32 (CHR ''0''))" by code_simp
  moreover have "ss_DocIdentity sample_session = []" by (simp add: sample_session_def)
  moreover have "WithRevision sample_clock sample_index = sample_index" by (simp add: sample_index_def)
  moreover have "si_Entries sample_index = [sample_session]" "si_Version sample_index = StagingVersion"
    "si_RepoID sample_index = ''sha256:'' @ replicate 64 (CHR ''a'')" "si_WorktreeID sample_index = replicate 32 (CHR ''0'')"
    using calculation(3)
    by (simp_all add: sample_index_def index_record_version_def RecordVersion_def HasRootDocuments_def StagingVersion_def)
  ultimately show ?thesis
    using sample_session_valid by (simp add: ValidateStagingIndex_None RecordVersion_def HasRootDocuments_def)
qed

theorem ConsumeStagedEntries_safe_witness:
  "ValidateStagingIndex sample_clock sample_index = None \<and>
   ValidateStagingIndex sample_clock (ConsumeStagedEntries sample_clock sample_index [sample_session]) = None \<and>
   set (si_Entries (ConsumeStagedEntries sample_clock sample_index [sample_session])) = {}"
proof -
  have "si_Entries sample_index = [sample_session]" by (simp add: sample_index_def)
  with sample_index_valid ConsumeStagedEntries_safe [OF sample_index_valid refl, of "[sample_session]"] show ?thesis
    by (simp add: consumed_def)
qed

end
