(* ===== verification/Capture.thy ===== *)
theory Capture
  imports Staging
begin

text \<open>
  The journal of commit captures (\<open>capture_recovery.go\<close>) and the frozen provider input it refers to
  (\<open>frozen_capture.go\<close>). Validation is what every retry starts from: it fixes which providers were
  captured, which bytes they had, and which snapshot the capture ends at.
\<close>

section \<open>Frozen input\<close>

record FrozenCaptureChunk =
  fc_Hash :: string
  fc_Size :: int

record NativeMemory =
  nm_Provider :: string
  nm_Source :: string
  nm_Scope :: string
  nm_AutoLoadedPrefix :: string
  nm_Text :: string
  nm_Structured :: "(string \<times> string) list"

record FrozenCaptureInput =
  fi_Version :: int
  fi_Provider :: string
  fi_SourcePath :: string
  fi_Size :: int
  fi_Hash :: string
  fi_Chunks :: "FrozenCaptureChunk list"
  fi_CapturedAt :: gtime
  fi_PolicyFingerprint :: string
  fi_DocIdentity :: string
  fi_SessionID :: string
  fi_NativeMemory :: "NativeMemory option"

definition FrozenCaptureVersion :: int where "FrozenCaptureVersion = 1"

definition FrozenCaptureChunkBytes :: int where "FrozenCaptureChunkBytes = 2 ^ 20"

definition FrozenCaptureMaxBytes :: int where "FrozenCaptureMaxBytes = 2 * 2 ^ 30"

definition FrozenCaptureMemoryMaxBytes :: nat where "FrozenCaptureMemoryMaxBytes = 8 * 2 ^ 20"

text \<open>
  \<open>filepath.IsAbs\<close> and, for absolute paths, \<open>filepath.Clean\<close>, as they are on Unix: empty and dot
  components disappear, a parent component takes back the component before it.
\<close>

definition IsAbs :: "string \<Rightarrow> bool" where
  "IsAbs p = has_prefix ''/'' p"

fun clean_parts :: "string list \<Rightarrow> string list \<Rightarrow> string list" where
  "clean_parts out [] = out"
| "clean_parts out (p # ps) =
     (if p = [] \<or> p = ''.'' then clean_parts out ps
      else if p = ''..'' then clean_parts (butlast out) ps
      else clean_parts (out @ [p]) ps)"

definition clean_absolute :: "string \<Rightarrow> string" where
  "clean_absolute p = CHR ''/'' # join (CHR ''/'') (clean_parts [] (split_on (CHR ''/'') p))"

fun check_chunks :: "int \<Rightarrow> FrozenCaptureChunk list \<Rightarrow> bool" where
  "check_chunks remaining [] \<longleftrightarrow> True"
| "check_chunks remaining (c # cs) \<longleftrightarrow>
     fc_Size c = min remaining FrozenCaptureChunkBytes \<and> ValidateContentHash (fc_Hash c) = None \<and>
     check_chunks (remaining - fc_Size c) cs"

fun consume_all :: "nat \<Rightarrow> string list \<Rightarrow> bool" where
  "consume_all remaining [] \<longleftrightarrow> True"
| "consume_all remaining (v # vs) \<longleftrightarrow> length v \<le> remaining \<and> consume_all (remaining - length v) vs"

definition native_json :: "NativeMemory \<Rightarrow> json" where
  "native_json m = JObj
     ([(''provider'', JStr (nm_Provider m)), (''source'', JStr (nm_Source m))] @
      omitempty (nm_Scope m = []) ''scope'' (JStr (nm_Scope m)) @
      omitempty (nm_AutoLoadedPrefix m = []) ''auto_loaded_prefix'' (JStr (nm_AutoLoadedPrefix m)) @
      [(''text'', JStr (nm_Text m))] @
      omitempty (nm_Structured m = []) ''structured''
        (JObj (map (\<lambda>(k, v). (k, JStr v)) (sort_key fst (nm_Structured m)))))"

definition native_ok :: "string \<Rightarrow> NativeMemory \<Rightarrow> bool" where
  "native_ok provider m \<longleftrightarrow>
     nm_Provider m = provider \<and>
     consume_all FrozenCaptureMemoryMaxBytes
       ([nm_Provider m, nm_Source m, nm_Scope m, nm_Text m, nm_AutoLoadedPrefix m] @
        concat (map (\<lambda>(k, v). [k, v]) (nm_Structured m))) \<and>
     length (json_text (native_json m)) \<le> FrozenCaptureMemoryMaxBytes"

definition input_shape :: "FrozenCaptureInput \<Rightarrow> bool" where
  "input_shape i \<longleftrightarrow>
     fi_Version i = FrozenCaptureVersion \<and> (fi_Provider i = ''claude'' \<or> fi_Provider i = ''codex'') \<and>
     IsAbs (fi_SourcePath i) \<and> clean_absolute (fi_SourcePath i) = fi_SourcePath i \<and> CHR 0x00 \<notin> set (fi_SourcePath i) \<and>
     0 < fi_Size i \<and> fi_Size i \<le> FrozenCaptureMaxBytes \<and> \<not> time_is_zero (fi_CapturedAt i) \<and>
     ValidateContentHash (fi_Hash i) = None \<and> ValidateDocumentIdentity (fi_DocIdentity i) = None \<and>
     length (fi_PolicyFingerprint i) = 64 \<and> trim_set ''0123456789abcdef'' (fi_PolicyFingerprint i) = []"

definition ValidateFrozenCaptureInput :: "FrozenCaptureInput \<Rightarrow> check" where
  "ValidateFrozenCaptureInput i =
     fail_if (\<not> (input_shape i \<and>
         int (length (fi_Chunks i)) = (fi_Size i + FrozenCaptureChunkBytes - 1) div FrozenCaptureChunkBytes \<and>
         check_chunks (fi_Size i) (fi_Chunks i) \<and>
         (case fi_NativeMemory i of None \<Rightarrow> True | Some m \<Rightarrow> native_ok (fi_Provider i) m)))
       ErrFrozenCaptureInput"

section \<open>Attempts\<close>

record FrozenCaptureMemory =
  fm_Version :: int
  fm_Snapshot :: string
  fm_ExpectedMemory :: string
  fm_Memory :: string
  fm_SelectionParent :: string
  fm_RootSelection :: "HistoryEvent option"

record CaptureOutcome =
  co_MemoryHash :: string
  co_MemorySource :: string
  co_SessionID :: string
  co_Provider :: string
  co_State :: string
  co_SessionPath :: string
  co_Target :: string
  co_Error :: string
  co_Input :: "FrozenCaptureInput option"
  co_MemoryPlan :: "FrozenCaptureMemory option"

record CapturePredecessor =
  cp_AttemptID :: string
  cp_GitCommit :: string

record CaptureAttempt =
  ca_Version :: int
  ca_Proof :: HistoryEvent
  ca_Initial :: string
  ca_Outcomes :: "CaptureOutcome list"
  ca_Observation :: "HistoryEvent option"
  ca_Complete :: bool
  ca_FrozenPosition :: "WorkingPosition option"
  ca_Message :: string
  ca_Author :: "TeamIdentity option"
  ca_Settings :: "(string \<times> string) list"
  ca_InputsReady :: bool
  ca_FinalMemory :: "FrozenCaptureMemory option"
  ca_MemoryFinalized :: bool
  ca_Predecessor :: "CapturePredecessor option"
  ca_PredecessorObservation :: "HistoryEvent option"

definition ValidateFrozenCaptureMemory :: "FrozenCaptureMemory \<Rightarrow> check" where
  "ValidateFrozenCaptureMemory m = first_error
     [fail_if (fm_Version m \<noteq> 1 \<or> ValidateContentHash (fm_Snapshot m) \<noteq> None \<or> ValidateContentHash (fm_Memory m) \<noteq> None \<or>
         ValidateOptionalContentHash (fm_ExpectedMemory m) \<noteq> None) ErrHashMismatch,
      (case fm_RootSelection m of
         None \<Rightarrow> None
       | Some e \<Rightarrow> fail_if (ValidateHistoryEvent e \<noteq> None \<or> he_Target e \<noteq> fm_Snapshot m \<or> he_MemorySelectionParent e = []) ErrHashMismatch)]"

definition MatchesObservation :: "CaptureAttempt \<Rightarrow> string \<Rightarrow> HistoryEvent \<Rightarrow> bool" where
  "MatchesObservation p target e \<longleftrightarrow>
     he_Kind e \<noteq> ''publish'' \<and> he_Kind e \<noteq> ''pr-merge'' \<and> he_RepoID e = he_RepoID (ca_Proof p) \<and>
     he_BranchID e = he_BranchID (ca_Proof p) \<and> he_Branch e = he_Branch (ca_Proof p) \<and>
     he_LocalBranch e = he_LocalBranch (ca_Proof p) \<and> he_WorktreeID e = he_WorktreeID (ca_Proof p) \<and>
     he_GitAfter e = he_GitAfter (ca_Proof p) \<and> he_Target e = target"

definition SameCapturePosition :: "CaptureAttempt \<Rightarrow> CaptureAttempt \<Rightarrow> bool" where
  "SameCapturePosition a b \<longleftrightarrow>
     he_RepoID (ca_Proof a) = he_RepoID (ca_Proof b) \<and> he_WorktreeID (ca_Proof a) = he_WorktreeID (ca_Proof b) \<and>
     he_BranchID (ca_Proof a) = he_BranchID (ca_Proof b) \<and> he_Branch (ca_Proof a) = he_Branch (ca_Proof b) \<and>
     he_LocalBranch (ca_Proof a) = he_LocalBranch (ca_Proof b) \<and> he_GitAfter (ca_Proof a) = he_GitAfter (ca_Proof b)"

definition validCaptureOID :: "string \<Rightarrow> bool" where
  "validCaptureOID s \<longleftrightarrow> git_oid_length s \<and> trim_set ''0'' s \<noteq> [] \<and> list_all is_lower_hex s"

definition hash_id :: "string \<Rightarrow> string" where
  "hash_id text = take 32 (trim_prefix ''sha256:'' (HashContent text))"

definition CaptureProviderObservationID :: "string \<Rightarrow> nat \<Rightarrow> string" where
  "CaptureProviderObservationID attempt index =
     hash_id (''frozen-capture-observation'' @ [CHR 0x00] @ attempt @ [CHR 0x00] @ int_text (int index))"

definition CaptureBaselineObservationID :: "string \<Rightarrow> string" where
  "CaptureBaselineObservationID attempt = hash_id (''capture-baseline'' @ [CHR 0x00] @ attempt)"

definition CaptureFinalObservationID :: "string \<Rightarrow> string" where
  "CaptureFinalObservationID attempt = hash_id (''capture-final-memory'' @ [CHR 0x00] @ attempt)"

definition CaptureContinuationObservationID :: "string \<Rightarrow> string" where
  "CaptureContinuationObservationID attempt = hash_id (''capture-continuation'' @ [CHR 0x00] @ attempt)"

definition CaptureCompletionObservationID :: "string \<Rightarrow> string" where
  "CaptureCompletionObservationID attempt = hash_id (''capture-completion'' @ [CHR 0x00] @ attempt)"

definition known_predecessor_id :: "string \<Rightarrow> string \<Rightarrow> bool" where
  "known_predecessor_id attempt event \<longleftrightarrow>
     event = CaptureFinalObservationID attempt \<or> event = CaptureBaselineObservationID attempt \<or>
     event = CaptureContinuationObservationID attempt \<or> list_ex (\<lambda>i. event = CaptureProviderObservationID attempt i) [0, 1]"

definition check_predecessor :: "CaptureAttempt \<Rightarrow> check" where
  "check_predecessor p =
     (case ca_Predecessor p of
        None \<Rightarrow> fail_if (ca_PredecessorObservation p \<noteq> None) ErrHashMismatch
      | Some d \<Rightarrow>
          if ca_Version p \<noteq> 2 \<or> length (cp_AttemptID d) \<noteq> 32 \<or> trim_set ''0123456789abcdef'' (cp_AttemptID d) \<noteq> [] \<or>
             cp_AttemptID d = he_ID (ca_Proof p) \<or> \<not> validCaptureOID (cp_GitCommit d) \<or> cp_GitCommit d = he_GitAfter (ca_Proof p)
          then Some ErrHashMismatch
          else (case ca_PredecessorObservation p of
              None \<Rightarrow> fail_if (ca_Complete p \<or> ca_FinalMemory p \<noteq> None \<or> ca_MemoryFinalized p) ErrHashMismatch
            | Some e \<Rightarrow>
                fail_if (\<not> known_predecessor_id (cp_AttemptID d) (he_ID e) \<or> ValidateHistoryEvent e \<noteq> None \<or> he_Kind e \<noteq> ''position'' \<or>
                    he_RepoID e \<noteq> he_RepoID (ca_Proof p) \<or> he_WorktreeID e \<noteq> he_WorktreeID (ca_Proof p) \<or>
                    he_BranchID e \<noteq> he_BranchID (ca_Proof p) \<or> he_Branch e \<noteq> he_Branch (ca_Proof p) \<or>
                    he_LocalBranch e \<noteq> he_LocalBranch (ca_Proof p) \<or> he_GitAfter e \<noteq> cp_GitCommit d \<or>
                    he_Source e \<noteq> he_Target e \<or> \<not> he_MemoryPinned e)
                  ErrHashMismatch))"

definition check_version :: "CaptureAttempt \<Rightarrow> check" where
  "check_version p =
     (let pf = ca_Proof p in
      if ca_Version p = 1 then
        fail_if (ca_FrozenPosition p \<noteq> None \<or> ca_InputsReady p \<or> ca_Settings p \<noteq> [] \<or> ca_Message p \<noteq> [] \<or> ca_Author p \<noteq> None \<or>
            ca_FinalMemory p \<noteq> None \<or> ca_MemoryFinalized p) ErrHashMismatch
      else if ca_Version p = 2 then first_error
        [(case ca_FinalMemory p of None \<Rightarrow> None | Some m \<Rightarrow> fail_if (ValidateFrozenCaptureMemory m \<noteq> None) ErrHashMismatch),
         (case ca_FrozenPosition p of
            None \<Rightarrow> Some ErrHashMismatch
          | Some f \<Rightarrow> fail_if (wp_RepoID f \<noteq> he_RepoID pf \<or> wp_WorktreeID f \<noteq> he_WorktreeID pf \<or> wp_BranchID f \<noteq> he_BranchID pf \<or>
              wp_Branch f \<noteq> he_Branch pf \<or> wp_LocalBranch f \<noteq> he_LocalBranch pf \<or> wp_Snapshot f \<noteq> ca_Initial p \<or>
              wp_MemoryHash f \<noteq> he_MemoryHash pf \<or> wp_MemorySource f \<noteq> he_MemorySource pf) ErrHashMismatch),
         fail_if (list_ex (\<lambda>(kind, hash). kind \<notin> set [''claude'', ''agents'', ''codex''] \<or> ValidateContentHash hash \<noteq> None) (ca_Settings p)) ErrHashMismatch,
         fail_if (ca_Complete p \<and> (\<not> ca_InputsReady p \<or> \<not> ca_MemoryFinalized p)) ErrHashMismatch]
      else None)"

definition plan_conflict :: "CaptureAttempt \<Rightarrow> CaptureOutcome \<Rightarrow> bool" where
  "plan_conflict p c =
     (case co_MemoryPlan c of
        None \<Rightarrow> False
      | Some m \<Rightarrow> ca_Version p \<noteq> 2 \<or> ValidateFrozenCaptureMemory m \<noteq> None \<or> co_State c = ''absent'' \<or>
          (co_State c = ''saved'' \<and> (fm_Snapshot m \<noteq> co_Target c \<or> fm_Memory m \<noteq> co_MemoryHash c)))"

definition input_conflict :: "CaptureAttempt \<Rightarrow> CaptureOutcome \<Rightarrow> bool" where
  "input_conflict p c =
     (case co_Input c of
        None \<Rightarrow> False
      | Some i \<Rightarrow> ca_Version p \<noteq> 2 \<or> fi_Provider i \<noteq> co_Provider c \<or> ValidateFrozenCaptureInput i \<noteq> None)"

definition outcome_state :: "CaptureOutcome \<Rightarrow> check" where
  "outcome_state c =
     (if co_State c = ''saved'' then ValidateContentHash (co_Target c)
      else if co_State c = ''absent'' \<or> co_State c = ''pending'' then fail_if (co_Target c \<noteq> []) ErrHashMismatch
      else if co_State c = ''failed'' then ValidateOptionalContentHash (co_Target c)
      else Some ErrHashMismatch)"

definition check_outcome :: "CaptureAttempt \<Rightarrow> string list \<Rightarrow> CaptureOutcome \<Rightarrow> check" where
  "check_outcome p seen c = first_error
     [fail_if (plan_conflict p c) ErrHashMismatch,
      fail_if ((co_Provider c \<noteq> ''claude'' \<and> co_Provider c \<noteq> ''codex'') \<or> co_Provider c \<in> set seen) ErrHashMismatch,
      fail_if (ValidateOptionalContentHash (co_MemoryHash c) \<noteq> None \<or> ValidateOptionalContentHash (co_MemorySource c) \<noteq> None \<or>
          (co_MemoryHash c = [] \<and> co_MemorySource c \<noteq> []) \<or>
          (ca_Version p = 1 \<and> (co_MemoryHash c \<noteq> [] \<or> co_MemorySource c \<noteq> []))) ErrHashMismatch,
      fail_if (input_conflict p c) ErrHashMismatch,
      fail_if (ca_Version p = 2 \<and> ((co_State c = ''absent'' \<and> co_Input c \<noteq> None) \<or>
          (ca_InputsReady p \<and> co_State c \<noteq> ''absent'' \<and> co_Input c = None))) ErrHashMismatch,
      outcome_state c,
      fail_if (ca_Complete p \<and> co_State c \<noteq> ''saved'' \<and> co_State c \<noteq> ''absent'') ErrHashMismatch]"

text \<open>The loop over the outcomes; its result is the pair \<open>member\<close>, \<open>hasTarget\<close>.\<close>

fun check_outcomes :: "CaptureAttempt \<Rightarrow> string list \<Rightarrow> bool \<times> bool \<Rightarrow> CaptureOutcome list \<Rightarrow> (bool \<times> bool) result" where
  "check_outcomes p seen acc [] = Inr acc"
| "check_outcomes p seen acc (c # cs) = check_then (check_outcome p seen c)
     (check_outcomes p (co_Provider c # seen)
       (if co_State c = ''saved'' then (fst acc \<or> he_Target (ca_Proof p) = co_Target c, True) else acc) cs)"

definition start_targets :: "CaptureAttempt \<Rightarrow> bool \<times> bool" where
  "start_targets p =
     (let member = (he_Target (ca_Proof p) = ca_Initial p) in
      case ca_PredecessorObservation p of
        None \<Rightarrow> (member, ca_Initial p \<noteq> [])
      | Some e \<Rightarrow> if he_Target e \<noteq> [] then (member \<or> he_Target (ca_Proof p) = he_Target e, True) else (member, ca_Initial p \<noteq> []))"

definition check_final :: "CaptureAttempt \<Rightarrow> bool \<times> bool \<Rightarrow> check" where
  "check_final p acc = first_error
     [fail_if (ca_Complete p \<and> (\<not> fst acc \<or> (snd acc \<and> he_Target (ca_Proof p) = []))) ErrHashMismatch,
      (case ca_Observation p of
         None \<Rightarrow> None
       | Some e \<Rightarrow> first_error
           [fail_if (\<not> MatchesObservation p (he_Target (ca_Proof p)) e) ErrHashMismatch, ValidateHistoryEvent e])]"

definition ValidateCaptureAttempt :: "CaptureAttempt \<Rightarrow> check" where
  "ValidateCaptureAttempt p = first_error
     [check_predecessor p,
      fail_if ((ca_Version p \<noteq> 1 \<and> ca_Version p \<noteq> 2) \<or> he_Kind (ca_Proof p) \<noteq> ''position'' \<or> he_WorktreeID (ca_Proof p) = [] \<or>
          \<not> validCaptureOID (he_GitAfter (ca_Proof p)) \<or> he_Source (ca_Proof p) \<noteq> he_Target (ca_Proof p) \<or> ca_Outcomes p = []) ErrHashMismatch,
      ValidateHistoryEvent (ca_Proof p),
      ValidateOptionalContentHash (ca_Initial p),
      check_version p,
      (case check_outcomes p [] (start_targets p) (ca_Outcomes p) of Inl e \<Rightarrow> Some e | Inr acc \<Rightarrow> check_final p acc)]"

section \<open>Chunks\<close>

text \<open>The chunk table of a valid input cuts its bytes into full chunks and a last non-empty rest.\<close>

lemma check_chunks_sizes:
  "check_chunks n cs \<Longrightarrow> 0 < n \<Longrightarrow> int (length cs) = (n + FrozenCaptureChunkBytes - 1) div FrozenCaptureChunkBytes \<Longrightarrow>
     cs \<noteq> [] \<and> (\<forall>c \<in> set (butlast cs). fc_Size c = FrozenCaptureChunkBytes) \<and>
     fc_Size (last cs) \<in> {1..FrozenCaptureChunkBytes} \<and> sum_list (map fc_Size cs) = n"
proof (induction cs arbitrary: n)
  case Nil
  then show ?case by (simp add: FrozenCaptureChunkBytes_def)
next
  case (Cons c cs)
  let ?B = FrozenCaptureChunkBytes
  have B: "0 < ?B" by (simp add: FrozenCaptureChunkBytes_def)
  show ?case
  proof (cases "n \<le> ?B")
    case True
    with Cons.prems(2) B have "(n + ?B - 1) div ?B = 1" by (intro div_pos_geq [THEN trans]) (auto simp: div_pos_pos_trivial)
    with Cons.prems have "cs = []" by simp
    with Cons.prems True show ?thesis by (simp add: min_def)
  next
    case False
    have "(n + ?B - 1) div ?B = (n - ?B + ?B - 1) div ?B + 1"
      using B div_add_self2 [of ?B "n - 1"] by (simp add: algebra_simps)
    with Cons.prems(3) have "int (length cs) = (n - ?B + ?B - 1) div ?B" by simp
    with Cons.IH [of "n - ?B"] Cons.prems False show ?thesis by (auto simp: min_def)
  qed
qed

section \<open>Complete captures\<close>

definition chunked :: "FrozenCaptureInput \<Rightarrow> bool" where
  "chunked i \<longleftrightarrow> fi_Chunks i \<noteq> [] \<and> sum_list (map fc_Size (fi_Chunks i)) = fi_Size i \<and>
     list_all (\<lambda>c. fc_Size c = FrozenCaptureChunkBytes) (butlast (fi_Chunks i)) \<and>
     fc_Size (last (fi_Chunks i)) \<in> {1..FrozenCaptureChunkBytes} \<and> fi_Size i \<in> {1..FrozenCaptureMaxBytes}"

lemma ValidateFrozenCaptureInput_chunked: "ValidateFrozenCaptureInput i = None \<Longrightarrow> chunked i"
  using check_chunks_sizes [of "fi_Size i" "fi_Chunks i"]
  by (auto simp: ValidateFrozenCaptureInput_def input_shape_def chunked_def list_all_iff)

lemma check_outcomes_Inr:
  "check_outcomes p seen acc cs = Inr acc' \<Longrightarrow>
     (\<forall>c \<in> set cs. \<exists>s. check_outcome p s c = None) \<and> distinct (map co_Provider cs) \<and> co_Provider ` set cs \<inter> set seen = {} \<and>
     acc' = (fst acc \<or> (\<exists>c \<in> set cs. co_State c = ''saved'' \<and> co_Target c = he_Target (ca_Proof p)),
             snd acc \<or> (\<exists>c \<in> set cs. co_State c = ''saved''))"
proof (induction cs arbitrary: seen acc)
  case (Cons c cs)
  let ?acc = "if co_State c = ''saved'' then (fst acc \<or> he_Target (ca_Proof p) = co_Target c, True) else acc"
  from Cons.prems have c: "check_outcome p seen c = None" and cs: "check_outcomes p (co_Provider c # seen) ?acc cs = Inr acc'"
    by (simp_all only: check_outcomes.simps check_then_Inr)
  from c have "co_Provider c \<notin> set seen" by (simp add: check_outcome_def)
  with Cons.IH [OF cs] c show ?case by (cases acc) auto
qed simp

text \<open>What one accepted outcome of a complete attempt is.\<close>

lemma check_outcome_complete:
  assumes "check_outcome p seen c = None" "ca_Complete p"
  shows "co_State c = ''saved'' \<or> co_State c = ''absent''"
    and "co_Provider c = ''claude'' \<or> co_Provider c = ''codex''"
    and "co_State c = ''saved'' \<Longrightarrow> ValidateContentHash (co_Target c) = None"
    and "co_State c = ''saved'' \<Longrightarrow> ca_Version p = 2 \<Longrightarrow> ca_InputsReady p \<Longrightarrow>
      \<exists>i. co_Input c = Some i \<and> fi_Provider i = co_Provider c \<and> chunked i"
  using assms ValidateFrozenCaptureInput_chunked
  by (auto simp: check_outcome_def outcome_state_def input_conflict_def split: option.splits)

text \<open>The snapshots a capture may end at: where it started, what its predecessor reached, what it saved.\<close>

definition capture_targets :: "CaptureAttempt \<Rightarrow> string set" where
  "capture_targets p = insert (ca_Initial p) (he_Target ` set_option (ca_PredecessorObservation p) \<union>
     co_Target ` {c \<in> set (ca_Outcomes p). co_State c = ''saved''})"

lemma start_targets_eq:
  "fst (start_targets p) \<Longrightarrow> he_Target (ca_Proof p) \<in> insert (ca_Initial p) (he_Target ` set_option (ca_PredecessorObservation p))"
  "\<not> snd (start_targets p) \<Longrightarrow> insert (ca_Initial p) (he_Target ` set_option (ca_PredecessorObservation p)) = {[]}"
  by (auto simp: start_targets_def Let_def split: option.splits if_splits)

lemma ValidateCaptureAttempt_None:
  assumes "ValidateCaptureAttempt p = None"
  obtains acc where "check_outcomes p [] (start_targets p) (ca_Outcomes p) = Inr acc" "check_final p acc = None"
    "check_version p = None" "ca_Outcomes p \<noteq> []"
  using assms by (auto simp: ValidateCaptureAttempt_def split: sum.splits)

lemma two_providers:
  assumes "distinct xs" "set xs \<subseteq> {a, b}"
  shows "length xs \<le> 2"
proof -
  have "length xs = card (set xs)" using assms(1) by (simp add: distinct_card)
  also have "\<dots> \<le> card {a, b}" using assms(2) by (intro card_mono) auto
  also have "\<dots> \<le> 2" by (simp add: card_insert_if)
  finally show ?thesis .
qed

text \<open>C29: what a valid journal entry marked complete proves. Each provider was captured at most once and ended
saved or absent, with a well-formed snapshot if saved; the recorded position is one of the snapshots
the capture could end at, and it is empty only if there was none at all; and in the current version the
memory is final and every saved outcome carries the frozen input of its own provider, whose chunks
cut its bytes without gap or overlap, all full but the last.\<close>

theorem complete_capture_accounts:
  assumes "ValidateCaptureAttempt p = None" "ca_Complete p"
  shows "distinct (map co_Provider (ca_Outcomes p)) \<and> length (ca_Outcomes p) \<in> {1, 2} \<and>
    (\<forall>c \<in> set (ca_Outcomes p). co_State c = ''absent'' \<or>
       co_State c = ''saved'' \<and> ValidateContentHash (co_Target c) = None \<and>
       (ca_Version p = 2 \<longrightarrow> (\<exists>i. co_Input c = Some i \<and> fi_Provider i = co_Provider c \<and> chunked i))) \<and>
    he_Target (ca_Proof p) \<in> capture_targets p \<and>
    (he_Target (ca_Proof p) = [] \<longrightarrow> capture_targets p = {[]}) \<and>
    (ca_Version p = 2 \<longrightarrow> ca_MemoryFinalized p)"
proof -
  let ?cs = "ca_Outcomes p" and ?t = "he_Target (ca_Proof p)"
  from ValidateCaptureAttempt_None [OF assms(1)] obtain acc where acc: "check_outcomes p [] (start_targets p) ?cs = Inr acc"
    "check_final p acc = None" "check_version p = None" "?cs \<noteq> []" by blast
  note c = check_outcomes_Inr [OF acc(1)]
  have ready: "ca_InputsReady p \<and> ca_MemoryFinalized p" if "ca_Version p = 2"
    using acc(3) that assms(2) by (auto simp: check_version_def Let_def)
  have outcome: "(co_State x = ''saved'' \<or> co_State x = ''absent'') \<and> (co_Provider x = ''claude'' \<or> co_Provider x = ''codex'') \<and>
      (co_State x = ''saved'' \<longrightarrow> ValidateContentHash (co_Target x) = None) \<and>
      (co_State x = ''saved'' \<and> ca_Version p = 2 \<longrightarrow> (\<exists>i. co_Input x = Some i \<and> fi_Provider i = co_Provider x \<and> chunked i))"
    if "x \<in> set ?cs" for x
    using check_outcome_complete [OF _ assms(2), of _ x] c that ready by blast
  have "length (map co_Provider ?cs) \<le> 2"
    by (rule two_providers [of _ "''claude''" "''codex''"]) (use c outcome in \<open>auto\<close>)
  moreover have "0 < length ?cs" using acc(4) by simp
  ultimately have "length ?cs \<in> {1, 2}" unfolding length_map by (simp, arith)
  moreover have "fst acc" and "\<not> (snd acc \<and> ?t = [])" using acc(2) assms(2) by (auto simp: check_final_def)
  then have "?t \<in> capture_targets p" and "?t = [] \<longrightarrow> capture_targets p = {[]}"
    using c start_targets_eq [of p] unfolding capture_targets_def by (auto simp: image_iff)
  ultimately show ?thesis using c outcome ready by blast
qed

definition sample_position :: HistoryEvent where
  "sample_position = zero_event\<lparr>he_ID := replicate 32 (CHR ''1''), he_RepoID := ''sha256:'' @ replicate 64 (CHR ''a''), he_BranchID := ''b'',
     he_Branch := ''main'', he_Kind := ''position'', he_Source := ''sha256:'' @ replicate 64 (CHR ''c''),
     he_Target := ''sha256:'' @ replicate 64 (CHR ''c''), he_GitAfter := replicate 40 (CHR ''e''),
     he_WorktreeID := replicate 32 (CHR ''0''), he_CreatedAt := \<lparr>instant = 7, repr = 0\<rparr>\<rparr>"

definition sample_outcome :: "string \<Rightarrow> string \<Rightarrow> string \<Rightarrow> CaptureOutcome" where
  "sample_outcome provider state target = \<lparr>co_MemoryHash = [], co_MemorySource = [], co_SessionID = [], co_Provider = provider,
     co_State = state, co_SessionPath = [], co_Target = target, co_Error = [], co_Input = None, co_MemoryPlan = None\<rparr>"

definition sample_attempt :: CaptureAttempt where
  "sample_attempt = \<lparr>ca_Version = 1, ca_Proof = sample_position, ca_Initial = [],
     ca_Outcomes = [sample_outcome ''claude'' ''saved'' (''sha256:'' @ replicate 64 (CHR ''c'')), sample_outcome ''codex'' ''absent'' []],
     ca_Observation = None, ca_Complete = True, ca_FrozenPosition = None, ca_Message = [], ca_Author = None, ca_Settings = [],
     ca_InputsReady = False, ca_FinalMemory = None, ca_MemoryFinalized = False, ca_Predecessor = None, ca_PredecessorObservation = None\<rparr>"

theorem complete_capture_accounts_witness:
  "ValidateCaptureAttempt sample_attempt = None \<and> ca_Complete sample_attempt \<and>
   he_Target (ca_Proof sample_attempt) \<in> capture_targets sample_attempt"
proof -
  have "ValidateCaptureAttempt sample_attempt = None" by code_simp
  moreover have "ca_Complete sample_attempt" by (simp add: sample_attempt_def)
  ultimately show ?thesis using complete_capture_accounts [of sample_attempt] by blast
qed

end
