(* ===== verification/Budget.thy ===== *)
theory Budget
  imports Utf8 "HOL-Library.Signed_Division"
begin

text \<open>
  The budget of an agent's initial input (\<open>agent_context.go\<close>, \<open>agent_context_budget.go\<close>,
  \<open>agent_input_accounting.go\<close>, \<open>agent_input_calibration.go\<close>). Token counts are Go's \<open>int\<close>, 64 bits wide:
  every sum, difference and product is written with its wrap-around \<open>int64\<close>, and \<open>/\<close> and \<open>%\<close> truncate.
  The only question asked of package \<open>time\<close>, whether a text is an RFC 3339 time, is the argument \<open>rfc3339\<close>.
\<close>

section \<open>Data\<close>

definition MaxAgentContextTokens :: int where "MaxAgentContextTokens = 800000"

definition UTF8ByteBoundCounter :: string where "UTF8ByteBoundCounter = ''utf8_bytes_conservative_bound''"

definition MeasuredInputReserveV1 :: string where "MeasuredInputReserveV1 = ''measured_reserve_v1''"

definition NativeEstimateReserveV1 :: string where "NativeEstimateReserveV1 = ''native_estimate_reserve_v1''"

definition NativeLocalEstimate :: string where "NativeLocalEstimate = ''local_estimate''"

definition CatalogEstimateReserveV1 :: string where "CatalogEstimateReserveV1 = ''catalog_estimate_reserve_v1''"

record AgentTokenUsage =
  tu_Tokens :: int
  tu_Exact :: bool
  tu_Tokenizer :: string
  tu_Scope :: string
  tu_Reason :: string

record AgentInputCalibration =
  ic_Scope :: string
  ic_OverheadTokens :: int
  ic_InputCeilingTokens :: int

definition no_calibration :: AgentInputCalibration where
  "no_calibration = \<lparr>ic_Scope = [], ic_OverheadTokens = 0, ic_InputCeilingTokens = 0\<rparr>"

record AgentHostCapability =
  hc_Provider :: string
  hc_Model :: string
  hc_HostVersion :: string
  hc_Evidence :: string
  hc_Verified :: bool
  hc_ContextWindow :: int
  hc_HostInputTokens :: int
  hc_HostInputKnown :: bool
  hc_InitialPromptTokens :: int
  hc_ReservedTokens :: int
  hc_FramingTokens :: int
  hc_AutoCompactTokens :: int
  hc_AutoCompactKnown :: bool
  hc_Tokenizer :: string
  hc_InputAccountingPolicy :: string
  hc_RuntimeScope :: string
  hc_Calibration :: AgentInputCalibration
  hc_WindowEstimateSource :: string
  hc_WindowEstimateObservedAt :: string
  hc_WindowEstimateHash :: string
  hc_WindowEstimateClientVersion :: string
  hc_BaselineInputEstimateTokens :: int
  hc_BaselineInputMeasurement :: string
  hc_FramingAllowanceTokens :: int

record AgentContextBudget =
  ab_Provider :: string
  ab_Model :: string
  ab_HostVersion :: string
  ab_Tokenizer :: string
  ab_RequestedTokens :: int
  ab_EffectiveTokens :: int
  ab_ContextWindow :: int
  ab_InitialInputLimit :: int
  ab_HostInputTokens :: int
  ab_FramingTokens :: int
  ab_InitialPromptTokens :: int
  ab_ReservedTokens :: int
  ab_AutoCompactTokens :: int
  ab_AdjustmentReason :: string
  ab_InputAccountingPolicy :: string
  ab_RuntimeScope :: string
  ab_WindowEstimateSource :: string
  ab_WindowEstimateObservedAt :: string
  ab_WindowEstimateHash :: string
  ab_WindowEstimateClientVersion :: string
  ab_HostInputUnverified :: bool
  ab_AutoCompactUnverified :: bool
  ab_OverheadAllowanceTokens :: int
  ab_ObservedOverheadTokens :: int
  ab_ObservedInputCeilingTokens :: int
  ab_BaselineInputEstimateTokens :: int
  ab_BaselineInputMeasurement :: string
  ab_FramingAllowanceTokens :: int

section \<open>Requested budgets\<close>

definition ParseHistoryBudget :: "string \<Rightarrow> int result" where
  "ParseHistoryBudget value =
     (if value = [] \<or> value = ''full'' then Inr MaxAgentContextTokens
      else let k = has_suffix ''k'' value;
               multiplier = (if k then 1000 else 1);
               digits = (if k then butlast value else value)
           in if digits = [] \<or> \<not> list_all is_digit digits then Inl ErrContextBudgetExceeded
              else let n = int (digits_value digits) in
                if 2 ^ 63 \<le> n \<or> n \<le> 0 \<or> MaxAgentContextTokens sdiv multiplier < n then Inl ErrContextBudgetExceeded
                else Inr (int64 (n * multiplier)))"

section \<open>Accounting of text\<close>

datatype text_accounting = AgentTextExact | AgentTextUTF8Allowance

definition known_provider :: "string \<Rightarrow> bool" where
  "known_provider p \<longleftrightarrow> p = ''codex'' \<or> p = ''claude''"

definition accounting_kind :: "string \<Rightarrow> AgentTokenUsage \<Rightarrow> text_accounting option" where
  "accounting_kind policy usage =
     (if policy = [] \<or> policy = MeasuredInputReserveV1 then Some AgentTextExact
      else if policy = NativeEstimateReserveV1 then Some AgentTextUTF8Allowance
      else if policy = CatalogEstimateReserveV1 then Some (if tu_Exact usage then AgentTextExact else AgentTextUTF8Allowance)
      else None)"

definition accounting_valid :: "string \<Rightarrow> string \<Rightarrow> string \<Rightarrow> AgentTokenUsage \<Rightarrow> text_accounting \<Rightarrow> bool" where
  "accounting_valid policy provider tokenizer usage kind \<longleftrightarrow>
     known_provider provider \<and> tokenizer \<noteq> [] \<and> tu_Tokenizer usage = tokenizer \<and>
     (case kind of
        AgentTextExact \<Rightarrow> tu_Exact usage \<and>
          (policy = CatalogEstimateReserveV1 \<longrightarrow> provider = ''codex'' \<and> tokenizer \<noteq> UTF8ByteBoundCounter \<and>
             (tu_Scope usage = [] \<or> tu_Scope usage = ''text'') \<and> tu_Reason usage = [])
      | AgentTextUTF8Allowance \<Rightarrow>
          ((policy = NativeEstimateReserveV1 \<and> provider = ''claude'') \<or> (policy = CatalogEstimateReserveV1 \<and> provider = ''codex'')) \<and>
          \<not> tu_Exact usage \<and> tokenizer = UTF8ByteBoundCounter \<and> tu_Scope usage = ''text'' \<and>
          tu_Reason usage = ''model_tokenizer_unavailable'')"

text \<open>A recognised policy returns its classification even when the counter does not match it.\<close>

definition ValidateAgentTokenAccounting :: "string \<Rightarrow> string \<Rightarrow> string \<Rightarrow> AgentTokenUsage \<Rightarrow> text_accounting option \<times> check" where
  "ValidateAgentTokenAccounting policy provider tokenizer usage =
     (case accounting_kind policy usage of
        None \<Rightarrow> (None, Some ErrProviderCapabilityUnknown)
      | Some kind \<Rightarrow> (Some kind, fail_if (\<not> accounting_valid policy provider tokenizer usage kind) ErrProviderCapabilityUnknown))"

section \<open>Calibration\<close>

definition ValidateCalibration :: "AgentInputCalibration \<Rightarrow> string \<Rightarrow> check" where
  "ValidateCalibration c scope =
     fail_if (ValidateContentHash scope \<noteq> None \<or> ic_Scope c \<noteq> scope \<or> ic_OverheadTokens c < 0 \<or> ic_InputCeilingTokens c < 0)
       ErrProviderCapabilityUnknown"

definition MergeCalibration :: "AgentInputCalibration \<Rightarrow> AgentInputCalibration \<Rightarrow> AgentInputCalibration result" where
  "MergeCalibration c other =
     check_then (first_error [ValidateCalibration c (ic_Scope other), ValidateCalibration other (ic_Scope c)])
       (Inr (c\<lparr>ic_OverheadTokens := max (ic_OverheadTokens c) (ic_OverheadTokens other),
               ic_InputCeilingTokens :=
                 (if 0 < ic_InputCeilingTokens other \<and>
                     (ic_InputCeilingTokens c = 0 \<or> ic_InputCeilingTokens other < ic_InputCeilingTokens c)
                  then ic_InputCeilingTokens other else ic_InputCeilingTokens c)\<rparr>))"

definition hasWindowEstimate :: "AgentHostCapability \<Rightarrow> bool" where
  "hasWindowEstimate c \<longleftrightarrow> hc_WindowEstimateSource c \<noteq> [] \<or> hc_WindowEstimateObservedAt c \<noteq> [] \<or>
     hc_WindowEstimateHash c \<noteq> [] \<or> hc_WindowEstimateClientVersion c \<noteq> []"

definition validateWindowEstimate :: "(string \<Rightarrow> bool) \<Rightarrow> AgentHostCapability \<Rightarrow> check" where
  "validateWindowEstimate rfc3339 c =
     fail_if (hc_Provider c \<noteq> ''codex'' \<or> hc_Verified c \<or> hc_WindowEstimateSource c \<noteq> ''native_model_cache'' \<or>
         \<not> rfc3339 (hc_WindowEstimateObservedAt c) \<or> ValidateContentHash (hc_WindowEstimateHash c) \<noteq> None \<or>
         TrimSpace (hc_WindowEstimateClientVersion c) = [])
       ErrProviderCapabilityUnknown"

definition CalibrationScope :: "AgentHostCapability \<Rightarrow> string result" where
  "CalibrationScope c =
     (if hc_InputAccountingPolicy c = NativeEstimateReserveV1 \<or> hc_InputAccountingPolicy c = CatalogEstimateReserveV1 \<or> hasWindowEstimate c
      then Inl ErrProviderCapabilityUnknown
      else if \<not> hc_Verified c \<or> hc_Evidence c = [] \<or> \<not> known_provider (hc_Provider c) \<or> hc_Model c = [] \<or> hc_HostVersion c = [] \<or>
        hc_Tokenizer c = [] \<or> hc_ContextWindow c \<le> 0 \<or> ValidateContentHash (hc_RuntimeScope c) \<noteq> None
      then Inl ErrProviderCapabilityUnknown
      else Inr (HashContent (json_text (JObj
        [(''Policy'', JStr MeasuredInputReserveV1), (''Provider'', JStr (hc_Provider c)), (''Model'', JStr (hc_Model c)),
         (''Host'', JStr (hc_HostVersion c)), (''Tokenizer'', JStr (hc_Tokenizer c)), (''Window'', JInt (hc_ContextWindow c)),
         (''Runtime'', JStr (hc_RuntimeScope c))]))))"

definition InputReserveMargin :: "int \<Rightarrow> int" where
  "InputReserveMargin window = max 16000 (window sdiv 20)"

section \<open>Resolving a budget\<close>

definition capability_evidence :: "AgentHostCapability \<Rightarrow> string \<Rightarrow> string \<Rightarrow> bool" where
  "capability_evidence c provider model \<longleftrightarrow>
     known_provider provider \<and> (hc_InputAccountingPolicy c = CatalogEstimateReserveV1 \<or> hc_Verified c) \<and>
     hc_Provider c = provider \<and> hc_Model c = model \<and> hc_Model c \<noteq> [] \<and> hc_HostVersion c \<noteq> [] \<and> hc_Evidence c \<noteq> [] \<and>
     0 < hc_ContextWindow c \<and> 0 \<le> hc_HostInputTokens c \<and> 0 \<le> hc_ReservedTokens c \<and> 0 \<le> hc_FramingTokens c \<and>
     0 \<le> hc_AutoCompactTokens c"

definition estimate_shape :: "AgentHostCapability \<Rightarrow> bool" where
  "estimate_shape c \<longleftrightarrow>
     ValidateContentHash (hc_RuntimeScope c) = None \<and> \<not> hc_HostInputKnown c \<and> hc_HostInputTokens c = 0 \<and>
     hc_FramingTokens c = 0 \<and> hc_Calibration c = no_calibration \<and> (hc_AutoCompactKnown c \<or> hc_AutoCompactTokens c = 0)"

definition measured_allowance :: "AgentHostCapability \<Rightarrow> int result" where
  "measured_allowance c =
     bind_r (CalibrationScope c) (\<lambda>scope.
     check_then (first_error
       [ValidateCalibration (hc_Calibration c) scope,
        fail_if ((\<not> hc_HostInputKnown c \<and> hc_HostInputTokens c \<noteq> 0) \<or> (\<not> hc_AutoCompactKnown c \<and> hc_AutoCompactTokens c \<noteq> 0))
          ErrProviderCapabilityUnknown])
     (let known = hc_HostInputTokens c in
      if hc_ContextWindow c < hc_FramingTokens c \<or> int64 (hc_ContextWindow c - hc_FramingTokens c) < known
      then Inl ErrContextBudgetExceeded
      else let known = int64 (known + hc_FramingTokens c);
               unexplained = max 0 (int64 (ic_OverheadTokens (hc_Calibration c) - known));
               margin = InputReserveMargin (hc_ContextWindow c)
           in if hc_ContextWindow c < unexplained \<or> int64 (hc_ContextWindow c - unexplained) < margin
              then Inl ErrContextBudgetExceeded
              else Inr (int64 (unexplained + margin))))"

definition input_allowance :: "(string \<Rightarrow> bool) \<Rightarrow> AgentHostCapability \<Rightarrow> int result" where
  "input_allowance rfc3339 c =
     (let policy = hc_InputAccountingPolicy c;
          catalog = (policy = CatalogEstimateReserveV1);
          estimated = (policy = NativeEstimateReserveV1);
          measured = (policy = MeasuredInputReserveV1)
      in check_then (first_error
           [fail_if (\<not> estimated \<and> (hc_BaselineInputEstimateTokens c \<noteq> 0 \<or> hc_BaselineInputMeasurement c \<noteq> [] \<or> hc_FramingAllowanceTokens c \<noteq> 0))
              ErrProviderCapabilityUnknown,
            fail_if (\<not> catalog \<and> hasWindowEstimate c) ErrProviderCapabilityUnknown])
         (if catalog then
            check_then (first_error [validateWindowEstimate rfc3339 c, fail_if (\<not> estimate_shape c) ErrProviderCapabilityUnknown])
              (Inr (InputReserveMargin (hc_ContextWindow c)))
          else if estimated then
            check_then (fail_if (\<not> (estimate_shape c \<and> 0 \<le> hc_BaselineInputEstimateTokens c \<and>
                hc_BaselineInputMeasurement c = NativeLocalEstimate \<and> 0 \<le> hc_FramingAllowanceTokens c)) ErrProviderCapabilityUnknown)
              (Inr (InputReserveMargin (hc_ContextWindow c)))
          else if measured then measured_allowance c
          else if policy \<noteq> [] \<or> \<not> hc_HostInputKnown c \<or> \<not> hc_AutoCompactKnown c \<or> hc_RuntimeScope c \<noteq> [] \<or> hc_Calibration c \<noteq> no_calibration
          then Inl ErrProviderCapabilityUnknown
          else Inr 0))"

definition lower_limit :: "bool \<Rightarrow> int \<Rightarrow> string \<Rightarrow> int \<times> string \<Rightarrow> int \<times> string" where
  "lower_limit active bound reason lr = (if active \<and> bound < fst lr then (bound, reason) else lr)"

definition input_limit :: "AgentHostCapability \<Rightarrow> int \<times> string" where
  "input_limit c =
     (let w = hc_ContextWindow c;
          ceiling = ic_InputCeilingTokens (hc_Calibration c)
      in lower_limit (hc_InputAccountingPolicy c = MeasuredInputReserveV1 \<and> 0 < ceiling) ceiling ''observed_initial_input_limit''
        (lower_limit (hc_AutoCompactKnown c \<and> 0 < hc_AutoCompactTokens c) (int64 (hc_AutoCompactTokens c - 1)) ''automatic_compaction_threshold''
          (lower_limit True (int64 (w - hc_ReservedTokens c)) ''required_output_reserve''
            (int64 (int64 (w sdiv 5 * 4) + int64 (w smod 5 * 4) sdiv 5), ''model_window_80_percent''))))"

definition package_capacity :: "AgentHostCapability \<Rightarrow> int \<Rightarrow> int \<Rightarrow> int result" where
  "package_capacity c limit allowance =
     (let estimated = (hc_InputAccountingPolicy c = NativeEstimateReserveV1);
          baseline = hc_BaselineInputEstimateTokens c;
          framing = hc_FramingAllowanceTokens c
      in if limit \<le> hc_HostInputTokens c \<or> int64 (limit - hc_HostInputTokens c) \<le> hc_FramingTokens c
         then Inl ErrContextBudgetExceeded
         else let available = int64 (int64 (limit - hc_HostInputTokens c) - hc_FramingTokens c) in
           if estimated \<and> (available \<le> baseline \<or> int64 (available - baseline) \<le> framing) then Inl ErrContextBudgetExceeded
           else let available = (if estimated then int64 (available - int64 (baseline + framing)) else available) in
             if available \<le> hc_InitialPromptTokens c then Inl ErrContextBudgetExceeded
             else let available = int64 (available - hc_InitialPromptTokens c) in
               if available \<le> allowance then Inl ErrContextBudgetExceeded
               else Inr (int64 (available - allowance)))"

definition resolved_budget :: "AgentHostCapability \<Rightarrow> string \<Rightarrow> string \<Rightarrow> int \<Rightarrow> int \<Rightarrow> int \<Rightarrow> AgentContextBudget" where
  "resolved_budget c provider model requested allowance available =
     (let policy = hc_InputAccountingPolicy c;
          reserve = (policy = MeasuredInputReserveV1 \<or> policy = NativeEstimateReserveV1 \<or> policy = CatalogEstimateReserveV1);
          effective = min requested available
      in \<lparr>ab_Provider = provider, ab_Model = model, ab_HostVersion = hc_HostVersion c, ab_Tokenizer = hc_Tokenizer c,
         ab_RequestedTokens = requested, ab_EffectiveTokens = effective, ab_ContextWindow = hc_ContextWindow c,
         ab_InitialInputLimit = fst (input_limit c), ab_HostInputTokens = hc_HostInputTokens c, ab_FramingTokens = hc_FramingTokens c,
         ab_InitialPromptTokens = hc_InitialPromptTokens c, ab_ReservedTokens = hc_ReservedTokens c,
         ab_AutoCompactTokens = hc_AutoCompactTokens c,
         ab_AdjustmentReason = (if effective = requested then [] else snd (input_limit c)), ab_InputAccountingPolicy = policy,
         ab_RuntimeScope = hc_RuntimeScope c, ab_WindowEstimateSource = hc_WindowEstimateSource c,
         ab_WindowEstimateObservedAt = hc_WindowEstimateObservedAt c, ab_WindowEstimateHash = hc_WindowEstimateHash c,
         ab_WindowEstimateClientVersion = hc_WindowEstimateClientVersion c,
         ab_HostInputUnverified = (reserve \<and> \<not> hc_HostInputKnown c),
         ab_AutoCompactUnverified = (reserve \<and> \<not> hc_AutoCompactKnown c), ab_OverheadAllowanceTokens = allowance,
         ab_ObservedOverheadTokens = ic_OverheadTokens (hc_Calibration c),
         ab_ObservedInputCeilingTokens = ic_InputCeilingTokens (hc_Calibration c),
         ab_BaselineInputEstimateTokens = hc_BaselineInputEstimateTokens c,
         ab_BaselineInputMeasurement = hc_BaselineInputMeasurement c,
         ab_FramingAllowanceTokens = hc_FramingAllowanceTokens c\<rparr>)"

definition ResolveBudget ::
  "(string \<Rightarrow> bool) \<Rightarrow> AgentHostCapability \<Rightarrow> string \<Rightarrow> string \<Rightarrow> int \<Rightarrow> AgentTokenUsage \<Rightarrow> AgentContextBudget result" where
  "ResolveBudget rfc3339 c provider model requested counter =
     check_then (first_error
       [fail_if (\<not> capability_evidence c provider model) ErrProviderCapabilityUnknown,
        snd (ValidateAgentTokenAccounting (hc_InputAccountingPolicy c) provider (hc_Tokenizer c) counter)])
     (bind_r (input_allowance rfc3339 c) (\<lambda>allowance.
      check_then (fail_if (requested \<le> 0 \<or> MaxAgentContextTokens < requested \<or> tu_Tokens counter < 0 \<or>
          hc_InitialPromptTokens c < 0 \<or> hc_ContextWindow c < hc_ReservedTokens c) ErrContextBudgetExceeded)
      (bind_r (package_capacity c (fst (input_limit c)) allowance) (\<lambda>available.
       Inr (resolved_budget c provider model requested allowance available)))))"

section \<open>Checking a recorded budget\<close>

definition budget_base :: "AgentContextBudget \<Rightarrow> AgentHostCapability" where
  "budget_base b =
     \<lparr>hc_Provider = ab_Provider b, hc_Model = ab_Model b, hc_HostVersion = ab_HostVersion b,
      hc_Evidence = ''recorded preparation accounting'', hc_Verified = (ab_InputAccountingPolicy b \<noteq> CatalogEstimateReserveV1),
      hc_ContextWindow = ab_ContextWindow b, hc_HostInputTokens = ab_HostInputTokens b,
      hc_HostInputKnown = (\<not> ab_HostInputUnverified b), hc_InitialPromptTokens = ab_InitialPromptTokens b,
      hc_ReservedTokens = ab_ReservedTokens b, hc_FramingTokens = ab_FramingTokens b,
      hc_AutoCompactTokens = ab_AutoCompactTokens b, hc_AutoCompactKnown = (\<not> ab_AutoCompactUnverified b),
      hc_Tokenizer = ab_Tokenizer b, hc_InputAccountingPolicy = ab_InputAccountingPolicy b,
      hc_RuntimeScope = ab_RuntimeScope b, hc_Calibration = no_calibration,
      hc_WindowEstimateSource = ab_WindowEstimateSource b, hc_WindowEstimateObservedAt = ab_WindowEstimateObservedAt b,
      hc_WindowEstimateHash = ab_WindowEstimateHash b, hc_WindowEstimateClientVersion = ab_WindowEstimateClientVersion b,
      hc_BaselineInputEstimateTokens = ab_BaselineInputEstimateTokens b,
      hc_BaselineInputMeasurement = ab_BaselineInputMeasurement b, hc_FramingAllowanceTokens = ab_FramingAllowanceTokens b\<rparr>"

definition capability :: "AgentContextBudget \<Rightarrow> AgentHostCapability" where
  "capability b =
     (let c = budget_base b in
      if ab_InputAccountingPolicy b = MeasuredInputReserveV1 then
        c\<lparr>hc_Calibration := \<lparr>ic_Scope = (case CalibrationScope c of Inl e \<Rightarrow> [] | Inr scope \<Rightarrow> scope),
                            ic_OverheadTokens = ab_ObservedOverheadTokens b,
                            ic_InputCeilingTokens = ab_ObservedInputCeilingTokens b\<rparr>\<rparr>
      else c)"

definition ValidateBudget ::
  "(string \<Rightarrow> bool) \<Rightarrow> AgentContextBudget \<Rightarrow> string \<Rightarrow> string \<Rightarrow> int \<Rightarrow> AgentTokenUsage \<Rightarrow> check" where
  "ValidateBudget rfc3339 b provider model requested usage =
     (if tu_Tokens usage \<le> 0 then Some ErrContextBudgetExceeded
      else case ResolveBudget rfc3339 (capability b) provider model requested usage of
          Inl e \<Rightarrow> Some e
        | Inr expected \<Rightarrow> first_error
            [fail_if (b \<noteq> expected) ErrContextBudgetExceeded,
             fail_if (ab_EffectiveTokens b < tu_Tokens usage) ErrContextBudgetExceeded])"

definition CheckCapability :: "(string \<Rightarrow> bool) \<Rightarrow> AgentHostCapability \<Rightarrow> string \<Rightarrow> string \<Rightarrow> AgentTokenUsage \<Rightarrow> check" where
  "CheckCapability rfc3339 c provider model usage =
     (case ResolveBudget rfc3339 c provider model MaxAgentContextTokens usage of
        Inl e \<Rightarrow> Some e
      | Inr b \<Rightarrow> ValidateBudget rfc3339 b provider model MaxAgentContextTokens usage)"

definition ExpectedPreparationCapability :: "AgentContextBudget \<Rightarrow> string" where
  "ExpectedPreparationCapability b =
     (if ab_InputAccountingPolicy b = CatalogEstimateReserveV1 then ''estimated_for_preparation'' else ''verified_for_preparation'')"

record AgentNativeInputEstimate =
  ne_Provider :: string
  ne_Model :: string
  ne_HostVersion :: string
  ne_RuntimeScope :: string
  ne_ContextWindow :: int
  ne_AutoCompactKnown :: bool
  ne_AutoCompactTokens :: int
  ne_Measurement :: string
  ne_TotalTokens :: int

definition ValidateNativeInputEstimate ::
  "(string \<Rightarrow> bool) \<Rightarrow> AgentContextBudget \<Rightarrow> AgentTokenUsage \<Rightarrow> AgentNativeInputEstimate \<Rightarrow> check" where
  "ValidateNativeInputEstimate rfc3339 b usage e = first_error
     [fail_if (ab_InputAccountingPolicy b \<noteq> NativeEstimateReserveV1) ErrProviderCapabilityUnknown,
      ValidateBudget rfc3339 b (ab_Provider b) (ab_Model b) (ab_RequestedTokens b) usage,
      fail_if (ne_Provider e \<noteq> ab_Provider b \<or> ne_Model e \<noteq> ab_Model b \<or> ne_HostVersion e \<noteq> ab_HostVersion b \<or>
          ne_RuntimeScope e \<noteq> ab_RuntimeScope b \<or> ne_ContextWindow e \<noteq> ab_ContextWindow b \<or>
          ne_AutoCompactKnown e \<noteq> (\<not> ab_AutoCompactUnverified b) \<or> ne_AutoCompactTokens e \<noteq> ab_AutoCompactTokens b \<or>
          ne_Measurement e \<noteq> NativeLocalEstimate \<or> ne_TotalTokens e < 0) ErrProviderCapabilityUnknown,
      fail_if (int64 (int64 (ab_InitialInputLimit b - ab_InitialPromptTokens b) - ab_OverheadAllowanceTokens b) < ne_TotalTokens e)
        ErrContextBudgetExceeded]"

section \<open>Feedback from a native turn\<close>

record AgentInputObservation =
  io_Scope :: string
  io_PackageID :: string
  io_Outcome :: string
  io_InitialRequest :: bool
  io_ExecutionKnown :: bool
  io_ExecutionStarted :: bool
  io_UsageKnown :: bool
  io_UsageBeforeCompaction :: bool
  io_TotalInputTokens :: int
  io_SubmittedTextTokens :: int
  io_SubmittedTextExact :: bool
  io_RetryAttempt :: int

definition observation_matches :: "AgentContextBudget \<Rightarrow> string \<Rightarrow> string result \<Rightarrow> AgentInputObservation \<Rightarrow> bool" where
  "observation_matches b packageID scope ob \<longleftrightarrow>
     scope = Inr (io_Scope ob) \<and> ab_InputAccountingPolicy b = MeasuredInputReserveV1 \<and> ValidateContentHash packageID = None \<and>
     io_PackageID ob = packageID \<and> io_InitialRequest ob \<and> 0 \<le> io_RetryAttempt ob \<and> 0 \<le> io_TotalInputTokens ob \<and>
     0 \<le> io_SubmittedTextTokens ob \<and> (io_ExecutionStarted ob \<longrightarrow> io_ExecutionKnown ob)"

definition usage_feedback :: "int \<Rightarrow> AgentInputObservation \<Rightarrow> AgentInputCalibration \<Rightarrow> AgentInputCalibration result" where
  "usage_feedback submitted ob feedback =
     (if io_UsageKnown ob then
        if \<not> io_SubmittedTextExact ob \<or> \<not> io_UsageBeforeCompaction ob \<or> io_SubmittedTextTokens ob \<noteq> submitted \<or>
           io_TotalInputTokens ob < io_SubmittedTextTokens ob
        then Inl ErrProviderCapabilityUnknown
        else Inr (feedback\<lparr>ic_OverheadTokens :=
               max (ic_OverheadTokens feedback) (int64 (io_TotalInputTokens ob - io_SubmittedTextTokens ob))\<rparr>)
      else if io_TotalInputTokens ob \<noteq> 0 \<or> io_UsageBeforeCompaction ob then Inl ErrProviderCapabilityUnknown
      else Inr feedback)"

definition reduced_ceiling :: "AgentContextBudget \<Rightarrow> int \<Rightarrow> AgentInputObservation \<Rightarrow> int" where
  "reduced_ceiling b submitted ob =
     (let base = foldl (\<lambda>base n. int64 (base + n)) submitted
            [ab_HostInputTokens b, ab_FramingTokens b, ab_OverheadAllowanceTokens b];
          base = (if io_UsageKnown ob then min base (io_TotalInputTokens ob) else base)
      in max 1 (int64 (base - InputReserveMargin (ab_ContextWindow b))))"

definition ObserveInput ::
  "(string \<Rightarrow> bool) \<Rightarrow> AgentContextBudget \<Rightarrow> string \<Rightarrow> AgentTokenUsage \<Rightarrow> AgentInputObservation \<Rightarrow> (AgentInputCalibration \<times> bool) result" where
  "ObserveInput rfc3339 b packageID selected ob =
     check_then (ValidateBudget rfc3339 b (ab_Provider b) (ab_Model b) (ab_RequestedTokens b) selected)
     (let c = capability b;
          submitted = int64 (tu_Tokens selected + ab_InitialPromptTokens b)
      in check_then (first_error
           [fail_if (\<not> observation_matches b packageID (CalibrationScope c) ob) ErrProviderCapabilityUnknown,
            fail_if ((io_SubmittedTextExact ob \<and> io_SubmittedTextTokens ob \<noteq> submitted) \<or>
                     (\<not> io_SubmittedTextExact ob \<and> io_SubmittedTextTokens ob \<noteq> 0)) ErrProviderCapabilityUnknown])
         (bind_r (usage_feedback submitted ob (hc_Calibration c)) (\<lambda>feedback.
            if io_Outcome ob = ''completed'' \<or> io_Outcome ob = ''unknown'' then Inr (feedback, False)
            else if io_Outcome ob = ''input_rejected'' \<and> io_ExecutionStarted ob then Inl ErrProviderCapabilityUnknown
            else if io_Outcome ob \<noteq> ''input_rejected'' \<and> io_Outcome ob \<noteq> ''initial_compaction'' then Inl ErrProviderCapabilityUnknown
            else let ceiling = reduced_ceiling b submitted ob in
              Inr (if ic_InputCeilingTokens feedback = 0 \<or> ceiling < ic_InputCeilingTokens feedback
                   then feedback\<lparr>ic_InputCeilingTokens := ceiling\<rparr> else feedback,
                   io_Outcome ob = ''input_rejected'' \<and> io_ExecutionKnown ob \<and> io_RetryAttempt ob = 0))))"

section \<open>Bounds of a resolved budget\<close>

lemma policies_distinct [simp]:
  "CatalogEstimateReserveV1 \<noteq> NativeEstimateReserveV1" "NativeEstimateReserveV1 \<noteq> CatalogEstimateReserveV1"
  "MeasuredInputReserveV1 \<noteq> NativeEstimateReserveV1" "NativeEstimateReserveV1 \<noteq> MeasuredInputReserveV1"
  "MeasuredInputReserveV1 \<noteq> CatalogEstimateReserveV1" "CatalogEstimateReserveV1 \<noteq> MeasuredInputReserveV1"
  "CatalogEstimateReserveV1 \<noteq> []" "NativeEstimateReserveV1 \<noteq> []" "MeasuredInputReserveV1 \<noteq> []"
  "[] \<noteq> CatalogEstimateReserveV1" "[] \<noteq> NativeEstimateReserveV1" "[] \<noteq> MeasuredInputReserveV1"
  by (simp_all add: CatalogEstimateReserveV1_def NativeEstimateReserveV1_def MeasuredInputReserveV1_def)

definition capability_int64 :: "AgentHostCapability \<Rightarrow> bool" where
  "capability_int64 c \<longleftrightarrow> list_all in_int64
     [hc_ContextWindow c, hc_HostInputTokens c, hc_InitialPromptTokens c, hc_ReservedTokens c, hc_FramingTokens c,
      hc_AutoCompactTokens c, hc_BaselineInputEstimateTokens c, hc_FramingAllowanceTokens c,
      ic_OverheadTokens (hc_Calibration c), ic_InputCeilingTokens (hc_Calibration c)]"

lemma sdiv_nonneg: "0 \<le> a \<Longrightarrow> 0 < b \<Longrightarrow> a sdiv b = a div (b::int)"
  by (cases "a = 0") (auto simp: signed_divide_int_def)

lemma smod_nonneg: "0 \<le> a \<Longrightarrow> 0 < b \<Longrightarrow> a smod b = a mod (b::int)"
  by (cases "a = 0") (auto simp: signed_modulo_int_def sdiv_nonneg minus_div_mult_eq_mod)

lemma InputReserveMargin_bounds:
  assumes "0 < w" "in_int64 w"
  shows "16000 \<le> InputReserveMargin w \<and> w \<le> 20 * InputReserveMargin w + 19 \<and> in_int64 (InputReserveMargin w)"
  using assms by (auto simp: InputReserveMargin_def sdiv_nonneg in_int64_def)

lemma int64_diff [simp]: "0 \<le> x \<Longrightarrow> x \<le> y \<Longrightarrow> in_int64 y \<Longrightarrow> int64 (y - x) = y - x"
  by (rule int64_id) (simp add: in_int64_def)

lemma int64_sum: "0 \<le> x \<Longrightarrow> 0 \<le> y \<Longrightarrow> x + y \<le> z \<Longrightarrow> in_int64 z \<Longrightarrow> int64 (x + y) = x + y"
  by (rule int64_id) (simp add: in_int64_def)

lemma package_capacity_exact:
  assumes "package_capacity c limit allowance = Inr available" "in_int64 limit"
    and "0 \<le> hc_HostInputTokens c" "0 \<le> hc_FramingTokens c" "0 \<le> hc_InitialPromptTokens c" "0 \<le> allowance"
    and estimate: "if hc_InputAccountingPolicy c = NativeEstimateReserveV1
      then 0 \<le> hc_BaselineInputEstimateTokens c \<and> 0 \<le> hc_FramingAllowanceTokens c
      else hc_BaselineInputEstimateTokens c = 0 \<and> hc_FramingAllowanceTokens c = 0"
  shows "0 < available \<and> hc_HostInputTokens c + hc_FramingTokens c + hc_BaselineInputEstimateTokens c +
    hc_FramingAllowanceTokens c + hc_InitialPromptTokens c + allowance + available = limit"
proof -
  have step: "in_int64 (y - x)" if "0 \<le> x" "x \<le> y" "in_int64 y" for x y
    using that by (simp add: in_int64_def)
  show ?thesis
    using assms
    by (simp add: package_capacity_def Let_def step int64_sum [where z = limit] split: if_splits)
qed

lemma eighty_percent:
  assumes "0 < w" "in_int64 w"
  shows "int64 (int64 (w sdiv 5 * 4) + int64 (w smod 5 * 4) sdiv 5) = 4 * w div 5"
proof -
  have "w div 5 * 4 + w mod 5 * 4 div 5 = 4 * w div 5" by presburger
  moreover have "in_int64 (w div 5 * 4)" "in_int64 (w mod 5 * 4)" "in_int64 (4 * w div 5)"
    using assms by (auto simp: in_int64_def)
  ultimately show ?thesis
    using assms by (simp add: sdiv_nonneg smod_nonneg)
qed

lemma lower_limit_le: "fst (lower_limit a b r lr) \<le> fst lr" "a \<Longrightarrow> fst (lower_limit a b r lr) \<le> b"
  by (auto simp: lower_limit_def)

lemma lower_limit_in: "in_int64 b \<Longrightarrow> in_int64 (fst lr) \<Longrightarrow> in_int64 (fst (lower_limit a b r lr))"
  by (simp add: lower_limit_def)

lemma lower_limit_reason: "snd lr \<noteq> [] \<Longrightarrow> r \<noteq> [] \<Longrightarrow> snd (lower_limit a b r lr) \<noteq> []"
  by (simp add: lower_limit_def)

lemma input_limit_reason: "snd (input_limit c) \<noteq> []"
  unfolding input_limit_def Let_def by (intro lower_limit_reason) simp_all

lemma input_limit_bounds:
  assumes "capability_int64 c" "0 < hc_ContextWindow c" "0 \<le> hc_ReservedTokens c" "hc_ReservedTokens c \<le> hc_ContextWindow c"
    and "0 \<le> hc_AutoCompactTokens c"
  defines "limit \<equiv> fst (input_limit c)"
  shows "in_int64 limit \<and> 5 * limit \<le> 4 * hc_ContextWindow c \<and> limit + hc_ReservedTokens c \<le> hc_ContextWindow c \<and>
    (hc_AutoCompactKnown c \<and> 0 < hc_AutoCompactTokens c \<longrightarrow> limit < hc_AutoCompactTokens c) \<and>
    (hc_InputAccountingPolicy c = MeasuredInputReserveV1 \<and> 0 < ic_InputCeilingTokens (hc_Calibration c) \<longrightarrow>
       limit \<le> ic_InputCeilingTokens (hc_Calibration c))"
proof -
  let ?w = "hc_ContextWindow c" and ?a = "hc_AutoCompactTokens c" and ?i = "ic_InputCeilingTokens (hc_Calibration c)"
  have ranges: "in_int64 ?w" "in_int64 ?a" "in_int64 ?i" "in_int64 (hc_ReservedTokens c)"
    using assms(1) by (simp_all add: capability_int64_def)
  define top where "top = (4 * ?w div 5, ''model_window_80_percent'')"
  define l1 where "l1 = lower_limit True (?w - hc_ReservedTokens c) ''required_output_reserve'' top"
  define l2 where "l2 = lower_limit (hc_AutoCompactKnown c \<and> 0 < ?a) (int64 (?a - 1)) ''automatic_compaction_threshold'' l1"
  define l3 where "l3 = lower_limit (hc_InputAccountingPolicy c = MeasuredInputReserveV1 \<and> 0 < ?i) ?i ''observed_initial_input_limit'' l2"
  have "input_limit c = l3"
    using assms(2-4) ranges by (simp add: input_limit_def Let_def l3_def l2_def l1_def top_def eighty_percent)
  moreover have "in_int64 (4 * ?w div 5)" "in_int64 (?w - hc_ReservedTokens c)"
    using assms(2-4) ranges by (auto simp: in_int64_def)
  hence "in_int64 (fst l3)"
    unfolding l3_def l2_def l1_def using ranges by (intro lower_limit_in) (simp_all add: top_def)
  moreover have "fst l3 \<le> fst l2" "fst l2 \<le> fst l1" "fst l1 \<le> 4 * ?w div 5" "fst l1 \<le> ?w - hc_ReservedTokens c"
    unfolding l3_def l2_def l1_def using lower_limit_le(1) [of _ _ _ top] lower_limit_le by (auto simp: top_def)
  moreover have "fst l2 \<le> ?a - 1" if "hc_AutoCompactKnown c" "0 < ?a"
    using that ranges lower_limit_le(2) [of "hc_AutoCompactKnown c \<and> 0 < ?a" "int64 (?a - 1)"] by (simp add: l2_def)
  moreover have "fst l3 \<le> ?i" if "hc_InputAccountingPolicy c = MeasuredInputReserveV1" "0 < ?i"
    using that lower_limit_le(2) by (simp add: l3_def)
  ultimately show ?thesis
    unfolding limit_def by fastforce
qed

lemma measured_allowance_bounds:
  assumes "measured_allowance c = Inr a" "capability_int64 c" "0 < hc_ContextWindow c"
    and "0 \<le> hc_HostInputTokens c" "0 \<le> hc_FramingTokens c"
  shows "a = max 0 (ic_OverheadTokens (hc_Calibration c) - (hc_HostInputTokens c + hc_FramingTokens c)) +
    InputReserveMargin (hc_ContextWindow c)"
proof -
  let ?w = "hc_ContextWindow c" and ?h = "hc_HostInputTokens c" and ?f = "hc_FramingTokens c"
  let ?over = "ic_OverheadTokens (hc_Calibration c)" and ?m = "InputReserveMargin (hc_ContextWindow c)"
  have ranges: "in_int64 ?w" "in_int64 ?over"
    using assms(2) by (simp_all add: capability_int64_def)
  have margin: "16000 \<le> ?m"
    using InputReserveMargin_bounds [OF assms(3) ranges(1)] by simp
  have shape: "0 \<le> ?over" "?f \<le> ?w" "?h \<le> int64 (?w - ?f)"
    using assms(1) by (auto simp: measured_allowance_def Let_def ValidateCalibration_def split: if_splits)
  hence known: "int64 (?h + ?f) = ?h + ?f"
    using assms ranges by (intro int64_sum [where z = ?w]) simp_all
  have "in_int64 (?over - (?h + ?f))"
    using shape assms(4,5) ranges by (auto simp: in_int64_def int64_def)
  hence unexplained: "max 0 (int64 (?over - int64 (?h + ?f))) = max 0 (?over - (?h + ?f))"
    by (simp add: known)
  define u where "u = max 0 (?over - (?h + ?f))"
  have "u \<le> ?w" "?m \<le> int64 (?w - u)" "a = int64 (u + ?m)"
    using assms(1) unfolding u_def unexplained [symmetric]
    by (auto simp: measured_allowance_def Let_def split: if_splits)
  moreover have "0 \<le> u" by (simp add: u_def)
  ultimately show ?thesis
    using ranges margin int64_sum [of u ?m ?w] by (simp add: u_def)
qed

lemma ResolveBudget_Inr:
  "ResolveBudget rfc3339 c provider model requested counter = Inr b \<longleftrightarrow>
     capability_evidence c provider model \<and>
     snd (ValidateAgentTokenAccounting (hc_InputAccountingPolicy c) provider (hc_Tokenizer c) counter) = None \<and>
     0 < requested \<and> requested \<le> MaxAgentContextTokens \<and> 0 \<le> tu_Tokens counter \<and> 0 \<le> hc_InitialPromptTokens c \<and>
     hc_ReservedTokens c \<le> hc_ContextWindow c \<and>
     (\<exists>allowance available. input_allowance rfc3339 c = Inr allowance \<and>
        package_capacity c (fst (input_limit c)) allowance = Inr available \<and>
        b = resolved_budget c provider model requested allowance available)"
  by (auto simp: ResolveBudget_def not_less not_le)

lemma input_allowance_bounds:
  assumes "input_allowance rfc3339 c = Inr a" "capability_int64 c" "0 < hc_ContextWindow c"
    and "0 \<le> hc_HostInputTokens c" "0 \<le> hc_FramingTokens c"
  shows "0 \<le> a \<and> (hc_InputAccountingPolicy c \<noteq> [] \<longrightarrow> InputReserveMargin (hc_ContextWindow c) \<le> a) \<and>
    (if hc_InputAccountingPolicy c = NativeEstimateReserveV1
     then 0 \<le> hc_BaselineInputEstimateTokens c \<and> 0 \<le> hc_FramingAllowanceTokens c
     else hc_BaselineInputEstimateTokens c = 0 \<and> hc_FramingAllowanceTokens c = 0) \<and>
    ic_OverheadTokens (hc_Calibration c) \<le> hc_HostInputTokens c + hc_FramingTokens c + a"
proof -
  have margin: "16000 \<le> InputReserveMargin (hc_ContextWindow c)"
    using InputReserveMargin_bounds assms by (simp add: capability_int64_def)
  have measured: "a = max 0 (ic_OverheadTokens (hc_Calibration c) - (hc_HostInputTokens c + hc_FramingTokens c)) +
      InputReserveMargin (hc_ContextWindow c)" if "measured_allowance c = Inr a"
    using measured_allowance_bounds that assms by blast
  show ?thesis
    using assms(1,4,5) margin measured
    by (auto simp: input_allowance_def Let_def estimate_shape_def no_calibration_def split: if_splits)
qed

section \<open>A recorded budget is rebuilt from its own fields\<close>

lemma CalibrationScope_evidence:
  "e \<noteq> [] \<Longrightarrow> hc_Evidence c \<noteq> [] \<Longrightarrow> CalibrationScope (c\<lparr>hc_Evidence := e, hc_Calibration := k\<rparr>) = CalibrationScope c"
  "e \<noteq> [] \<Longrightarrow> hc_Evidence c \<noteq> [] \<Longrightarrow> CalibrationScope (c\<lparr>hc_Evidence := e\<rparr>) = CalibrationScope c"
  by (simp_all add: CalibrationScope_def hasWindowEstimate_def)

lemma ResolveBudget_evidence:
  assumes "e \<noteq> []" "hc_Evidence c \<noteq> []"
  shows "ResolveBudget rfc3339 (c\<lparr>hc_Evidence := e\<rparr>) provider model requested counter =
         ResolveBudget rfc3339 c provider model requested counter"
proof -
  let ?c = "c\<lparr>hc_Evidence := e\<rparr>"
  have "measured_allowance ?c = measured_allowance c"
    using assms by (simp add: measured_allowance_def CalibrationScope_evidence Let_def cong del: if_weak_cong)
  moreover have "estimate_shape ?c = estimate_shape c" "hasWindowEstimate ?c = hasWindowEstimate c"
      "validateWindowEstimate rfc3339 ?c = validateWindowEstimate rfc3339 c"
    by (simp_all add: estimate_shape_def hasWindowEstimate_def validateWindowEstimate_def)
  ultimately have "input_allowance rfc3339 ?c = input_allowance rfc3339 c"
    by (simp add: input_allowance_def Let_def cong del: if_weak_cong)
  moreover have "capability_evidence ?c provider model = capability_evidence c provider model"
    using assms by (simp add: capability_evidence_def)
  moreover have "input_limit ?c = input_limit c" by (simp add: input_limit_def)
  moreover have "package_capacity ?c = package_capacity c" by (simp add: package_capacity_def fun_eq_iff Let_def cong del: if_weak_cong)
  moreover have "resolved_budget ?c = resolved_budget c"
    by (simp add: resolved_budget_def fun_eq_iff Let_def \<open>input_limit ?c = input_limit c\<close>)
  ultimately show ?thesis by (simp add: ResolveBudget_def)
qed

lemma input_allowance_policy:
  assumes "input_allowance rfc3339 c = Inr a"
  shows "hc_InputAccountingPolicy c = [] \<and> hc_HostInputKnown c \<and> hc_AutoCompactKnown c \<and> hc_Calibration c = no_calibration \<or>
    hc_InputAccountingPolicy c = NativeEstimateReserveV1 \<and> hc_Calibration c = no_calibration \<or>
    hc_InputAccountingPolicy c = CatalogEstimateReserveV1 \<and> \<not> hc_Verified c \<and> hc_Calibration c = no_calibration \<or>
    hc_InputAccountingPolicy c = MeasuredInputReserveV1 \<and> CalibrationScope c = Inr (ic_Scope (hc_Calibration c))"
  using assms
  by (auto simp: input_allowance_def Let_def estimate_shape_def validateWindowEstimate_def measured_allowance_def
    ValidateCalibration_def split: if_splits)

lemma capability_resolved:
  assumes "capability_evidence c provider model" "input_allowance rfc3339 c = Inr a"
  shows "capability (resolved_budget c provider model requested a av) = c\<lparr>hc_Evidence := ''recorded preparation accounting''\<rparr>"
proof -
  let ?b = "resolved_budget c provider model requested a av"
  let ?c = "c\<lparr>hc_Evidence := ''recorded preparation accounting'', hc_Calibration := no_calibration\<rparr>"
  have "budget_base ?b = ?c"
    using input_allowance_policy [OF assms(2)] assms(1)
    by (cases c) (auto simp: budget_base_def resolved_budget_def Let_def capability_evidence_def)
  moreover have "CalibrationScope ?c = CalibrationScope c"
    using assms(1) by (simp add: CalibrationScope_evidence capability_evidence_def)
  ultimately show ?thesis
    using input_allowance_policy [OF assms(2)]
    by (cases c) (auto simp: capability_def Let_def resolved_budget_def no_calibration_def)
qed

lemma ResolveBudget_again:
  assumes "ResolveBudget rfc3339 c provider model requested counter = Inr b"
  shows "ResolveBudget rfc3339 (capability b) provider model requested usage =
         ResolveBudget rfc3339 c provider model requested usage"
  using assms ResolveBudget_evidence capability_resolved
  by (fastforce simp: ResolveBudget_Inr capability_evidence_def)


definition sample_capability :: AgentHostCapability where
  "sample_capability =
     \<lparr>hc_Provider = ''codex'', hc_Model = ''m'', hc_HostVersion = ''1.0'', hc_Evidence = ''adapter'', hc_Verified = True,
      hc_ContextWindow = 400000, hc_HostInputTokens = 20000, hc_HostInputKnown = True, hc_InitialPromptTokens = 500,
      hc_ReservedTokens = 100000, hc_FramingTokens = 1000, hc_AutoCompactTokens = 0, hc_AutoCompactKnown = True,
      hc_Tokenizer = ''o200k'', hc_InputAccountingPolicy = [], hc_RuntimeScope = [], hc_Calibration = no_calibration,
      hc_WindowEstimateSource = [], hc_WindowEstimateObservedAt = [], hc_WindowEstimateHash = [],
      hc_WindowEstimateClientVersion = [], hc_BaselineInputEstimateTokens = 0, hc_BaselineInputMeasurement = [],
      hc_FramingAllowanceTokens = 0\<rparr>"

definition sample_usage :: AgentTokenUsage where
  "sample_usage = \<lparr>tu_Tokens = 250000, tu_Exact = True, tu_Tokenizer = ''o200k'', tu_Scope = [], tu_Reason = []\<rparr>"

definition sample_budget :: AgentContextBudget where
  "sample_budget = resolved_budget sample_capability ''codex'' ''m'' 800000 0 278500"

lemma sample_resolves: "ResolveBudget (\<lambda>_. True) sample_capability ''codex'' ''m'' 800000 sample_usage = Inr sample_budget"
  unfolding sample_budget_def by code_simp


text \<open>A budget that was resolved for a counter validates, from its recorded fields alone, every package whose own usage
  passes the text accounting of the policy and fits the recorded limit, and no other.\<close>

theorem ValidateBudget_resolved:
  assumes "ResolveBudget rfc3339 c provider model requested counter = Inr b"
  shows "ValidateBudget rfc3339 b provider model requested usage = None \<longleftrightarrow>
    0 < tu_Tokens usage \<and> tu_Tokens usage \<le> ab_EffectiveTokens b \<and>
    snd (ValidateAgentTokenAccounting (ab_InputAccountingPolicy b) provider (ab_Tokenizer b) usage) = None"
proof -
  have fields: "ab_InputAccountingPolicy b = hc_InputAccountingPolicy c" "ab_Tokenizer b = hc_Tokenizer c"
    using assms by (auto simp: ResolveBudget_Inr resolved_budget_def Let_def)
  have "ResolveBudget rfc3339 (capability b) provider model requested usage = Inr b'
      \<Longrightarrow> b' = b" for b'
    using assms by (auto simp: ResolveBudget_again [OF assms] ResolveBudget_Inr)
  moreover have "(\<exists>b'. ResolveBudget rfc3339 (capability b) provider model requested usage = Inr b') \<longleftrightarrow>
      0 \<le> tu_Tokens usage \<and> snd (ValidateAgentTokenAccounting (ab_InputAccountingPolicy b) provider (ab_Tokenizer b) usage) = None"
    using assms unfolding ResolveBudget_again [OF assms] fields by (auto simp: ResolveBudget_Inr)
  ultimately show ?thesis
    by (cases "ResolveBudget rfc3339 (capability b) provider model requested usage")
      (auto simp: ValidateBudget_def)
qed

theorem ValidateBudget_resolved_witness:
  "ValidateBudget (\<lambda>_. True) sample_budget ''codex'' ''m'' 800000 sample_usage = None \<and>
   ValidateBudget (\<lambda>_. True) sample_budget ''codex'' ''m'' 800000 (sample_usage\<lparr>tu_Tokens := 278501\<rparr>) \<noteq> None"
proof -
  have "tu_Tokens sample_usage \<le> ab_EffectiveTokens sample_budget" "0 < tu_Tokens sample_usage"
      "snd (ValidateAgentTokenAccounting (ab_InputAccountingPolicy sample_budget) ''codex'' (ab_Tokenizer sample_budget) sample_usage) = None"
      "ab_EffectiveTokens sample_budget < 278501"
    by code_simp+
  with ValidateBudget_resolved [OF sample_resolves] show ?thesis by simp
qed

section \<open>Observations are absorbed\<close>

definition merge_all :: "AgentInputCalibration \<Rightarrow> AgentInputCalibration list \<Rightarrow> AgentInputCalibration result" where
  "merge_all c obs = fold (\<lambda>ob r. bind_r r (\<lambda>c. MergeCalibration c ob)) obs (Inr c)"

definition tighter :: "int \<Rightarrow> int \<Rightarrow> int" where
  "tighter a b = (if 0 < b \<and> (a = 0 \<or> b < a) then b else a)"

definition calibration_ok :: "AgentInputCalibration \<Rightarrow> bool" where
  "calibration_ok c \<longleftrightarrow> ValidateCalibration c (ic_Scope c) = None"

lemma MergeCalibration_eq:
  "MergeCalibration c d =
     (if calibration_ok c \<and> calibration_ok d \<and> ic_Scope c = ic_Scope d
      then Inr \<lparr>ic_Scope = ic_Scope c, ic_OverheadTokens = max (ic_OverheadTokens c) (ic_OverheadTokens d),
                ic_InputCeilingTokens = tighter (ic_InputCeilingTokens c) (ic_InputCeilingTokens d)\<rparr>
      else Inl ErrProviderCapabilityUnknown)"
  by (cases c; cases d) (auto simp: MergeCalibration_def ValidateCalibration_def calibration_ok_def tighter_def fail_if_def)

lemma tighter_laws:
  "0 \<le> a \<Longrightarrow> 0 \<le> b \<Longrightarrow> 0 \<le> tighter a b"
  "0 \<le> a \<Longrightarrow> 0 \<le> b \<Longrightarrow> 0 \<le> c \<Longrightarrow> tighter (tighter a b) c = tighter (tighter a c) b"
  "tighter (tighter a b) b = tighter a b"
  by (auto simp: tighter_def)

lemma calibration_ok_merged:
  assumes "calibration_ok c" "calibration_ok d" "ic_Scope c = scope"
  shows "calibration_ok \<lparr>ic_Scope = scope, ic_OverheadTokens = max (ic_OverheadTokens c) (ic_OverheadTokens d),
    ic_InputCeilingTokens = tighter (ic_InputCeilingTokens c) (ic_InputCeilingTokens d)\<rparr>"
  using assms tighter_laws(1) by (auto simp add: calibration_ok_def ValidateCalibration_def not_less)

lemma calibration_ok_ceiling: "calibration_ok c \<Longrightarrow> 0 \<le> ic_InputCeilingTokens c"
  by (simp add: calibration_ok_def ValidateCalibration_def)

lemma MergeCalibration_step_commute:
  "bind_r (bind_r r (\<lambda>c. MergeCalibration c x)) (\<lambda>c. MergeCalibration c y) =
   bind_r (bind_r r (\<lambda>c. MergeCalibration c y)) (\<lambda>c. MergeCalibration c x)"
  by (cases r) (auto simp: MergeCalibration_eq calibration_ok_merged calibration_ok_ceiling tighter_laws(2)
    max.commute max.left_commute max.assoc)

lemma MergeCalibration_step_idem:
  "bind_r (bind_r r (\<lambda>c. MergeCalibration c x)) (\<lambda>c. MergeCalibration c x) = bind_r r (\<lambda>c. MergeCalibration c x)"
  by (cases r) (auto simp: MergeCalibration_eq calibration_ok_merged tighter_laws(3))

interpretation observations: comp_fun_idem "\<lambda>ob r. bind_r r (\<lambda>c. MergeCalibration c ob)"
  by unfold_locales (simp_all add: fun_eq_iff MergeCalibration_step_commute MergeCalibration_step_idem)

text \<open>Duplicate and reordered observations are safe. Merging two sequences with the same observations gives the same
  calibration, or the same error, whatever their order and repetition.\<close>

theorem merge_all_order_independent:
  assumes "set obs = set obs'"
  shows "merge_all c obs = merge_all c obs'"
proof -
  have "merge_all c obs = Finite_Set.fold (\<lambda>ob r. bind_r r (\<lambda>c. MergeCalibration c ob)) (Inr c) (set obs)" for obs
    unfolding merge_all_def by (simp add: observations.fold_set_fold)
  with assms show ?thesis by simp
qed

definition sample_scope :: string where
  "sample_scope = ''sha256:'' @ replicate 64 (CHR ''a'')"

definition sample_calibration :: "int \<Rightarrow> int \<Rightarrow> AgentInputCalibration" where
  "sample_calibration n limit = \<lparr>ic_Scope = sample_scope, ic_OverheadTokens = n, ic_InputCeilingTokens = limit\<rparr>"

section \<open>Feedback tightens the next preparation\<close>

lemma ValidateBudget_None:
  assumes "ValidateBudget rfc3339 b provider model requested usage = None"
  shows "ResolveBudget rfc3339 (capability b) provider model requested usage = Inr b"
    "0 < tu_Tokens usage" "tu_Tokens usage \<le> ab_EffectiveTokens b"
  using assms by (auto simp: ValidateBudget_def split: if_splits sum.splits)

lemma capability_fields [simp]:
  "hc_ContextWindow (capability b) = ab_ContextWindow b" "hc_HostInputTokens (capability b) = ab_HostInputTokens b"
  "hc_FramingTokens (capability b) = ab_FramingTokens b" "hc_InputAccountingPolicy (capability b) = ab_InputAccountingPolicy b"
  "hc_InitialPromptTokens (capability b) = ab_InitialPromptTokens b"
  by (simp_all add: capability_def budget_base_def Let_def)

lemma reduced_ceiling_bounds:
  assumes "0 \<le> submitted" "0 \<le> ab_HostInputTokens b" "0 \<le> ab_FramingTokens b" "0 \<le> io_TotalInputTokens ob"
    and "InputReserveMargin (ab_ContextWindow b) \<le> ab_OverheadAllowanceTokens b" "16000 \<le> InputReserveMargin (ab_ContextWindow b)"
    and "submitted + ab_HostInputTokens b + ab_FramingTokens b + ab_OverheadAllowanceTokens b \<le> limit" "in_int64 limit"
  shows "0 < reduced_ceiling b submitted ob \<and> reduced_ceiling b submitted ob < limit"
proof -
  let ?m = "InputReserveMargin (ab_ContextWindow b)"
  let ?base = "submitted + ab_HostInputTokens b + ab_FramingTokens b + ab_OverheadAllowanceTokens b"
  have base: "foldl (\<lambda>base n. int64 (base + n)) submitted
      [ab_HostInputTokens b, ab_FramingTokens b, ab_OverheadAllowanceTokens b] = ?base"
    using assms int64_sum [where z = limit] by simp
  define base where "base = (if io_UsageKnown ob then min ?base (io_TotalInputTokens ob) else ?base)"
  have range: "0 \<le> base" "base \<le> limit" "?m \<le> limit"
    using assms by (auto simp: base_def)
  hence "int64 (base - ?m) = base - ?m"
    using assms(6,8) by (intro int64_id) (auto simp: in_int64_def)
  moreover have "reduced_ceiling b submitted ob = max 1 (int64 (base - ?m))"
    unfolding reduced_ceiling_def Let_def base base_def by simp
  ultimately show ?thesis
    using range assms(6) by simp
qed

lemma usage_feedback_absorbs:
  assumes "usage_feedback submitted ob k = Inr fb"
  shows "ic_Scope fb = ic_Scope k \<and> ic_OverheadTokens k \<le> ic_OverheadTokens fb \<and> ic_InputCeilingTokens fb = ic_InputCeilingTokens k"
  using assms by (auto simp: usage_feedback_def split: if_splits)

lemma Merge_absorbs:
  assumes "calibration_ok k" "ic_Scope fb = ic_Scope k" "ic_OverheadTokens k \<le> ic_OverheadTokens fb"
    and "ic_InputCeilingTokens fb = ic_InputCeilingTokens k \<or>
      0 < ic_InputCeilingTokens fb \<and> (ic_InputCeilingTokens k = 0 \<or> ic_InputCeilingTokens fb < ic_InputCeilingTokens k)"
  shows "MergeCalibration k fb = Inr fb"
  using assms
  by (cases k; cases fb) (auto simp: MergeCalibration_eq calibration_ok_def ValidateCalibration_def tighter_def)

lemma validated_measured:
  assumes "ValidateBudget rfc3339 b provider model requested usage = None" "ab_InputAccountingPolicy b = MeasuredInputReserveV1"
  shows "calibration_ok (hc_Calibration (capability b))"
  using ValidateBudget_None(1) [OF assms(1)] assms(2)
  by (auto simp: ResolveBudget_Inr input_allowance_def measured_allowance_def Let_def calibration_ok_def
    ValidateCalibration_def split: if_splits)

lemma validated_bounds:
  assumes "ValidateBudget rfc3339 b provider model requested usage = None" "capability_int64 (capability b)"
  shows "in_int64 (ab_InitialInputLimit b) \<and> 0 < ab_ContextWindow b \<and> 0 \<le> ab_HostInputTokens b \<and> 0 \<le> ab_FramingTokens b \<and>
    0 \<le> ab_InitialPromptTokens b \<and> 16000 \<le> InputReserveMargin (ab_ContextWindow b) \<and>
    (ab_InputAccountingPolicy b \<noteq> [] \<longrightarrow> InputReserveMargin (ab_ContextWindow b) \<le> ab_OverheadAllowanceTokens b) \<and>
    tu_Tokens usage + ab_InitialPromptTokens b + ab_HostInputTokens b + ab_FramingTokens b + ab_OverheadAllowanceTokens b \<le>
      ab_InitialInputLimit b"
proof -
  let ?c = "capability b"
  note resolved = ValidateBudget_None(1) [OF assms(1)]
  from resolved obtain a av where shape: "capability_evidence ?c provider model" "0 \<le> ab_InitialPromptTokens b"
      "hc_ReservedTokens ?c \<le> ab_ContextWindow b"
    and a: "input_allowance rfc3339 ?c = Inr a" and av: "package_capacity ?c (fst (input_limit ?c)) a = Inr av"
    and b: "b = resolved_budget ?c provider model requested a av"
    by (auto simp: ResolveBudget_Inr)
  have fields: "ab_OverheadAllowanceTokens b = a" "ab_InitialInputLimit b = fst (input_limit ?c)" "ab_EffectiveTokens b \<le> av"
    by (subst b, simp add: resolved_budget_def Let_def)+
  from shape(1) have signs: "0 < ab_ContextWindow b" "0 \<le> ab_HostInputTokens b" "0 \<le> ab_FramingTokens b"
      "0 \<le> hc_ReservedTokens ?c" "0 \<le> hc_AutoCompactTokens ?c"
    by (simp_all add: capability_evidence_def)
  note allowance = input_allowance_bounds [OF a assms(2), simplified, OF signs(1-3)]
  have limit: "in_int64 (fst (input_limit ?c))"
    using input_limit_bounds [OF assms(2)] signs shape(3) by simp
  have "0 < av \<and> ab_HostInputTokens b + ab_FramingTokens b + hc_BaselineInputEstimateTokens ?c +
      hc_FramingAllowanceTokens ?c + ab_InitialPromptTokens b + a + av = fst (input_limit ?c)"
    using package_capacity_exact [OF av limit] allowance signs shape(2) by simp
  moreover have "16000 \<le> InputReserveMargin (ab_ContextWindow b)"
    using InputReserveMargin_bounds [OF signs(1)] assms(2) by (simp add: capability_int64_def)
  ultimately show ?thesis
    using allowance limit signs shape(2) fields(3) ValidateBudget_None(3) [OF assms(1)]
    by (auto simp: fields(1,2) split: if_splits)
qed

definition calibration_int64 :: "AgentInputCalibration \<Rightarrow> bool" where
  "calibration_int64 c \<longleftrightarrow> in_int64 (ic_OverheadTokens c) \<and> in_int64 (ic_InputCeilingTokens c)"

lemma usage_feedback_int64: "usage_feedback submitted ob k = Inr fb \<Longrightarrow> calibration_int64 k \<Longrightarrow> calibration_int64 fb"
  by (auto simp: usage_feedback_def calibration_int64_def max_def split: if_splits)

lemma reduced_ceiling_int64: "in_int64 (reduced_ceiling b submitted ob)"
proof -
  have "in_int64 1" by (simp add: in_int64_def)
  then show ?thesis by (simp add: reduced_ceiling_def Let_def max_def)
qed

lemma ObserveInput_facts:
  assumes "ObserveInput rfc3339 b packageID selected ob = Inr (fb, retry)" "capability_int64 (capability b)"
  shows "calibration_ok fb \<and> calibration_int64 fb \<and> MergeCalibration (hc_Calibration (capability b)) fb = Inr fb \<and>
    (io_Outcome ob = ''input_rejected'' \<or> io_Outcome ob = ''initial_compaction'' \<longrightarrow>
       0 < ic_InputCeilingTokens fb \<and> ic_InputCeilingTokens fb < ab_InitialInputLimit b) \<and>
    (retry \<longleftrightarrow> io_Outcome ob = ''input_rejected'' \<and> io_ExecutionKnown ob \<and> \<not> io_ExecutionStarted ob \<and> io_RetryAttempt ob = 0)"
proof -
  let ?k = "hc_Calibration (capability b)" and ?submitted = "tu_Tokens selected + ab_InitialPromptTokens b"
  define reduced where "reduced = reduced_ceiling b (int64 ?submitted) ob"
  from assms(1) obtain f where valid: "ValidateBudget rfc3339 b (ab_Provider b) (ab_Model b) (ab_RequestedTokens b) selected = None"
    and ob: "observation_matches b packageID (CalibrationScope (capability b)) ob"
    and f: "usage_feedback (int64 ?submitted) ob ?k = Inr f"
    and fb: "(io_Outcome ob = ''completed'' \<or> io_Outcome ob = ''unknown'') \<and> fb = f \<and> \<not> retry \<or>
      (io_Outcome ob = ''input_rejected'' \<and> \<not> io_ExecutionStarted ob \<or> io_Outcome ob = ''initial_compaction'') \<and>
      fb = (if ic_InputCeilingTokens f = 0 \<or> reduced < ic_InputCeilingTokens f then f\<lparr>ic_InputCeilingTokens := reduced\<rparr> else f) \<and>
      retry = (io_Outcome ob = ''input_rejected'' \<and> io_ExecutionKnown ob \<and> io_RetryAttempt ob = 0)"
    by (auto simp: ObserveInput_def Let_def reduced_def split: if_splits)
  have policy: "ab_InputAccountingPolicy b = MeasuredInputReserveV1" "0 \<le> io_TotalInputTokens ob"
    using ob by (simp_all add: observation_matches_def)
  note ok = validated_measured [OF valid policy(1)] and bounds = validated_bounds [OF valid assms(2)]
    and kept = usage_feedback_absorbs [OF f]
  have tokens: "0 < tu_Tokens selected" using ValidateBudget_None(2) [OF valid] .
  have "int64 ?submitted = ?submitted"
    using bounds tokens policy(1) by (intro int64_sum [where z = "ab_InitialInputLimit b"]) auto
  with bounds tokens policy have reduced: "0 < reduced \<and> reduced < ab_InitialInputLimit b"
    unfolding reduced_def by (intro reduced_ceiling_bounds) auto
  have merged: "MergeCalibration ?k fb = Inr fb"
    using fb kept reduced by (intro Merge_absorbs [OF ok]) (auto split: if_splits)
  moreover have "calibration_int64 f" "in_int64 reduced"
    using usage_feedback_int64 [OF f] assms(2) reduced_ceiling_int64
    by (simp_all add: capability_int64_def calibration_int64_def reduced_def)
  then have "calibration_int64 fb" using fb by (auto simp: calibration_int64_def split: if_splits)
  moreover have "calibration_ok fb" using merged by (auto simp: MergeCalibration_eq split: if_splits)
  moreover have "0 < ic_InputCeilingTokens fb \<and> ic_InputCeilingTokens fb < ab_InitialInputLimit b"
    if "io_Outcome ob = ''input_rejected'' \<or> io_Outcome ob = ''initial_compaction''"
    using that fb kept reduced calibration_ok_ceiling [OF ok] by (auto split: if_splits)
  ultimately show ?thesis using fb by auto
qed

text \<open>C31: feedback from a turn only tightens the next preparation. Accepted feedback absorbs the calibration the budget was
  prepared with; after a rejection or an initial compaction its ceiling is positive and strictly below the limit that was
  tried; and a retry is offered exactly for a first attempt that was rejected before any execution.\<close>

theorem ObserveInput_tightens:
  assumes "ObserveInput rfc3339 b packageID selected ob = Inr (fb, retry)" "capability_int64 (capability b)"
  shows "MergeCalibration (hc_Calibration (capability b)) fb = Inr fb \<and>
    (io_Outcome ob = ''input_rejected'' \<or> io_Outcome ob = ''initial_compaction'' \<longrightarrow>
       0 < ic_InputCeilingTokens fb \<and> ic_InputCeilingTokens fb < ab_InitialInputLimit b) \<and>
    (retry \<longleftrightarrow> io_Outcome ob = ''input_rejected'' \<and> io_ExecutionKnown ob \<and> \<not> io_ExecutionStarted ob \<and> io_RetryAttempt ob = 0)"
  using ObserveInput_facts [OF assms] by simp

definition sample_measured :: AgentHostCapability where
  "sample_measured =
     (let c = sample_capability\<lparr>hc_InputAccountingPolicy := MeasuredInputReserveV1, hc_RuntimeScope := sample_scope\<rparr>
      in c\<lparr>hc_Calibration := \<lparr>ic_Scope = projr (CalibrationScope c), ic_OverheadTokens = 0, ic_InputCeilingTokens = 0\<rparr>\<rparr>)"

definition sample_measured_budget :: AgentContextBudget where
  "sample_measured_budget = resolved_budget sample_measured ''codex'' ''m'' 800000 20000 258500"

definition sample_observation :: AgentInputObservation where
  "sample_observation =
     \<lparr>io_Scope = ic_Scope (hc_Calibration sample_measured), io_PackageID = sample_scope, io_Outcome = ''input_rejected'',
      io_InitialRequest = True, io_ExecutionKnown = True, io_ExecutionStarted = False, io_UsageKnown = False,
      io_UsageBeforeCompaction = False, io_TotalInputTokens = 0, io_SubmittedTextTokens = 250500,
      io_SubmittedTextExact = True, io_RetryAttempt = 0\<rparr>"

lemma sample_scope_valid: "ValidateContentHash sample_scope = None"
  by code_simp

lemmas sample_measured_simps = sample_measured_def sample_capability_def Let_def CalibrationScope_def hasWindowEstimate_def
  known_provider_def sample_scope_valid

lemma sample_measured_scope:
  "CalibrationScope sample_measured = Inr (ic_Scope (hc_Calibration sample_measured))"
  "ValidateContentHash (ic_Scope (hc_Calibration sample_measured)) = None"
  by (simp_all add: sample_measured_simps HashContent_valid)

lemma sample_measured_fields [simp]:
  "hc_InputAccountingPolicy sample_measured = MeasuredInputReserveV1" "hc_ContextWindow sample_measured = 400000"
  "hc_HostInputTokens sample_measured = 20000" "hc_FramingTokens sample_measured = 1000" "hc_HostInputKnown sample_measured"
  "hc_AutoCompactKnown sample_measured" "hc_AutoCompactTokens sample_measured = 0" "hc_ReservedTokens sample_measured = 100000"
  "hc_InitialPromptTokens sample_measured = 500" "hc_BaselineInputEstimateTokens sample_measured = 0"
  "hc_BaselineInputMeasurement sample_measured = []" "hc_FramingAllowanceTokens sample_measured = 0"
  "ic_OverheadTokens (hc_Calibration sample_measured) = 0" "ic_InputCeilingTokens (hc_Calibration sample_measured) = 0"
  "hc_Tokenizer sample_measured = ''o200k''" "\<not> hasWindowEstimate sample_measured"
  by (simp_all add: sample_measured_def sample_capability_def Let_def hasWindowEstimate_def)

lemma margin_400000: "InputReserveMargin 400000 = 20000"
  by code_simp

lemma sample_measured_allowance: "input_allowance rfc3339 sample_measured = Inr 20000"
  by (simp add: input_allowance_def measured_allowance_def ValidateCalibration_def sample_measured_scope margin_400000 int64_def)

lemma sample_measured_evidence: "capability_evidence sample_measured ''codex'' ''m''"
  by (simp add: capability_evidence_def known_provider_def) (simp add: sample_measured_def sample_capability_def Let_def)

lemma sample_measured_resolves:
  "ResolveBudget rfc3339 sample_measured ''codex'' ''m'' 800000 sample_usage = Inr sample_measured_budget"
proof -
  have "fst (input_limit sample_measured) = 300000"
    by (simp add: input_limit_def lower_limit_def sdiv_nonneg smod_nonneg int64_def)
  moreover have "package_capacity sample_measured 300000 20000 = Inr 258500"
    by (simp add: package_capacity_def int64_def)
  moreover have "snd (ValidateAgentTokenAccounting MeasuredInputReserveV1 ''codex'' ''o200k'' sample_usage) = None"
    by code_simp
  moreover have "MaxAgentContextTokens = 800000" "0 \<le> tu_Tokens sample_usage" by code_simp+
  ultimately show ?thesis
    by (simp add: ResolveBudget_Inr sample_measured_evidence sample_measured_allowance sample_measured_budget_def)
qed

lemma sample_measured_rebuilt:
  "capability sample_measured_budget = sample_measured\<lparr>hc_Evidence := ''recorded preparation accounting''\<rparr>"
  unfolding sample_measured_budget_def
  by (rule capability_resolved [OF sample_measured_evidence sample_measured_allowance [of "\<lambda>_. True"]])

definition sample_feedback :: AgentInputCalibration where
  "sample_feedback = (hc_Calibration sample_measured)\<lparr>ic_InputCeilingTokens := 271500\<rparr>"

lemma sample_measured_int64: "capability_int64 (capability sample_measured_budget)"
  by (simp add: sample_measured_rebuilt capability_int64_def in_int64_def)

lemma sample_observed:
  "ObserveInput (\<lambda>_. True) sample_measured_budget sample_scope sample_usage sample_observation = Inr (sample_feedback, True)"
proof -
  let ?b = sample_measured_budget
  have b: "ab_Provider ?b = ''codex''" "ab_Model ?b = ''m''" "ab_RequestedTokens ?b = 800000" "ab_EffectiveTokens ?b = 258500"
      "ab_InitialPromptTokens ?b = 500" "ab_HostInputTokens ?b = 20000" "ab_FramingTokens ?b = 1000"
      "ab_OverheadAllowanceTokens ?b = 20000" "ab_ContextWindow ?b = 400000"
      "ab_InputAccountingPolicy ?b = MeasuredInputReserveV1"
    by (simp_all add: sample_measured_budget_def resolved_budget_def Let_def)
  have usage: "tu_Tokens sample_usage = 250000" by code_simp
  have "ValidateBudget (\<lambda>_. True) ?b ''codex'' ''m'' 800000 sample_usage = None"
    by (simp add: ValidateBudget_def ResolveBudget_again [OF sample_measured_resolves] sample_measured_resolves usage b)
  moreover have "observation_matches ?b sample_scope (CalibrationScope (capability ?b)) sample_observation"
    using sample_measured_evidence
    by (simp add: observation_matches_def sample_measured_rebuilt CalibrationScope_evidence(2) capability_evidence_def
      sample_measured_scope sample_scope_valid sample_observation_def b)
  moreover have "reduced_ceiling ?b 250500 sample_observation = 271500"
    by (simp add: reduced_ceiling_def sample_observation_def b margin_400000 int64_def)
  ultimately show ?thesis
    unfolding sample_feedback_def
    by (simp add: ObserveInput_def b usage usage_feedback_def int64_def Let_def)
      (simp add: sample_observation_def sample_measured_rebuilt)
qed

theorem ObserveInput_tightens_witness:
  "\<exists>fb. ObserveInput (\<lambda>_. True) sample_measured_budget sample_scope sample_usage sample_observation = Inr (fb, True) \<and>
     MergeCalibration (hc_Calibration (capability sample_measured_budget)) fb = Inr fb \<and>
     ic_InputCeilingTokens fb = 271500 \<and> ic_InputCeilingTokens fb < ab_InitialInputLimit sample_measured_budget"
  using sample_observed ObserveInput_tightens [OF sample_observed sample_measured_int64]
  by (simp add: sample_observation_def sample_feedback_def)

end
