(* ===== verification/Reservation.thy ===== *)
theory Reservation
  imports Budget HistoryQuery
begin

text \<open>
  What an agent launch is bound to: the reservation of the initial prompt (\<open>agent_initial_prompt.go\<close>), the input policy,
  the selected source and the memory pin of a package (\<open>agent_context.go\<close>), the proof of an empty repository
  (\<open>agent_bootstrap.go\<close>) and the selection of effective memory (\<open>effective_memory.go\<close>, \<open>context_pin.go\<close>).
  The two closures of a reservation are functions; a nil closure is \<open>None\<close>.
\<close>

section \<open>The initial prompt\<close>

record AgentInitialPrompt =
  ip_text :: string
  ip_present :: bool

definition NewAgentInitialPrompt :: "string \<Rightarrow> AgentInitialPrompt" where
  "NewAgentInitialPrompt txt = \<lparr>ip_text = txt, ip_present = True\<rparr>"

type_synonym prompt_validator = "AgentInitialPrompt \<Rightarrow> string \<Rightarrow> string \<Rightarrow> string \<Rightarrow> int \<Rightarrow> check"

record AgentPromptReservation =
  pr_validate :: "prompt_validator option"
  pr_validateBudget :: "(AgentInitialPrompt \<Rightarrow> AgentContextBudget \<Rightarrow> check) option"

definition no_reservation :: AgentPromptReservation where
  "no_reservation = \<lparr>pr_validate = None, pr_validateBudget = None\<rparr>"

definition bound_validate :: "AgentInitialPrompt \<Rightarrow> string \<Rightarrow> string \<Rightarrow> AgentTokenUsage \<Rightarrow> prompt_validator" where
  "bound_validate prompt provider model usage actual actualProvider actualModel tokenizer tokens = first_error
     [fail_if (actual \<noteq> prompt) ErrContextBudgetExceeded,
      fail_if (actualProvider \<noteq> provider \<or> actualModel \<noteq> model \<or> tokenizer \<noteq> tu_Tokenizer usage) ErrProviderCapabilityUnknown,
      fail_if (tokens \<noteq> tu_Tokens usage) ErrContextBudgetExceeded]"

definition newAgentPromptReservation ::
  "AgentInitialPrompt \<Rightarrow> string \<Rightarrow> string \<Rightarrow> string \<Rightarrow> AgentTokenUsage \<Rightarrow> AgentPromptReservation result" where
  "newAgentPromptReservation prompt provider model policy usage =
     (let kc = ValidateAgentTokenAccounting policy provider (tu_Tokenizer usage) usage in
      check_then (first_error
        [snd kc,
         fail_if (TrimSpace model = [] \<or> TrimSpace (tu_Tokenizer usage) = []) ErrProviderCapabilityUnknown,
         fail_if (tu_Tokens usage < 0 \<or> (ip_text prompt = [] \<and> tu_Tokens usage \<noteq> 0) \<or> (ip_text prompt \<noteq> [] \<and> tu_Tokens usage = 0))
           ErrContextBudgetExceeded,
         fail_if (fst kc = Some AgentTextUTF8Allowance \<and> tu_Tokens usage \<noteq> int (length (ip_text prompt))) ErrContextBudgetExceeded])
      (Inr \<lparr>pr_validate = Some (bound_validate prompt provider model usage), pr_validateBudget = None\<rparr>))"

definition NewAgentPromptReservation ::
  "AgentInitialPrompt \<Rightarrow> string \<Rightarrow> string \<Rightarrow> AgentTokenUsage \<Rightarrow> AgentPromptReservation result" where
  "NewAgentPromptReservation prompt provider model usage = newAgentPromptReservation prompt provider model [] usage"

definition budget_validator ::
  "AgentHostCapability \<Rightarrow> prompt_validator \<Rightarrow> AgentInitialPrompt \<Rightarrow> AgentContextBudget \<Rightarrow> check" where
  "budget_validator c validate actual b =
     (if ab_InputAccountingPolicy b \<noteq> hc_InputAccountingPolicy c \<or> ab_RuntimeScope b \<noteq> hc_RuntimeScope c \<or>
         ab_WindowEstimateSource b \<noteq> hc_WindowEstimateSource c \<or> ab_WindowEstimateObservedAt b \<noteq> hc_WindowEstimateObservedAt c \<or>
         ab_WindowEstimateHash b \<noteq> hc_WindowEstimateHash c \<or> ab_WindowEstimateClientVersion b \<noteq> hc_WindowEstimateClientVersion c
      then Some ErrProviderCapabilityUnknown
      else validate actual (ab_Provider b) (ab_Model b) (ab_Tokenizer b) (ab_InitialPromptTokens b))"

definition NewAgentPromptReservationForCapability ::
  "(string \<Rightarrow> bool) \<Rightarrow> AgentInitialPrompt \<Rightarrow> AgentHostCapability \<Rightarrow> AgentTokenUsage \<Rightarrow> AgentPromptReservation result" where
  "NewAgentPromptReservationForCapability rfc3339 prompt c usage =
     (let policy = hc_InputAccountingPolicy c in
      check_then (fail_if (tu_Tokenizer usage \<noteq> hc_Tokenizer c) ErrProviderCapabilityUnknown)
      (bind_r (newAgentPromptReservation prompt (hc_Provider c) (hc_Model c) policy usage) (\<lambda>r.
       let r' = r\<lparr>pr_validateBudget := map_option (budget_validator c) (pr_validate r)\<rparr> in
       check_then (if policy = CatalogEstimateReserveV1 then validateWindowEstimate rfc3339 c else None)
       (if policy = NativeEstimateReserveV1 \<or> policy = CatalogEstimateReserveV1 then
          check_then (fail_if (ValidateContentHash (hc_RuntimeScope c) \<noteq> None) ErrProviderCapabilityUnknown)
            (Inr (r'\<lparr>pr_validate := Some (\<lambda>_ _ _ _ _. Some ErrProviderCapabilityUnknown)\<rparr>))
        else Inr r'))))"

definition ValidateReservation :: "AgentPromptReservation \<Rightarrow> prompt_validator" where
  "ValidateReservation r prompt provider model tokenizer tokens =
     (case pr_validate r of
        None \<Rightarrow> fail_if (\<not> (\<not> ip_present prompt \<and> tokens = 0)) ErrContextBudgetExceeded
      | Some validate \<Rightarrow> validate prompt provider model tokenizer tokens)"

definition ValidateForBudget :: "AgentPromptReservation \<Rightarrow> AgentInitialPrompt \<Rightarrow> AgentContextBudget \<Rightarrow> check" where
  "ValidateForBudget r prompt b =
     (case pr_validateBudget r of
        Some validate \<Rightarrow> validate prompt b
      | None \<Rightarrow>
          if ab_InputAccountingPolicy b = NativeEstimateReserveV1 \<or> ab_InputAccountingPolicy b = CatalogEstimateReserveV1
          then Some ErrProviderCapabilityUnknown
          else ValidateReservation r prompt (ab_Provider b) (ab_Model b) (ab_Tokenizer b) (ab_InitialPromptTokens b))"

text \<open>The two fields of a package the check reads are its arguments.\<close>

definition ValidateInitialPrompt :: "AgentContextBudget option \<Rightarrow> AgentPromptReservation \<Rightarrow> AgentInitialPrompt \<Rightarrow> check" where
  "ValidateInitialPrompt budget reservation prompt =
     (case budget of
        None \<Rightarrow> (case pr_validate reservation of None \<Rightarrow> None | Some _ \<Rightarrow> Some ErrProviderCapabilityUnknown)
      | Some b \<Rightarrow> ValidateForBudget reservation prompt b)"

section \<open>Policy and selection of a package\<close>

definition AgentContextVersion :: int where "AgentContextVersion = 1"

definition DefaultMemoryContextTokens :: int where "DefaultMemoryContextTokens = 8000"

record InputPolicy =
  pol_Version :: int
  pol_Mode :: string
  pol_BudgetTokens :: int
  pol_Source :: string

definition MemoryInputPolicy :: InputPolicy where
  "MemoryInputPolicy = \<lparr>pol_Version = AgentContextVersion, pol_Mode = ''memory'',
     pol_BudgetTokens = DefaultMemoryContextTokens, pol_Source = ''product_default''\<rparr>"

definition ValidateInputPolicy :: "InputPolicy \<Rightarrow> check" where
  "ValidateInputPolicy p = first_error
     [fail_if (pol_Version p \<noteq> AgentContextVersion \<or> (pol_Mode p \<noteq> ''memory'' \<and> pol_Mode p \<noteq> ''history'') \<or> pol_Source p = [])
        ErrAgentContextUnavailable,
      fail_if (pol_BudgetTokens p \<le> 0 \<or> MaxAgentContextTokens < pol_BudgetTokens p) ErrContextBudgetExceeded]"

record PersonalWorkScope =
  ws_ActorID :: string
  ws_SessionID :: string
  ws_WorktreeID :: string

definition CompleteScope :: "PersonalWorkScope \<Rightarrow> bool" where
  "CompleteScope s \<longleftrightarrow> ws_ActorID s \<noteq> [] \<and> ws_SessionID s \<noteq> [] \<and> ws_WorktreeID s \<noteq> []"

record AgentMemoryPin =
  mp_SnapshotID :: string
  mp_MemoryHash :: string

definition ValidateMemoryPin :: "AgentMemoryPin option \<Rightarrow> check" where
  "ValidateMemoryPin pin =
     (case pin of
        None \<Rightarrow> None
      | Some p \<Rightarrow>
          if mp_SnapshotID p = [] \<and> mp_MemoryHash p = [] then None
          else fail_if (ValidateContentHash (mp_SnapshotID p) \<noteq> None \<or> ValidateContentHash (mp_MemoryHash p) \<noteq> None) ErrHashMismatch)"

record AgentWorkingPosition =
  wp_Branch :: string
  wp_CodeCommit :: string

record AgentContextSelection =
  sel_RepositoryID :: string
  sel_Branch :: string
  sel_SnapshotID :: string
  sel_CodeCommit :: string
  sel_ContextStateHash :: string
  sel_MemoryStateHash :: string
  sel_ContextDeliveryHash :: string
  sel_MemoryDeliveryHash :: string
  sel_MemoryPin :: "AgentMemoryPin option"
  sel_WorktreeStateHash :: string
  sel_EvidenceRevision :: "64 word"
  sel_GraphRevision :: "64 word"
  sel_SourcePolicy :: string
  sel_WorkingPosition :: "AgentWorkingPosition option"

definition AgentSourceLatestMain :: string where "AgentSourceLatestMain = ''latest_server_main''"

definition DeliveryCodeCommit :: "AgentContextSelection \<Rightarrow> string" where
  "DeliveryCodeCommit s = (case sel_WorkingPosition s of Some w \<Rightarrow> wp_CodeCommit w | None \<Rightarrow> sel_CodeCommit s)"

definition DeliveryBranch :: "AgentContextSelection \<Rightarrow> string" where
  "DeliveryBranch s = (case sel_WorkingPosition s of Some w \<Rightarrow> wp_Branch w | None \<Rightarrow> sel_Branch s)"

definition ValidateSource :: "AgentContextSelection \<Rightarrow> check" where
  "ValidateSource s =
     (if (sel_ContextDeliveryHash s = []) \<noteq> (sel_MemoryDeliveryHash s = []) \<or>
         ValidateOptionalContentHash (sel_ContextDeliveryHash s) \<noteq> None \<or> ValidateOptionalContentHash (sel_MemoryDeliveryHash s) \<noteq> None
      then Some ErrHashMismatch
      else if sel_SourcePolicy s = [] \<and> sel_WorkingPosition s = None then None
      else fail_if (sel_SourcePolicy s \<noteq> AgentSourceLatestMain \<or> sel_Branch s \<noteq> ''main'' \<or> sel_MemoryPin s \<noteq> None \<or>
        (case sel_WorkingPosition s of None \<Rightarrow> True | Some w \<Rightarrow> \<not> ValidGitOID (wp_CodeCommit w)) \<or>
        ValidateContentHash (sel_WorktreeStateHash s) \<noteq> None) ErrAgentContextUnavailable)"

section \<open>Selections of memory\<close>

record EffectiveMemorySelection =
  es_Branch :: string
  es_SnapshotID :: string
  es_CodeCommit :: string
  es_MemoryHash :: string

definition ValidateEffectiveMemorySelection :: "EffectiveMemorySelection \<Rightarrow> check" where
  "ValidateEffectiveMemorySelection s = first_error
     [fail_if (es_Branch s \<noteq> [] \<and> (ValidateBranchName (es_Branch s) \<noteq> None \<or> es_MemoryHash s \<noteq> [])) ErrHashMismatch,
      fail_if (ValidateContentHash (es_SnapshotID s) \<noteq> None \<or> \<not> ValidGitOID (es_CodeCommit s) \<or>
        (es_MemoryHash s \<noteq> [] \<and> ValidateContentHash (es_MemoryHash s) \<noteq> None)) ErrHashMismatch]"

definition IsInitialMemorySelection :: "HistoryEvent \<Rightarrow> HistoryEvent \<Rightarrow> bool" where
  "IsInitialMemorySelection before after \<longleftrightarrow>
     (he_Kind before = ''position'' \<and> he_Kind after = ''position'' \<and>
      he_MemorySelectionParent after = he_ID before \<and> he_ID before \<noteq> [] \<and> he_ID before \<noteq> he_ID after \<and>
      he_RepoID before = he_RepoID after \<and> he_BranchID before = he_BranchID after \<and>
      he_Branch before = he_Branch after \<and> he_LocalBranch before = he_LocalBranch after \<and>
      he_WorktreeID before \<noteq> [] \<and> he_WorktreeID before = he_WorktreeID after \<and>
      ValidGitOID (he_GitAfter before) \<and> he_GitAfter before = he_GitAfter after \<and>
      he_Target before \<noteq> [] \<and> he_Source after = he_Target before \<and> he_Target after = he_Target before \<and>
      he_MemoryPinned before \<and> he_MemoryPinned after \<and> he_MemoryHash after \<noteq> [] \<and>
      (he_MemorySource after = [] \<or> he_MemorySource after = he_Target after)) \<and>
     (if he_MemoryHash before = [] then he_Source before = he_Target before \<and> he_MemorySource before = []
      else he_MemorySource before \<noteq> [] \<and> he_MemorySource before \<noteq> he_Target before)"

section \<open>Bootstrap of an empty repository\<close>

record EmptyRepositoryProof =
  ep_RepositoryID :: string
  ep_StateHash :: string
  ep_Revision :: RepositoryRevision

record AgentBootstrapProof =
  bp_Server :: EmptyRepositoryProof
  bp_Branch :: string
  bp_CodeCommit :: string
  bp_Unborn :: bool
  bp_WorktreeStateHash :: string

definition ValidateBootstrapProof :: "AgentBootstrapProof \<Rightarrow> check" where
  "ValidateBootstrapProof p = first_error
     [fail_if (ValidateContentHash (ep_RepositoryID (bp_Server p)) \<noteq> None \<or> ValidateContentHash (ep_StateHash (bp_Server p)) \<noteq> None \<or>
        ValidateContentHash (bp_WorktreeStateHash p) \<noteq> None \<or> ValidateBranchName (bp_Branch p) \<noteq> None) ErrHashMismatch,
      (if bp_Unborn p then fail_if (bp_CodeCommit p \<noteq> []) ErrHashMismatch
       else fail_if (\<not> ValidGitOID (bp_CodeCommit p)) ErrHashMismatch)]"

section \<open>A reservation binds one question\<close>

lemma newAgentPromptReservation_Inr:
  "newAgentPromptReservation prompt provider model policy usage = Inr r \<Longrightarrow>
   r = \<lparr>pr_validate = Some (bound_validate prompt provider model usage), pr_validateBudget = None\<rparr>"
  by (simp add: newAgentPromptReservation_def Let_def)

lemma bound_validate_None:
  "bound_validate prompt provider model usage actual p m t n = None \<longleftrightarrow>
   actual = prompt \<and> p = provider \<and> m = model \<and> t = tu_Tokenizer usage \<and> n = tu_Tokens usage"
  by (auto simp: bound_validate_def)

lemma capability_reservation:
  assumes "NewAgentPromptReservationForCapability rfc3339 prompt c usage = Inr r"
  shows "tu_Tokenizer usage = hc_Tokenizer c"
    "pr_validateBudget r = Some (budget_validator c (bound_validate prompt (hc_Provider c) (hc_Model c) usage))"
    "hc_InputAccountingPolicy c = NativeEstimateReserveV1 \<or> hc_InputAccountingPolicy c = CatalogEstimateReserveV1 \<Longrightarrow>
       pr_validate r = Some (\<lambda>_ _ _ _ _. Some ErrProviderCapabilityUnknown)"
  using assms
  by (auto simp: NewAgentPromptReservationForCapability_def Let_def dest!: newAgentPromptReservation_Inr split: if_splits)


definition sample_prompt :: AgentInitialPrompt where
  "sample_prompt = NewAgentInitialPrompt ''why?''"

definition sample_prompt_usage :: AgentTokenUsage where
  "sample_prompt_usage = sample_usage\<lparr>tu_Tokens := 500\<rparr>"


end
