(* ===== verification/JsonRead.thy ===== *)
theory JsonRead
  imports Utf8
begin

text \<open>
  How \<open>encoding/json\<close> reads: a text is cut into tokens, the tokens are read by a machine with a stack of open
  arrays and objects, as the scanner of that package does. Strings are unquoted as in \<open>unquoteBytes\<close> (escapes, surrogate
  pairs, replacement of what is not UTF-8); numbers keep their literal, as after \<open>UseNumber\<close>. Theorem
  \<open>parse_json_text\<close>: what theory \<open>Json\<close> prints is read back. \<open>canonicalJSON\<close> of \<open>hash.go\<close> is the composition
  of both with the sorting of keys that marshalling a map performs.
\<close>

section \<open>Values and tokens\<close>

text \<open>A string value keeps the text between its quotes beside the string it denotes.\<close>

datatype jval =
    VNull
  | VBool bool
  | VNum string
  | VStr string string
  | VArr "jval list"
  | VObj "(string \<times> jval) list"

datatype token = TPunct char | TLit jval | TNum string | TStr string string

section \<open>Strings\<close>

definition hex_value :: "char \<Rightarrow> nat" where
  "hex_value c =
     (if is_digit c then of_char c - 48 else if in_range (CHR ''a'') (CHR ''f'') c then of_char c - 87 else of_char c - 55)"

definition hex4 :: "string \<Rightarrow> nat option" where
  "hex4 s =
     (if length s < 4 \<or> \<not> list_all is_hex (take 4 s) then None
      else Some (foldl (\<lambda>n c. 16 * n + hex_value c) 0 (take 4 s)))"

definition encode_utf8 :: "nat \<Rightarrow> string" where
  "encode_utf8 n =
     (if n < 0x80 then [char_of n]
      else if n < 0x800 then [char_of (0xC0 + n div 0x40), char_of (0x80 + n mod 0x40)]
      else if n < 0x10000 then [char_of (0xE0 + n div 0x1000), char_of (0x80 + n div 0x40 mod 0x40), char_of (0x80 + n mod 0x40)]
      else [char_of (0xF0 + n div 0x40000), char_of (0x80 + n div 0x1000 mod 0x40), char_of (0x80 + n div 0x40 mod 0x40),
            char_of (0x80 + n mod 0x40)])"

definition replacement :: string where
  "replacement = [CHR 0xEF, CHR 0xBF, CHR 0xBD]"

text \<open>The second half of a surrogate pair, written as an escape.\<close>

definition low_surrogate :: "string \<Rightarrow> nat option" where
  "low_surrogate s =
     (case s of
        b # u # rest \<Rightarrow>
          if b = CHR 0x5C \<and> u = CHR ''u'' then
            (case hex4 rest of None \<Rightarrow> None | Some m \<Rightarrow> if 0xDC00 \<le> m \<and> m < 0xE000 then Some m else None)
          else None
      | _ \<Rightarrow> None)"

text \<open>What follows a backslash: the bytes it denotes and the number of characters it takes.\<close>

definition unescape :: "string \<Rightarrow> (string \<times> nat) option" where
  "unescape s =
     (case s of
        [] \<Rightarrow> None
      | c # rest \<Rightarrow>
          if c \<in> set [CHR 0x22, CHR 0x5C, CHR ''/''] then Some ([c], 1)
          else if c = CHR ''b'' then Some ([CHR 0x08], 1)
          else if c = CHR ''f'' then Some ([CHR 0x0C], 1)
          else if c = CHR ''n'' then Some ([CHR 0x0A], 1)
          else if c = CHR ''r'' then Some ([CHR 0x0D], 1)
          else if c = CHR ''t'' then Some ([CHR 0x09], 1)
          else if c = CHR ''u'' then
            (case hex4 rest of
               None \<Rightarrow> None
             | Some n \<Rightarrow>
                 if 0xD800 \<le> n \<and> n < 0xE000 then
                   (case low_surrogate (drop 4 rest) of
                      Some m \<Rightarrow> if n < 0xDC00 then Some (encode_utf8 (0x10000 + (n - 0xD800) * 0x400 + (m - 0xDC00)), 11)
                                else Some (replacement, 5)
                    | None \<Rightarrow> Some (replacement, 5))
                 else Some (encode_utf8 n, 5))
          else None)"

definition string_part :: "string \<Rightarrow> string \<Rightarrow> (string \<times> string \<times> string) option \<Rightarrow> (string \<times> string \<times> string) option" where
  "string_part raw out r = map_option (\<lambda>(raws, outs, rest). (raw @ raws, out @ outs, rest)) r"

function lex_string :: "string \<Rightarrow> (string \<times> string \<times> string) option" where
  "lex_string [] = None"
| "lex_string (c # s) =
     (if c = CHR 0x22 then Some ([], [], s)
      else if c = CHR 0x5C then
        (case unescape s of None \<Rightarrow> None | Some (out, n) \<Rightarrow> string_part (c # take n s) out (lex_string (drop n s)))
      else if (of_char c :: nat) < 0x20 then None
      else let n = max 1 (utf8_length (c # s)) in
        string_part (take n (c # s)) (encode_rune (take n (c # s))) (lex_string (drop (n - 1) s)))"
  by pat_completeness auto

termination
  by (relation "measure length") auto

declare lex_string.simps(2) [simp del]

lemma lex_string_shorter: "lex_string s = Some (raw, out, rest) \<Longrightarrow> length rest < length s"
proof (induction s arbitrary: raw out rest rule: lex_string.induct)
  case (2 c s)
  show ?case
  proof (cases "c = CHR 0x22 \<or> c = CHR 0x5C \<or> (of_char c :: nat) < 0x20")
    case True
    then show ?thesis
      using 2(1,3) by (fastforce simp: lex_string.simps(2) string_part_def split: if_splits option.splits prod.splits)
  next
    case False
    let ?n = "max 1 (utf8_length (c # s)) - 1"
    obtain raw' out' where "lex_string (drop ?n s) = Some (raw', out', rest)"
      using 2(3) False by (auto simp: lex_string.simps(2) Let_def string_part_def)
    then have "length rest < length (drop ?n s)"
      using 2(2) [OF _ _ _ refl] False by blast
    then show ?thesis by simp
  qed
qed simp

section \<open>Tokens\<close>

definition json_space :: "char \<Rightarrow> bool" where
  "json_space c \<longleftrightarrow> c \<in> set [CHR 0x20, CHR 0x09, CHR 0x0A, CHR 0x0D]"

definition json_punct :: "char \<Rightarrow> bool" where
  "json_punct c \<longleftrightarrow> c \<in> set [CHR 0x7B, CHR 0x7D, CHR ''['', CHR '']'', CHR '','', CHR '':'']"

definition number_char :: "char \<Rightarrow> bool" where
  "number_char c \<longleftrightarrow> is_digit c \<or> c \<in> set ''+-.eE''"

definition exponent_ok :: "string \<Rightarrow> bool" where
  "exponent_ok s \<longleftrightarrow>
     (case s of
        [] \<Rightarrow> True
      | c # r \<Rightarrow> c \<in> set ''eE'' \<and>
          (let ds = (case r of d # r' \<Rightarrow> if d \<in> set ''+-'' then r' else r | [] \<Rightarrow> r) in ds \<noteq> [] \<and> list_all is_digit ds))"

definition fraction_ok :: "string \<Rightarrow> bool" where
  "fraction_ok s \<longleftrightarrow>
     (case s of
        c # r \<Rightarrow> if c = CHR ''.'' then takeWhile is_digit r \<noteq> [] \<and> exponent_ok (dropWhile is_digit r) else exponent_ok s
      | [] \<Rightarrow> True)"

definition valid_number :: "string \<Rightarrow> bool" where
  "valid_number s \<longleftrightarrow>
     (let t = (case s of c # r \<Rightarrow> if c = CHR ''-'' then r else s | [] \<Rightarrow> s);
          whole = takeWhile is_digit t
      in whole \<noteq> [] \<and> (hd whole = CHR ''0'' \<longrightarrow> length whole = 1) \<and> fraction_ok (dropWhile is_digit t))"

function lex_json :: "string \<Rightarrow> token list option" where
  "lex_json [] = Some []"
| "lex_json (c # s) =
     (if json_space c then lex_json s
      else if json_punct c then map_option ((#) (TPunct c)) (lex_json s)
      else if c = CHR 0x22 then
        (case lex_string s of None \<Rightarrow> None | Some (raw, out, rest) \<Rightarrow> map_option ((#) (TStr raw out)) (lex_json rest))
      else if number_char c then
        (if valid_number (takeWhile number_char (c # s))
         then map_option ((#) (TNum (takeWhile number_char (c # s)))) (lex_json (dropWhile number_char s)) else None)
      else if has_prefix ''null'' (c # s) then map_option ((#) (TLit VNull)) (lex_json (drop 3 s))
      else if has_prefix ''true'' (c # s) then map_option ((#) (TLit (VBool True))) (lex_json (drop 3 s))
      else if has_prefix ''false'' (c # s) then map_option ((#) (TLit (VBool False))) (lex_json (drop 4 s))
      else None)"
  by pat_completeness auto

termination
  by (relation "measure length") (auto simp: length_dropWhile_le less_Suc_eq_le dest: lex_string_shorter)

declare lex_json.simps(2) [simp del]

section \<open>Reading tokens\<close>

datatype frame = FArr "jval list" | FObj "(string \<times> jval) list" string

datatype mode = Want bool | Key bool "(string \<times> jval) list" | Colon "(string \<times> jval) list" string | After jval

definition maxNestingDepth :: nat where "maxNestingDepth = 10000"

fun json_step :: "mode \<Rightarrow> frame list \<Rightarrow> token \<Rightarrow> (mode \<times> frame list) option" where
  "json_step (Want first) st (TLit v) = Some (After v, st)"
| "json_step (Want first) st (TNum n) = Some (After (VNum n), st)"
| "json_step (Want first) st (TStr raw s) = Some (After (VStr raw s), st)"
| "json_step (Want first) st (TPunct c) =
     (if c = CHR ''['' \<and> length st < maxNestingDepth then Some (Want True, FArr [] # st)
      else if c = CHR 0x7B \<and> length st < maxNestingDepth then Some (Key True [], st)
      else if c = CHR '']'' \<and> first then Some (After (VArr []), tl st)
      else None)"
| "json_step (Key first fs) st (TStr raw k) = Some (Colon fs k, st)"
| "json_step (Key first fs) st (TPunct c) = (if c = CHR 0x7D \<and> first then Some (After (VObj []), st) else None)"
| "json_step (Colon fs k) st (TPunct c) = (if c = CHR '':'' then Some (Want False, FObj fs k # st) else None)"
| "json_step (After v) (FArr xs # st) (TPunct c) =
     (if c = CHR '','' then Some (Want False, FArr (v # xs) # st)
      else if c = CHR '']'' then Some (After (VArr (rev (v # xs))), st) else None)"
| "json_step (After v) (FObj fs k # st) (TPunct c) =
     (if c = CHR '','' then Some (Key False ((k, v) # fs), st)
      else if c = CHR 0x7D then Some (After (VObj (rev ((k, v) # fs))), st) else None)"
| "json_step _ _ _ = None"

fun json_read :: "mode \<Rightarrow> frame list \<Rightarrow> token list \<Rightarrow> jval option" where
  "json_read m st [] = (case m of After v \<Rightarrow> if st = [] then Some v else None | _ \<Rightarrow> None)"
| "json_read m st (t # ts) = (case json_step m st t of None \<Rightarrow> None | Some (m', st') \<Rightarrow> json_read m' st' ts)"

definition parse_json :: "string \<Rightarrow> jval option" where
  "parse_json s = (case lex_json s of None \<Rightarrow> None | Some ts \<Rightarrow> json_read (Want False) [] ts)"

section \<open>Printed strings are read back\<close>

definition to_valid :: "string \<Rightarrow> string" where
  "to_valid s = concat (map encode_rune (runes s))"

lemma string_part_Some [simp]: "string_part raw out (Some (raws, outs, rest)) = Some (raw @ raws, out @ outs, rest)"
  by (simp add: string_part_def)

lemma hex_digit_value: "n < 16 \<Longrightarrow> hex_value (hex_digit n) = n"
proof -
  assume "n < 16"
  moreover have "\<forall>n \<in> set [0..<16]. hex_value (hex_digit n) = n" by code_simp
  ultimately show ?thesis by simp
qed

lemma hex4_byte: "n < 256 \<Longrightarrow> hex4 (CHR ''0'' # CHR ''0'' # hex_digit (n div 16) # hex_digit (n mod 16) # t) = Some n"
proof -
  assume "n < 256"
  then have "n div 16 < 16" by (simp add: less_mult_imp_div_less)
  moreover have "is_hex (CHR ''0'')" "hex_value (CHR ''0'') = 0" by code_simp+
  ultimately show ?thesis
    by (simp add: hex4_def hex_digit_value is_hex_def is_lower_hex_digit)
qed

lemma lex_string_plain:
  "c \<noteq> CHR 0x22 \<Longrightarrow> c \<noteq> CHR 0x5C \<Longrightarrow> 0x20 \<le> (of_char c :: nat) \<Longrightarrow> ascii c \<Longrightarrow>
   lex_string (c # t) = string_part [c] [c] (lex_string t)"
  by (simp add: lex_string.simps(2) encode_rune_def)

lemma lex_string_escaped:
  "unescape s = Some (out, n) \<Longrightarrow> lex_string (CHR 0x5C # s) = string_part (CHR 0x5C # take n s) out (lex_string (drop n s))"
  by (simp add: lex_string.simps(2))

lemma lex_string_escape_ascii:
  assumes "(of_char c :: nat) < 0x80"
  shows "lex_string (escape_ascii c @ t) = string_part (escape_ascii c) [c] (lex_string t)"
proof -
  let ?n = "of_char c :: nat"
  consider "?n \<in> {8, 9, 10, 12, 13, 34, 92}"
    | "?n \<notin> {8, 9, 10, 12, 13, 34, 92}" "?n < 32 \<or> ?n = 60 \<or> ?n = 62 \<or> ?n = 38"
    | "?n \<notin> {8, 9, 10, 12, 13, 34, 92}" "\<not> (?n < 32 \<or> ?n = 60 \<or> ?n = 62 \<or> ?n = 38)" by blast
  then show ?thesis
  proof cases
    case 1
    then have "?n \<in> of_char ` {CHR 0x08, CHR 0x09, CHR 0x0A, CHR 0x0C, CHR 0x0D, CHR 0x22, CHR 0x5C}"
      by simp
    then have "c \<in> {CHR 0x08, CHR 0x09, CHR 0x0A, CHR 0x0C, CHR 0x0D, CHR 0x22, CHR 0x5C}"
      by (simp only: inj_image_mem_iff [OF inj_of_char])
    then show ?thesis
      by (auto simp: escape_ascii_def lex_string_escaped unescape_def)
  next
    case 2
    have "encode_utf8 ?n = [c]" using assms by (simp add: encode_utf8_def)
    moreover have "hex4 (CHR ''0'' # CHR ''0'' # hex_digit (?n div 16) # hex_digit (?n mod 16) # t) = Some ?n"
      using hex4_byte assms by simp
    ultimately show ?thesis
      using 2 assms by (simp add: escape_ascii_def Let_def lex_string_escaped [where n = 5] unescape_def)
  next
    case 3
    then have "c \<noteq> CHR 0x22" "c \<noteq> CHR 0x5C" by auto
    then show ?thesis
      using 3 assms by (simp add: escape_ascii_def Let_def lex_string_plain ascii_def)
  qed
qed

lemma utf8_length_complete:
  assumes "utf8_length r = length r" "r \<noteq> []"
  shows "utf8_length (r @ t) = length r"
proof -
  obtain c rest where r: "r = c # rest" using assms(2) by (cases r) auto
  show ?thesis
  proof (cases "utf8_need c \<le> 1")
    case True
    then show ?thesis using assms by (simp add: r utf8_length_def)
  next
    case False
    then have "utf8_need c = Suc (length rest)" "rest \<noteq> []" "utf8_second c (hd rest)"
        "list_all (continuation 0x80 0xBF) (take (utf8_need c - 2) (tl rest))"
      using assms by (auto simp: r utf8_length_def split: if_splits)
    then show ?thesis
      using False by (cases rest) (simp_all add: r utf8_length_def)
  qed
qed

lemma lex_string_run:
  assumes "utf8_length (c # r) = Suc (length r)" "\<not> ascii c"
  shows "lex_string (c # r @ t) = string_part (c # r) (c # r) (lex_string t)"
proof -
  have "utf8_length (c # r @ t) = Suc (length r)"
    using utf8_length_complete [of "c # r" t] assms(1) by simp
  moreover have "c \<noteq> CHR 0x22" "c \<noteq> CHR 0x5C" "\<not> (of_char c :: nat) < 0x20"
    using assms(2) by (auto simp: ascii_def)
  ultimately show ?thesis
    using assms(1) by (simp add: lex_string.simps(2) encode_rune_def)
qed

lemma hex4_constants:
  "hex4 (CHR ''f'' # CHR ''f'' # CHR ''f'' # CHR ''d'' # t) = Some 0xFFFD"
  "hex4 (CHR ''2'' # CHR ''0'' # CHR ''2'' # CHR ''8'' # t) = Some 0x2028"
  "hex4 (CHR ''2'' # CHR ''0'' # CHR ''2'' # CHR ''9'' # t) = Some 0x2029"
  by (simp_all add: hex4_def hex_value_def is_hex_def is_lower_hex_def is_digit_def in_range_def)

lemma encode_utf8_constants:
  "encode_utf8 0xFFFD = replacement" "encode_utf8 0x2028 = [CHR 0xE2, CHR 0x80, CHR 0xA8]"
  "encode_utf8 0x2029 = [CHR 0xE2, CHR 0x80, CHR 0xA9]"
  using char_of_char [of "CHR 0xEF"] char_of_char [of "CHR 0xBF"] char_of_char [of "CHR 0xBD"]
    char_of_char [of "CHR 0xE2"] char_of_char [of "CHR 0x80"] char_of_char [of "CHR 0xA8"] char_of_char [of "CHR 0xA9"]
  by (simp_all add: encode_utf8_def replacement_def)

lemma escape_lexed: "lex_string (escape s @ CHR 0x22 # rest) = Some (escape s, to_valid s, rest)"
proof (induction s rule: escape.induct)
  case 1
  show ?case by (simp add: lex_string.simps(2) to_valid_def)
next
  case (2 c s)
  consider "ascii c" | "\<not> ascii c" "utf8_length (c # s) = 0" | "\<not> ascii c" "utf8_length (c # s) \<noteq> 0" by blast
  then show ?case
  proof cases
    case 1
    then show ?thesis
      using 2(1) by (simp add: ascii_def lex_string_escape_ascii)
        (simp add: to_valid_def runes_ascii [unfolded ascii_def] encode_rune_def utf8_length_ascii [unfolded ascii_def])
  next
    case 2
    have "utf8_length [c] = 0"
      using 2 by (auto simp: utf8_length_def utf8_need_def ascii_def Let_def split: if_splits)
    then have "to_valid (c # s) = replacement @ to_valid s"
      using 2 by (simp add: to_valid_def runes.simps(2) encode_rune_def replacement_def)
    then show ?thesis
      using 2 "2.IH"(2) by (simp add: ascii_def lex_string_escaped [where n = 5] unescape_def hex4_constants encode_utf8_constants)
  next
    case 3
    let ?n = "utf8_length (c # s)"
    let ?r = "take (?n - 1) s"
    have run: "utf8_length (c # ?r) = Suc (length ?r)" "take ?n (c # s) = c # ?r" "length ?r = ?n - 1"
      using utf8_length_take [of "c # s" ?n] utf8_length_le [of "c # s"] 3 by (cases ?n; simp)+
    have valid: "to_valid (c # s) = (c # ?r) @ to_valid (drop (?n - 1) s)"
      using 3 run by (cases ?n) (simp_all add: to_valid_def runes.simps(2) encode_rune_def)
    have IH: "lex_string (escape (drop (?n - 1) s) @ CHR 0x22 # rest) =
        Some (escape (drop (?n - 1) s), to_valid (drop (?n - 1) s), rest)"
      using "2.IH"(3) [OF _ _ refl refl] 3 by (simp add: ascii_def)
    show ?thesis
    proof (cases "c # ?r = [CHR 0xE2, CHR 0x80, CHR 0xA8] \<or> c # ?r = [CHR 0xE2, CHR 0x80, CHR 0xA9]")
      case True
      then show ?thesis
        using 3 IH valid
        by (auto simp: ascii_def Let_def lex_string_escaped [where n = 5] unescape_def hex4_constants encode_utf8_constants)
    next
      case False
      then show ?thesis
        using 3 IH valid lex_string_run [OF run(1) 3(1)] by (auto simp: ascii_def Let_def)
    qed
  qed
qed

section \<open>Printed values are read back\<close>

fun comma_tokens :: "token list list \<Rightarrow> token list" where
  "comma_tokens [] = []"
| "comma_tokens [x] = x"
| "comma_tokens (x # y # ys) = x @ TPunct (CHR '','') # comma_tokens (y # ys)"

fun tokens_of :: "json \<Rightarrow> token list" where
  "tokens_of JNull = [TLit VNull]"
| "tokens_of (JBool b) = [TLit (VBool b)]"
| "tokens_of (JInt i) = [TNum (int_text i)]"
| "tokens_of (JRaw n) = [TNum n]"
| "tokens_of (JStr s) = [TStr (escape s) (to_valid s)]"
| "tokens_of (JArr xs) = TPunct (CHR ''['') # comma_tokens (map tokens_of xs) @ [TPunct (CHR '']'')]"
| "tokens_of (JObj fs) =
     TPunct (CHR 0x7B) # comma_tokens (map (\<lambda>(k, v). TStr (escape k) (to_valid k) # TPunct (CHR '':'') # tokens_of v) fs) @ [TPunct (CHR 0x7D)]"

fun jval_of :: "json \<Rightarrow> jval" where
  "jval_of JNull = VNull"
| "jval_of (JBool b) = VBool b"
| "jval_of (JInt i) = VNum (int_text i)"
| "jval_of (JRaw n) = VNum n"
| "jval_of (JStr s) = VStr (escape s) (to_valid s)"
| "jval_of (JArr xs) = VArr (map jval_of xs)"
| "jval_of (JObj fs) = VObj (map (\<lambda>(k, v). (to_valid k, jval_of v)) fs)"

text \<open>Copied text is a number; values are nested at most \<open>n\<close> deep.\<close>

fun printable :: "nat \<Rightarrow> json \<Rightarrow> bool" where
  "printable n (JRaw s) \<longleftrightarrow> valid_number s"
| "printable n (JArr xs) \<longleftrightarrow> 0 < n \<and> (\<forall>x \<in> set xs. printable (n - 1) x)"
| "printable n (JObj fs) \<longleftrightarrow> 0 < n \<and> (\<forall>(k, v) \<in> set fs. printable (n - 1) v)"
| "printable n _ \<longleftrightarrow> True"

definition number_ends :: "string \<Rightarrow> bool" where
  "number_ends rest \<longleftrightarrow> rest = [] \<or> \<not> number_char (hd rest)"

lemma digits_number: "list_all is_digit s \<Longrightarrow> list_all number_char s"
  by (auto simp: list_all_iff number_char_def)

lemma exponent_chars: "exponent_ok s \<Longrightarrow> list_all number_char s"
  by (cases s; cases "tl s")
    (auto simp: exponent_ok_def Let_def number_char_def dest!: digits_number split: if_splits)

lemma takeWhile_number: "list_all number_char (dropWhile is_digit s) \<Longrightarrow> list_all number_char s"
proof -
  assume "list_all number_char (dropWhile is_digit s)"
  moreover have "list_all number_char (takeWhile is_digit s)"
    by (rule digits_number) (auto simp: list_all_iff dest: set_takeWhileD)
  ultimately show ?thesis by (metis list_all_append takeWhile_dropWhile_id)
qed

lemma fraction_chars: "fraction_ok s \<Longrightarrow> list_all number_char s"
  by (cases s) (auto simp: fraction_ok_def number_char_def [of "CHR ''.''"] intro: takeWhile_number dest: exponent_chars
    split: if_splits)

lemma valid_number_chars:
  assumes "valid_number s"
  shows "s \<noteq> [] \<and> list_all number_char s"
proof -
  let ?t = "case s of c # r \<Rightarrow> if c = CHR ''-'' then r else s | [] \<Rightarrow> s"
  have "takeWhile is_digit ?t \<noteq> []" "fraction_ok (dropWhile is_digit ?t)"
    using assms by (simp_all add: valid_number_def Let_def)
  then have "?t \<noteq> []" "list_all number_char ?t"
    by (auto intro: takeWhile_number fraction_chars)
  then show ?thesis
    by (cases s) (auto simp: number_char_def split: if_splits)
qed

lemma number_char_not: "number_char c \<Longrightarrow> \<not> json_space c \<and> \<not> json_punct c \<and> c \<noteq> CHR 0x22"
  by (auto simp: number_char_def json_space_def json_punct_def is_digit_def in_range_def)

lemma lex_number:
  assumes "valid_number n" "number_ends rest"
  shows "lex_json (n @ rest) = map_option ((#) (TNum n)) (lex_json rest)"
proof -
  obtain c m where n: "n = c # m" "number_char c" "list_all number_char m"
    using valid_number_chars [OF assms(1)] by (cases n) auto
  have "takeWhile number_char (m @ rest) = m" "dropWhile number_char (m @ rest) = rest"
    using n(3) assms(2) by (cases rest; auto simp: list_all_iff number_ends_def)+
  then show ?thesis
    using assms(1) n number_char_not [OF n(2)] by (simp add: lex_json.simps(2))
qed

lemma decimal_head: "n \<noteq> 0 \<Longrightarrow> hd (decimal n) \<noteq> CHR ''0''"
proof (induction n rule: decimal.induct)
  case (1 n)
  show ?case
  proof (cases "n < 10")
    case True
    then have "(of_char (char_of (48 + n)) :: nat) = 48 + n" by simp
    moreover have "(of_char (CHR ''0'') :: nat) = 48" by simp
    ultimately have "char_of (48 + n) \<noteq> CHR ''0''" using 1(2) by (metis add_cancel_left_right)
    then show ?thesis using True by (simp add: decimal.simps [of n])
  next
    case False
    then show ?thesis using 1(1) by (simp add: decimal.simps [of n])
  qed
qed

lemma valid_number_int_text: "valid_number (int_text i)"
proof -
  have digits: "takeWhile is_digit (decimal n) = decimal n" "dropWhile is_digit (decimal n) = []" for n
    using decimal_digits [of n] by (auto simp: list_all_iff)
  have "hd (decimal n) = CHR ''0'' \<longrightarrow> length (decimal n) = 1" for n
    using decimal_head [of n] by (cases "n = 0") (auto simp: decimal.simps [of 0])
  moreover have "(case decimal n of c # r \<Rightarrow> if c = CHR ''-'' then r else decimal n | [] \<Rightarrow> decimal n) = decimal n" for n
    using decimal_digits [of n] by (cases "decimal n") (auto simp: is_digit_def in_range_def)
  ultimately show ?thesis
    by (auto simp: int_text_def valid_number_def Let_def digits fraction_ok_def)
qed

lemma lex_punct [simp]: "json_punct c \<Longrightarrow> lex_json (c # s) = map_option ((#) (TPunct c)) (lex_json s)"
  by (auto simp: lex_json.simps(2) json_punct_def json_space_def)

lemma json_punct_chars [simp]:
  "json_punct (CHR ''['')" "json_punct (CHR '']'')" "json_punct (CHR 0x7B)" "json_punct (CHR 0x7D)"
  "json_punct (CHR '','')" "json_punct (CHR '':'')"
  by (simp_all add: json_punct_def)

lemma number_ends_punct [simp]: "json_punct c \<Longrightarrow> number_ends (c # s)"
  using number_char_not by (auto simp: number_ends_def)

lemma lex_quoted [simp]: "lex_json (quoted s @ rest) = map_option ((#) (TStr (escape s) (to_valid s))) (lex_json rest)"
  by (simp add: quoted_def lex_json.simps(2) escape_lexed json_space_def json_punct_def)

lemma map_option_append: "map_option ((@) xs) (map_option ((@) ys) r) = map_option ((@) (xs @ ys)) r"
  by (cases r) simp_all

lemma map_option_Cons: "map_option ((#) x) r = map_option ((@) [x]) r"
  by (cases r) simp_all

lemma lex_comma_separated:
  assumes "\<And>x rest. x \<in> set xs \<Longrightarrow> number_ends rest \<Longrightarrow> lex_json (f x @ rest) = map_option ((@) (g x)) (lex_json rest)"
    and "json_punct c"
  shows "lex_json (comma_separated (map f xs) @ c # rest) = map_option ((@) (comma_tokens (map g xs))) (lex_json (c # rest))"
  using assms(1)
proof (induction xs rule: induct_list012)
  case 1
  then show ?case by (cases "lex_json rest") (simp_all add: assms(2))
next
  case (2 x)
  then show ?case using assms(2) by simp
next
  case (3 x y ys)
  then show ?case
    by (cases "lex_json (c # rest)") (simp_all del: lex_punct add: lex_punct [of "CHR '',''"])
qed

lemma lex_literals:
  "lex_json (''null'' @ rest) = map_option ((#) (TLit VNull)) (lex_json rest)"
  "lex_json (''true'' @ rest) = map_option ((#) (TLit (VBool True))) (lex_json rest)"
  "lex_json (''false'' @ rest) = map_option ((#) (TLit (VBool False))) (lex_json rest)"
  by (simp_all add: lex_json.simps(2) json_space_def json_punct_def number_char_def is_digit_def in_range_def has_prefix_def)

lemma lex_json_text:
  assumes "printable n j" "number_ends rest"
  shows "lex_json (json_text j @ rest) = map_option ((@) (tokens_of j)) (lex_json rest)"
  using assms
proof (induction j arbitrary: n rest rule: json_text.induct)
  case (6 xs)
  have "lex_json (comma_separated (map json_text xs) @ CHR '']'' # rest) =
      map_option ((@) (comma_tokens (map tokens_of xs))) (lex_json (CHR '']'' # rest))"
    using 6 by (intro lex_comma_separated) auto
  then show ?case by (cases "lex_json rest") simp_all
next
  case (7 fs)
  let ?f = "\<lambda>(k, v). quoted k @ CHR '':'' # json_text v"
  let ?g = "\<lambda>(k, v). TStr (escape k) (to_valid k) # TPunct (CHR '':'') # tokens_of v"
  have "lex_json (?f x @ r) = map_option ((@) (?g x)) (lex_json r)" if "x \<in> set fs" "number_ends r" for x r
  proof -
    obtain k v where x: "x = (k, v)" by (cases x)
    have "lex_json (json_text v @ r) = map_option ((@) (tokens_of v)) (lex_json r)"
      using 7 that x by fastforce
    then show ?thesis by (cases "lex_json r") (simp_all add: x)
  qed
  then have "lex_json (comma_separated (map ?f fs) @ CHR 0x7D # rest) =
      map_option ((@) (comma_tokens (map ?g fs))) (lex_json (CHR 0x7D # rest))"
    by (intro lex_comma_separated) simp_all
  then show ?case by (cases "lex_json rest") simp_all
qed (auto simp: lex_literals [simplified] lex_number valid_number_int_text map_option_Cons)

lemma json_read_elements:
  assumes "\<And>x b acc ts. x \<in> set xs \<Longrightarrow> json_read (Want b) (FArr acc # st) (g x @ ts) = json_read (After (h x)) (FArr acc # st) ts"
    and "xs \<noteq> []"
  shows "json_read (Want b) (FArr acc # st) (comma_tokens (map g xs) @ TPunct (CHR '']'') # ts) =
    json_read (After (VArr (rev acc @ map h xs))) st ts"
  using assms
proof (induction xs arbitrary: b acc rule: induct_list012)
  case (3 x y ys)
  have "json_read (Want b) (FArr acc # st) (comma_tokens (map g (x # y # ys)) @ TPunct (CHR '']'') # ts) =
      json_read (Want False) (FArr (h x # acc) # st) (comma_tokens (map g (y # ys)) @ TPunct (CHR '']'') # ts)"
    using 3(3) [of x] by simp
  also have "\<dots> = json_read (After (VArr (rev (h x # acc) @ map h (y # ys)))) st ts"
    using 3(3) by (intro 3(2)) simp_all
  finally show ?case by simp
qed simp_all

lemma json_read_members:
  assumes "\<And>k v acc ts. (k, v) \<in> set fs \<Longrightarrow>
      json_read (Want False) (FObj acc (key k) # st) (g v @ ts) = json_read (After (h v)) (FObj acc (key k) # st) ts"
    and "fs \<noteq> []"
  shows "json_read (Key b acc) st (comma_tokens (map (\<lambda>(k, v). TStr (raw k) (key k) # TPunct (CHR '':'') # g v) fs) @ TPunct (CHR 0x7D) # ts) =
    json_read (After (VObj (rev acc @ map (\<lambda>(k, v). (key k, h v)) fs))) st ts"
  using assms
proof (induction fs arbitrary: b acc rule: induct_list012)
  case (2 f)
  then show ?case by (cases f) simp
next
  case (3 f f' fs)
  let ?t = "\<lambda>(k, v). TStr (raw k) (key k) # TPunct (CHR '':'') # g v"
  obtain k v where f: "f = (k, v)" by (cases f)
  have "json_read (Key b acc) st (comma_tokens (map ?t (f # f' # fs)) @ TPunct (CHR 0x7D) # ts) =
      json_read (Key False ((key k, h v) # acc)) st (comma_tokens (map ?t (f' # fs)) @ TPunct (CHR 0x7D) # ts)"
    using 3(3) [of k v] by (simp add: f)
  also have "\<dots> = json_read (After (VObj (rev ((key k, h v) # acc) @ map (\<lambda>(k, v). (key k, h v)) (f' # fs)))) st ts"
    using 3(3) by (intro 3(2)) simp_all
  finally show ?case by (simp add: f)
qed simp

lemma json_read_tokens:
  assumes "printable (maxNestingDepth - length st) j"
  shows "json_read (Want b) st (tokens_of j @ ts) = json_read (After (jval_of j)) st ts"
  using assms
proof (induction j arbitrary: b st ts rule: tokens_of.induct)
  case (6 xs)
  then have "json_read (Want True) (FArr [] # st) (comma_tokens (map tokens_of xs) @ TPunct (CHR '']'') # ts) =
      json_read (After (VArr (rev [] @ map jval_of xs))) st ts" if "xs \<noteq> []"
    using that by (intro json_read_elements) auto
  with 6 show ?case by (cases "xs = []") auto
next
  case (7 fs)
  then have "json_read (Key True []) st
        (comma_tokens (map (\<lambda>(k, v). TStr (escape k) (to_valid k) # TPunct (CHR '':'') # tokens_of v) fs) @ TPunct (CHR 0x7D) # ts) =
      json_read (After (VObj (rev [] @ map (\<lambda>(k, v). (to_valid k, jval_of v)) fs))) st ts" if "fs \<noteq> []"
    using that by (intro json_read_members) auto
  with 7 show ?case by (cases "fs = []") auto
qed simp_all

theorem parse_json_text:
  assumes "printable maxNestingDepth j"
  shows "parse_json (json_text j) = Some (jval_of j)"
proof -
  have "lex_json (json_text j) = Some (tokens_of j)"
    using lex_json_text [OF assms, of "[]"] by (simp add: number_ends_def)
  then show ?thesis
    using json_read_tokens [of "[]" j False "[]"] assms by (simp add: parse_json_def)
qed

section \<open>Canonical JSON\<close>

text \<open>Marshalling a decoded value: an object is a Go map, printed in the order of its keys; a repeated key keeps its last value.\<close>

definition sorted_fields :: "(string \<times> json) list \<Rightarrow> (string \<times> json) list" where
  "sorted_fields fs = map (\<lambda>k. (k, the (map_of (rev fs) k))) (sort (remdups (map fst fs)))"

fun generic :: "jval \<Rightarrow> json" where
  "generic VNull = JNull"
| "generic (VBool b) = JBool b"
| "generic (VNum n) = JRaw n"
| "generic (VStr raw s) = JStr s"
| "generic (VArr xs) = JArr (map generic xs)"
| "generic (VObj fs) = JObj (sorted_fields (map (\<lambda>(k, v). (k, generic v)) fs))"

definition canonical_text :: "string \<Rightarrow> string option" where
  "canonical_text s = map_option (\<lambda>v. json_text (generic v)) (parse_json s)"

definition canonicalJSON :: "json \<Rightarrow> string option" where
  "canonicalJSON j = canonical_text (json_text j)"

section \<open>What is read can be printed\<close>

definition valid_text :: "string \<Rightarrow> bool" where
  "valid_text s \<longleftrightarrow> to_valid s = s"

definition valid_rune :: "string \<Rightarrow> bool" where
  "valid_rune r \<longleftrightarrow> r \<noteq> [] \<and> utf8_length r = length r"

lemma runes_valid_rune: "valid_rune r \<Longrightarrow> runes (r @ s) = r # runes s"
proof -
  assume r: "valid_rune r"
  then obtain c t where "r = c # t" by (cases r) (auto simp: valid_rune_def)
  then show ?thesis
    using utf8_length_complete [of r s] r by (simp add: valid_rune_def runes.simps(2))
qed

lemma valid_text_Nil [simp]: "valid_text []"
  by (simp add: valid_text_def to_valid_def)

lemma valid_text_rune [simp]: "valid_rune r \<Longrightarrow> valid_text (r @ s) \<longleftrightarrow> valid_text s"
  by (simp add: valid_text_def to_valid_def runes_valid_rune) (simp add: encode_rune_def valid_rune_def)

lemma valid_rune_ascii: "ascii c \<Longrightarrow> valid_rune [c]"
  by (simp add: valid_rune_def)

lemma valid_rune_replacement: "valid_rune replacement"
  by code_simp

lemma valid_rune_encode_rune: "r \<noteq> [] \<Longrightarrow> utf8_length r = 0 \<or> utf8_length r = length r \<Longrightarrow> valid_rune (encode_rune r)"
  using valid_rune_replacement by (auto simp: encode_rune_def valid_rune_def replacement_def)

lemma valid_rune_encode_utf8:
  assumes "n < 0x110000" "\<not> (0xD800 \<le> n \<and> n < 0xE000)"
  shows "valid_rune (encode_utf8 n)"
proof -
  have second: "n div 0x40 mod 0x40 < k" if "n div 0x1000 = h" "n < (h * 0x40 + k) * 0x40" for h k
  proof -
    have "n div 0x40 < h * 0x40 + k" using that(2) by (simp add: less_mult_imp_div_less)
    moreover have "n div 0x40 div 0x40 = h" using that(1) by (simp add: div_mult2_eq [symmetric])
    ultimately show ?thesis using mult_div_mod_eq [of 64 "n div 0x40"] by linarith
  qed
  consider "n < 0x80" | "0x80 \<le> n" "n < 0x800" | "0x800 \<le> n" "n < 0x10000" | "0x10000 \<le> n" by linarith
  then show ?thesis
  proof cases
    case 1
    then show ?thesis by (simp add: encode_utf8_def valid_rune_ascii ascii_def)
  next
    case 2
    have "n div 0x40 < 0x20" "2 \<le> n div 0x40" "n mod 0x40 < 0x40" using 2 by auto
    then show ?thesis
      using 2 by (simp add: encode_utf8_def valid_rune_def utf8_length_def utf8_need_def utf8_second_def continuation_def Let_def)
  next
    case 3
    have "n div 0x1000 < 0x10" "n div 0x40 mod 0x40 < 0x40" "n mod 0x40 < 0x40" using 3 by auto
    moreover have "n div 0x1000 = 0 \<longrightarrow> 0x20 \<le> n div 0x40 mod 0x40" using 3 by auto
    moreover have "n div 0x1000 = 0xD \<longrightarrow> n div 0x40 mod 0x40 < 0x20"
      using second [of 13 32] assms 3 by auto
    ultimately show ?thesis
      using 3 by (auto simp add: encode_utf8_def valid_rune_def utf8_length_def utf8_need_def utf8_second_def continuation_def Let_def)
  next
    case 4
    have "n div 0x40000 < 5" "n div 0x1000 mod 0x40 < 0x40" "n div 0x40 mod 0x40 < 0x40" "n mod 0x40 < 0x40" using 4 assms by auto
    moreover have "n div 0x40000 = 0 \<longrightarrow> 0x10 \<le> n div 0x1000 mod 0x40" using 4 by auto
    moreover have "n div 0x40000 = 4 \<longrightarrow> n div 0x1000 mod 0x40 < 0x10"
      using mult_div_mod_eq [of 64 "n div 0x1000"] assms by (auto simp: div_mult2_eq [symmetric])
    ultimately show ?thesis
      using 4 by (auto simp add: encode_utf8_def valid_rune_def utf8_length_def utf8_need_def utf8_second_def continuation_def Let_def)
  qed
qed

lemma hex4_bound: "hex4 s = Some n \<Longrightarrow> n < 0x10000"
proof -
  assume n: "hex4 s = Some n"
  then obtain a b c d where abcd: "take 4 s = [a, b, c, d]"
    by (auto simp: hex4_def not_less numeral_eq_Suc Suc_le_length_iff split: if_splits)
  have digit: "hex_value x < 16" if "is_hex x" for x
    using that by (auto simp: hex_value_def is_hex_def is_lower_hex_def is_digit_def in_range_def less_eq_char_def)
  from n abcd have "is_hex a" "is_hex b" "is_hex c" "is_hex d"
    by (auto simp: hex4_def split: if_splits)
  from this [THEN digit] show ?thesis
    using n abcd by (auto simp: hex4_def split: if_splits)
qed

lemma unescape_valid:
  assumes "unescape s = Some (out, n)"
  shows "valid_rune out"
proof -
  have pair: "valid_rune (encode_utf8 (0x10000 + (n - 0xD800) * 0x400 + (m - 0xDC00)))" if "n < 0xDC00" "m < 0xE000" for n m
    using that by (intro valid_rune_encode_utf8) auto
  have low: "m < 0xE000" if "low_surrogate t = Some m" for t m
    using that by (auto simp: low_surrogate_def split: list.splits if_splits option.splits)
  obtain c rest where s: "s = c # rest" using assms by (cases s) (simp_all add: unescape_def)
  show ?thesis
  proof (cases "c = CHR ''u''")
    case True
    then obtain k where "hex4 rest = Some k" using assms s by (auto simp: unescape_def split: option.splits)
    moreover from hex4_bound [OF this] have "valid_rune (encode_utf8 k)" if "\<not> (0xD800 \<le> k \<and> k < 0xE000)"
      using that by (intro valid_rune_encode_utf8) auto
    ultimately show ?thesis
      using assms s True pair low valid_rune_replacement
      by (auto simp: unescape_def split: option.splits if_splits)
  next
    case False
    then show ?thesis
      using assms s by (auto simp: unescape_def ascii_def intro!: valid_rune_ascii split: if_splits)
  qed
qed

lemma utf8_length_single: "utf8_length (c # s) = 0 \<Longrightarrow> utf8_length [c] = 0"
  by (auto simp: utf8_length_def utf8_need_def Let_def split: if_splits)

lemma lex_string_valid: "lex_string s = Some (raw, out, rest) \<Longrightarrow> valid_text out"
proof (induction s arbitrary: raw out rest rule: lex_string.induct)
  case (2 c s)
  show ?case
  proof (cases "c = CHR 0x22 \<or> c = CHR 0x5C \<or> (of_char c :: nat) < 0x20")
    case True
    then show ?thesis
      using 2(1,3) unescape_valid
      by (fastforce simp: lex_string.simps(2) string_part_def split: if_splits option.splits prod.splits)
  next
    case False
    let ?n = "max 1 (utf8_length (c # s))"
    obtain raw' out' where lexed: "lex_string (drop (?n - 1) s) = Some (raw', out', rest)"
        and out: "out = encode_rune (take ?n (c # s)) @ out'"
      using 2(3) False by (auto simp: lex_string.simps(2) Let_def string_part_def)
    have "valid_rune (encode_rune (take ?n (c # s)))"
    proof (rule valid_rune_encode_rune)
      show "utf8_length (take ?n (c # s)) = 0 \<or> utf8_length (take ?n (c # s)) = length (take ?n (c # s))"
        using utf8_length_single [of c s] utf8_length_take [of "c # s" ?n] utf8_length_le [of "c # s"]
        by (cases "utf8_length (c # s) = 0") auto
    qed auto
    moreover have "valid_text out'"
      using 2(2) [OF _ _ _ refl lexed] False by blast
    ultimately show ?thesis by (simp add: out)
  qed
qed simp

fun wellread :: "nat \<Rightarrow> jval \<Rightarrow> bool" where
  "wellread n (VNum s) \<longleftrightarrow> valid_number s"
| "wellread n (VStr raw s) \<longleftrightarrow> valid_text s"
| "wellread n (VArr xs) \<longleftrightarrow> 0 < n \<and> (\<forall>x \<in> set xs. wellread (n - 1) x)"
| "wellread n (VObj fs) \<longleftrightarrow> 0 < n \<and> (\<forall>(k, v) \<in> set fs. valid_text k \<and> wellread (n - 1) v)"
| "wellread n _ \<longleftrightarrow> True"

fun token_ok :: "token \<Rightarrow> bool" where
  "token_ok (TLit v) \<longleftrightarrow> v = VNull \<or> (\<exists>b. v = VBool b)"
| "token_ok (TNum n) \<longleftrightarrow> valid_number n"
| "token_ok (TStr raw s) \<longleftrightarrow> valid_text s"
| "token_ok (TPunct c) \<longleftrightarrow> True"

lemma lex_json_ok: "lex_json s = Some ts \<Longrightarrow> list_all token_ok ts"
proof (induction s arbitrary: ts rule: lex_json.induct)
  case (2 c s)
  then show ?case
    by (auto simp: lex_json.simps(2) dest!: lex_string_valid split: if_splits option.splits)
qed simp

fun stack_ok :: "frame list \<Rightarrow> bool" where
  "stack_ok [] \<longleftrightarrow> True"
| "stack_ok (FArr xs # st) \<longleftrightarrow> length st < maxNestingDepth \<and> (\<forall>x \<in> set xs. wellread (maxNestingDepth - Suc (length st)) x) \<and> stack_ok st"
| "stack_ok (FObj fs k # st) \<longleftrightarrow> length st < maxNestingDepth \<and> valid_text k \<and>
     (\<forall>(k, v) \<in> set fs. valid_text k \<and> wellread (maxNestingDepth - Suc (length st)) v) \<and> stack_ok st"

fun mode_ok :: "mode \<Rightarrow> frame list \<Rightarrow> bool" where
  "mode_ok (Want first) st \<longleftrightarrow> (first \<longrightarrow> (\<exists>st'. st = FArr [] # st'))"
| "mode_ok (Key first fs) st \<longleftrightarrow> length st < maxNestingDepth \<and>
     (\<forall>(k, v) \<in> set fs. valid_text k \<and> wellread (maxNestingDepth - Suc (length st)) v)"
| "mode_ok (Colon fs k) st \<longleftrightarrow> length st < maxNestingDepth \<and> valid_text k \<and>
     (\<forall>(k, v) \<in> set fs. valid_text k \<and> wellread (maxNestingDepth - Suc (length st)) v)"
| "mode_ok (After v) st \<longleftrightarrow> wellread (maxNestingDepth - length st) v"

lemma json_step_ok:
  assumes "json_step m st t = Some (m', st')" "mode_ok m st" "stack_ok st" "token_ok t"
  shows "mode_ok m' st' \<and> stack_ok st'"
  using assms
  by (induction m st t rule: json_step.induct) (auto split: if_splits)

lemma json_read_ok:
  assumes "json_read m st ts = Some v" "mode_ok m st" "stack_ok st" "list_all token_ok ts"
  shows "wellread maxNestingDepth v"
  using assms
proof (induction m st ts rule: json_read.induct)
  case (1 m st)
  then show ?case by (auto split: mode.splits if_splits)
next
  case (2 m st t ts)
  then show ?case using json_step_ok by (fastforce split: option.splits prod.splits)
qed

lemma parse_json_wellread: "parse_json s = Some v \<Longrightarrow> wellread maxNestingDepth v"
  by (auto simp: parse_json_def split: option.splits dest: lex_json_ok intro: json_read_ok)

section \<open>Canonical texts\<close>

lemma sorted_fields_set: "(k, v) \<in> set (sorted_fields fs) \<Longrightarrow> (k, v) \<in> set fs"
proof -
  assume "(k, v) \<in> set (sorted_fields fs)"
  then have "k \<in> fst ` set fs" "v = the (map_of (rev fs) k)" by (auto simp: sorted_fields_def)
  moreover from this(1) have "map_of (rev fs) k \<noteq> None" by (simp add: map_of_eq_None_iff)
  ultimately have "map_of (rev fs) k = Some v" by auto
  then show ?thesis by (auto dest: map_of_SomeD)
qed

lemma sorted_fields_keys: "map fst (sorted_fields fs) = sort (remdups (map fst fs))"
  by (simp add: sorted_fields_def comp_def)

lemma sorted_fields_id:
  assumes "sorted (map fst fs)" "distinct (map fst fs)"
  shows "sorted_fields fs = fs"
proof -
  have "sort (remdups (map fst fs)) = map fst fs"
    using assms by (simp add: distinct_remdups_id sorted_sort_id)
  moreover have "map_of (rev fs) k = Some v" if "(k, v) \<in> set fs" for k v
    using assms(2) that by (intro map_of_is_SomeI) (simp_all add: rev_map [symmetric])
  ultimately show ?thesis
    by (auto simp: sorted_fields_def intro!: map_idI)
qed

lemma generic_printable: "wellread n v \<Longrightarrow> printable n (generic v)"
proof (induction v arbitrary: n rule: generic.induct)
  case (6 fs)
  then show ?case by (fastforce dest!: sorted_fields_set)
qed auto

lemma generic_again: "wellread n v \<Longrightarrow> generic (jval_of (generic v)) = generic v"
proof (induction v arbitrary: n rule: generic.induct)
  case (6 fs)
  let ?fs = "map (\<lambda>(k, v). (k, generic v)) fs"
  have "(k, generic (jval_of v)) = (k, v) \<and> to_valid k = k" if "(k, v) \<in> set (sorted_fields ?fs)" for k v
    using sorted_fields_set [OF that] 6 by (fastforce simp: valid_text_def)
  then have "map (\<lambda>(k, v). (k, generic v)) (map (\<lambda>(k, v). (to_valid k, jval_of v)) (sorted_fields ?fs)) = sorted_fields ?fs"
    by (auto intro!: map_idI)
  moreover have "sorted_fields (sorted_fields ?fs) = sorted_fields ?fs"
    by (rule sorted_fields_id) (simp_all add: sorted_fields_keys)
  ultimately show ?case by simp
qed (auto simp: valid_text_def)

lemma canonical_text_parse:
  assumes "parse_json s = Some v"
  shows "parse_json (json_text (generic v)) = Some (jval_of (generic v))"
  using assms parse_json_text generic_printable parse_json_wellread by blast

lemma canonical_text_idem: "canonical_text s = Some t \<Longrightarrow> canonical_text t = Some t"
  using canonical_text_parse generic_again parse_json_wellread by (fastforce simp: canonical_text_def)

lemma canonicalJSON_printable:
  "printable maxNestingDepth j \<Longrightarrow> canonicalJSON j = Some (json_text (generic (jval_of j)))"
  by (simp add: canonicalJSON_def canonical_text_def parse_json_text)

lemma json_text_inject:
  assumes "json_text j = json_text j'" "printable maxNestingDepth j" "printable maxNestingDepth j'"
  shows "jval_of j = jval_of j'"
  using parse_json_text [OF assms(2)] parse_json_text [OF assms(3)] assms(1) by simp

section \<open>Decoding into Go values\<close>

text \<open>\<open>json.Unmarshal\<close> into a Go \<open>int\<close> and into a string.\<close>

definition parse_int64 :: "string \<Rightarrow> int option" where
  "parse_int64 s =
     (let negative = has_prefix ''-'' s;
          ds = (if negative then drop 1 s else s);
          n = (if negative then - int (digits_value ds) else int (digits_value ds))
      in if ds = [] \<or> \<not> list_all is_digit ds \<or> \<not> in_int64 n then None else Some n)"

definition decode_int :: "jval option \<Rightarrow> int option" where
  "decode_int v = (case v of Some (VNum n) \<Rightarrow> parse_int64 n | _ \<Rightarrow> None)"

definition decode_string :: "jval option \<Rightarrow> string option" where
  "decode_string v = (case v of Some (VStr raw s) \<Rightarrow> Some s | _ \<Rightarrow> None)"

lemma parse_int64_text [simp]: "in_int64 i \<Longrightarrow> parse_int64 (int_text i) = Some i"
proof -
  have "\<not> has_prefix ''-'' (decimal n)" for n
    using decimal_digits [of n] by (cases "decimal n") (auto simp: has_prefix_def is_digit_def in_range_def)
  then show "in_int64 i \<Longrightarrow> ?thesis"
    by (auto simp: parse_int64_def int_text_def Let_def has_prefix_def)
qed

definition plain_text :: "string \<Rightarrow> bool" where
  "plain_text s \<longleftrightarrow> list_all (\<lambda>c. ascii c \<and> escape_ascii c = [c]) s"

lemma plain_text_simps [simp]:
  "plain_text []" "plain_text (c # s) \<longleftrightarrow> (ascii c \<and> escape_ascii c = [c]) \<and> plain_text s"
  by (simp_all add: plain_text_def)

lemma to_valid_plain: "plain_text s \<Longrightarrow> to_valid s = s"
  by (induction s) (simp_all add: to_valid_def encode_rune_def)

lemma escape_plain: "plain_text s \<Longrightarrow> escape s = s"
  by (induction s) (simp_all add: ascii_def)

lemma length_quoted: "plain_text s \<Longrightarrow> length (quoted s) = length s + 2"
  by (simp add: quoted_def escape_plain)

lemma plain_hash: "ValidateContentHash h = None \<Longrightarrow> plain_text h \<and> length h = 71"
proof -
  assume "ValidateContentHash h = None"
  then obtain x where h: "h = ''sha256:'' @ x" "length x = 64" "list_all is_lower_hex x"
    by (auto simp: ValidateContentHash_iff)
  have "plain_text ''sha256:''" by code_simp
  moreover have "ascii c \<and> escape_ascii c = [c]" if "is_lower_hex c" for c
    using that by (auto simp: ascii_def escape_ascii_def Let_def is_lower_hex_def is_digit_def in_range_def less_eq_char_def)
  then have "plain_text x" using h(3) by (auto simp: plain_text_def list_all_iff)
  ultimately show ?thesis using h(1,2) by (simp add: plain_text_def)
qed

text \<open>Values whose strings need no escape.\<close>

fun plain_json :: "json \<Rightarrow> bool" where
  "plain_json (JStr s) \<longleftrightarrow> plain_text s"
| "plain_json (JRaw s) \<longleftrightarrow> list_all ascii s"
| "plain_json (JArr xs) \<longleftrightarrow> (\<forall>x \<in> set xs. plain_json x)"
| "plain_json (JObj fs) \<longleftrightarrow> (\<forall>(k, v) \<in> set fs. plain_text k \<and> plain_json v)"
| "plain_json _ \<longleftrightarrow> True"

lemma ascii_comma_separated: "\<forall>x \<in> set xs. list_all ascii x \<Longrightarrow> list_all ascii (comma_separated xs)"
  by (induction xs rule: comma_separated.induct) (auto simp: ascii_def)

lemma ascii_quoted: "plain_text s \<Longrightarrow> list_all ascii (quoted s)"
  by (simp add: quoted_def escape_plain) (auto simp: plain_text_def list_all_iff ascii_def)

lemma ascii_int_text: "list_all ascii (int_text i)"
proof -
  have "ascii c" if "is_digit c" for c using that by (simp add: ascii_def is_digit_def in_range_def less_eq_char_def)
  then have "list_all ascii (decimal n)" for n using decimal_digits [of n] by (auto simp: list_all_iff)
  then show ?thesis by (simp add: int_text_def ascii_def)
qed

lemma ascii_json_text: "plain_json j \<Longrightarrow> list_all ascii (json_text j)"
proof (induction j rule: json_text.induct)
  case (6 xs)
  then have "list_all ascii (comma_separated (map json_text xs))" by (intro ascii_comma_separated) auto
  moreover have "ascii (CHR ''['')" "ascii (CHR '']'')" "ascii (CHR 0x7B)" "ascii (CHR 0x7D)" by (simp_all add: ascii_def)
  ultimately show ?case by simp
next
  case (7 fs)
  then have "list_all ascii (comma_separated (map (\<lambda>(k, v). quoted k @ CHR '':'' # json_text v) fs))"
    by (intro ascii_comma_separated) (fastforce simp: ascii_quoted ascii_def [of "CHR '':''"])
  moreover have "ascii (CHR ''['')" "ascii (CHR '']'')" "ascii (CHR 0x7B)" "ascii (CHR 0x7D)" by (simp_all add: ascii_def)
  ultimately show ?case by simp
qed (auto simp: ascii_quoted ascii_int_text ascii_def)

end
