(* ===== verification/CalibrationStore.thy ===== *)
theory CalibrationStore
  imports Budget JsonRead
begin

text \<open>
  How calibrations are kept between preparations: the file of a runtime scope
  (\<open>src/cli/internal/adapters/storage/agent_input_calibration.go\<close>) and the reader that adds stored feedback to the capability of a runtime
  (\<open>src/cli/internal/app/agent_input_calibration.go\<close>). The disk is a map from relative paths to the bytes of regular files; the
  mutation lock makes a merge one step. Cancellation and failing system calls are outside the model.
\<close>

section \<open>Records\<close>

type_synonym disk = "string \<Rightarrow> string option"

definition maxAgentInputCalibrationBytes :: nat where "maxAgentInputCalibrationBytes = 4096"

definition hexOf :: "string \<Rightarrow> string" where
  "hexOf h = (if has_prefix ''sha256:'' h then drop (length ''sha256:'') h else h)"

definition agentInputCalibrationRelative :: "string \<Rightarrow> string" where
  "agentInputCalibrationRelative scope = ''.cxt/agent-input-calibrations/'' @ hexOf scope @ ''.json''"

definition calibration_fields :: "AgentInputCalibration \<Rightarrow> (string \<times> json) list" where
  "calibration_fields c =
     [(''scope'', JStr (ic_Scope c)), (''overhead_tokens'', JInt (ic_OverheadTokens c)),
      (''input_ceiling_tokens'', JInt (ic_InputCeilingTokens c))]"

definition calibration_checksum :: "AgentInputCalibration \<Rightarrow> string" where
  "calibration_checksum c = HashContent (json_text (JObj (calibration_fields c)))"

definition agentInputCalibrationRecord :: "AgentInputCalibration \<Rightarrow> json" where
  "agentInputCalibrationRecord c =
     JObj ((''version'', JInt 1) # calibration_fields c @ [(''checksum'', JStr (calibration_checksum c))])"

definition calibration_keys :: "string list" where
  "calibration_keys = [''version'', ''scope'', ''overhead_tokens'', ''input_ceiling_tokens'', ''checksum'']"

definition record_shape :: "(string \<times> jval) list \<Rightarrow> bool" where
  "record_shape fs \<longleftrightarrow>
     distinct (map fst fs) \<and> list_all (\<lambda>(k, v). k \<in> set calibration_keys \<and> v \<noteq> VNull) fs \<and> length fs = 5"

definition decodeAgentInputCalibration :: "string \<Rightarrow> string \<Rightarrow> AgentInputCalibration result" where
  "decodeAgentInputCalibration raw scope =
     (if maxAgentInputCalibrationBytes < length raw then Inl ErrHashMismatch
      else case parse_json raw of
        Some (VObj fs) \<Rightarrow>
          if \<not> record_shape fs then Inl ErrHashMismatch
          else (case (decode_int (map_of fs ''version''), decode_string (map_of fs ''scope''), decode_int (map_of fs ''overhead_tokens''),
                      decode_int (map_of fs ''input_ceiling_tokens''), decode_string (map_of fs ''checksum'')) of
                  (Some version, Some sc, Some overhead, Some ceiling, Some checksum) \<Rightarrow>
                    (let c = \<lparr>ic_Scope = sc, ic_OverheadTokens = overhead, ic_InputCeilingTokens = ceiling\<rparr> in
                     if version \<noteq> 1 \<or> ValidateCalibration c scope \<noteq> None \<or> checksum \<noteq> calibration_checksum c
                     then Inl ErrHashMismatch else Inr c)
                | _ \<Rightarrow> Inl ErrHashMismatch)
      | _ \<Rightarrow> Inl ErrHashMismatch)"

section \<open>The file store\<close>

definition ReadAgentInputCalibration :: "disk \<Rightarrow> string \<Rightarrow> AgentInputCalibration result" where
  "ReadAgentInputCalibration files scope =
     (let zero = \<lparr>ic_Scope = scope, ic_OverheadTokens = 0, ic_InputCeilingTokens = 0\<rparr> in
      check_then (ValidateCalibration zero scope)
        (case files (agentInputCalibrationRelative scope) of
           None \<Rightarrow> Inr zero
         | Some raw \<Rightarrow> decodeAgentInputCalibration raw scope))"

definition MergeAgentInputCalibration :: "disk \<Rightarrow> AgentInputCalibration \<Rightarrow> (AgentInputCalibration \<times> disk) result" where
  "MergeAgentInputCalibration files ob =
     check_then (ValidateCalibration ob (ic_Scope ob))
       (bind_r (ReadAgentInputCalibration files (ic_Scope ob)) (\<lambda>current.
        bind_r (MergeCalibration current ob) (\<lambda>merged.
        Inr (merged, files(agentInputCalibrationRelative (ic_Scope ob) \<mapsto> json_text (agentInputCalibrationRecord merged))))))"

section \<open>Measured capabilities\<close>

text \<open>The runtime and the observations are ports, which may be nil.\<close>

definition AgentCapability ::
  "(string \<Rightarrow> string \<Rightarrow> AgentHostCapability result) option \<Rightarrow> (string \<Rightarrow> AgentInputCalibration result) option \<Rightarrow>
   string \<Rightarrow> string \<Rightarrow> AgentHostCapability result" where
  "AgentCapability runtime observations provider model =
     (case runtime of
        None \<Rightarrow> Inl ErrProviderCapabilityUnknown
      | Some read \<Rightarrow>
          bind_r (read provider model) (\<lambda>c.
          let policy = hc_InputAccountingPolicy c in
          if policy = NativeEstimateReserveV1 \<or> policy = CatalogEstimateReserveV1 then
            if hc_Calibration c \<noteq> no_calibration then Inl ErrProviderCapabilityUnknown else Inr c
          else if policy \<noteq> [] \<and> policy \<noteq> MeasuredInputReserveV1 then Inl ErrProviderCapabilityUnknown
          else let c' = c\<lparr>hc_InputAccountingPolicy := MeasuredInputReserveV1\<rparr> in
            bind_r (CalibrationScope c') (\<lambda>scope.
            bind_r (case observations of
                      None \<Rightarrow> Inr \<lparr>ic_Scope = scope, ic_OverheadTokens = 0, ic_InputCeilingTokens = 0\<rparr>
                    | Some stored \<Rightarrow> stored scope) (\<lambda>k.
            check_then (ValidateCalibration k scope) (Inr (c'\<lparr>hc_Calibration := k\<rparr>))))))"

section \<open>Records are read back\<close>

lemma plain_keys: "k \<in> set calibration_keys \<Longrightarrow> plain_text k"
proof -
  have "list_all plain_text calibration_keys" by code_simp
  then show "k \<in> set calibration_keys \<Longrightarrow> ?thesis" by (simp add: list_all_iff)
qed

lemma length_int_text: "in_int64 i \<Longrightarrow> length (int_text i) \<le> 20"
proof -
  assume "in_int64 i"
  then have "nat i < 10 ^ 19" "nat (- i) < 10 ^ 19" by (simp_all add: in_int64_def) linarith+
  then show ?thesis
    using length_decimal [of "nat i" 19] length_decimal [of "nat (- i)" 19] by (simp add: int_text_def)
qed

lemma checksum_plain: "plain_text (calibration_checksum c)" "length (calibration_checksum c) = 71"
  using plain_hash [OF HashContent_valid] by (simp_all add: calibration_checksum_def)

lemma record_length:
  assumes "ValidateContentHash (ic_Scope c) = None" "calibration_int64 c"
  shows "length (json_text (agentInputCalibrationRecord c)) \<le> maxAgentInputCalibrationBytes"
proof -
  have keys: "length (quoted k) = length k + 2" if "k \<in> set calibration_keys" for k
    using that by (simp add: length_quoted plain_keys)
  note keys = keys [of "''version''"] keys [of "''scope''"] keys [of "''overhead_tokens''"]
    keys [of "''input_ceiling_tokens''"] keys [of "''checksum''"]
  have "length (int_text 1) \<le> 20" "length (int_text (ic_OverheadTokens c)) \<le> 20" "length (int_text (ic_InputCeilingTokens c)) \<le> 20"
    using assms(2) by (auto simp: calibration_int64_def in_int64_def intro!: length_int_text)
  then show ?thesis
    using keys length_quoted [OF checksum_plain(1), of c] checksum_plain(2) [of c] plain_hash [OF assms(1)] length_quoted [of "ic_Scope c"]
    by (simp add: agentInputCalibrationRecord_def calibration_fields_def calibration_keys_def maxAgentInputCalibrationBytes_def)
qed

lemma record_parsed:
  assumes "ValidateContentHash (ic_Scope c) = None"
  shows "parse_json (json_text (agentInputCalibrationRecord c)) = Some (VObj
     [(''version'', VNum (int_text 1)), (''scope'', VStr (ic_Scope c) (ic_Scope c)), (''overhead_tokens'', VNum (int_text (ic_OverheadTokens c))),
      (''input_ceiling_tokens'', VNum (int_text (ic_InputCeilingTokens c))), (''checksum'', VStr (calibration_checksum c) (calibration_checksum c))])"
proof -
  have "printable maxNestingDepth (agentInputCalibrationRecord c)"
    by (simp add: agentInputCalibrationRecord_def calibration_fields_def maxNestingDepth_def)
  moreover have "to_valid k = k" if "k \<in> set calibration_keys" for k
    using that by (simp add: to_valid_plain plain_keys)
  ultimately show ?thesis
    using plain_hash [OF assms] checksum_plain [of c]
    by (simp add: parse_json_text) (simp add: agentInputCalibrationRecord_def calibration_fields_def calibration_keys_def
      to_valid_plain escape_plain)
qed

lemma record_decoded:
  assumes "calibration_ok c" "calibration_int64 c"
  shows "decodeAgentInputCalibration (json_text (agentInputCalibrationRecord c)) (ic_Scope c) = Inr c"
proof -
  have valid: "ValidateContentHash (ic_Scope c) = None"
    using assms(1) by (simp add: calibration_ok_def ValidateCalibration_def)
  have eta: "\<lparr>ic_Scope = ic_Scope c, ic_OverheadTokens = ic_OverheadTokens c, ic_InputCeilingTokens = ic_InputCeilingTokens c\<rparr> = c"
    by simp
  have "in_int64 1" by (simp add: in_int64_def)
  then show ?thesis
    using record_length [OF valid assms(2)] assms
    by (simp add: eta decodeAgentInputCalibration_def record_parsed [OF valid] record_shape_def calibration_keys_def decode_int_def
      decode_string_def calibration_int64_def calibration_ok_def Let_def)
qed

section \<open>The interface of a calibration store\<close>

definition run_merges :: "('s \<Rightarrow> AgentInputCalibration \<Rightarrow> (AgentInputCalibration \<times> 's) result) \<Rightarrow> AgentInputCalibration list \<Rightarrow> 's \<Rightarrow> 's" where
  "run_merges mg obs s = fold (\<lambda>ob s. case mg s ob of Inl e \<Rightarrow> s | Inr (c, s') \<Rightarrow> s') obs s"

text \<open>
  What \<open>outbound.AgentInputCalibrationStore\<close> promises: a read calibration is bound to its scope; a merge absorbs the observation
  into what was stored for its scope, leaves every other scope alone, and succeeds on every valid observation.
\<close>

locale calibration_store =
  fixes rd :: "'s \<Rightarrow> string \<Rightarrow> AgentInputCalibration result"
    and mg :: "'s \<Rightarrow> AgentInputCalibration \<Rightarrow> (AgentInputCalibration \<times> 's) result"
    and intact :: "'s \<Rightarrow> bool"
  assumes merge_total: "intact s \<Longrightarrow> calibration_ok ob \<Longrightarrow> calibration_int64 ob \<Longrightarrow> \<exists>c s'. mg s ob = Inr (c, s')"
    and merge_stored: "intact s \<Longrightarrow> calibration_int64 ob \<Longrightarrow> mg s ob = Inr (c, s') \<Longrightarrow>
      intact s' \<and> bind_r (rd s (ic_Scope ob)) (\<lambda>old. MergeCalibration old ob) = Inr c \<and> rd s' (ic_Scope ob) = Inr c"
    and merge_frame: "intact s \<Longrightarrow> mg s ob = Inr (c, s') \<Longrightarrow> scope \<noteq> ic_Scope ob \<Longrightarrow> rd s' scope = rd s scope"
begin

lemma run_Cons:
  assumes "intact s" "calibration_ok ob" "calibration_int64 ob"
  obtains c s' where "mg s ob = Inr (c, s')" "intact s'" "run_merges mg (ob # obs) s = run_merges mg obs s'"
  using merge_total [OF assms] merge_stored [OF assms(1,3)] by (auto simp: run_merges_def)

lemma run_reads:
  assumes "intact s" "list_all (\<lambda>ob. calibration_ok ob \<and> calibration_int64 ob) obs" "rd s scope = Inr c"
  shows "intact (run_merges mg obs s) \<and> rd (run_merges mg obs s) scope = merge_all c (filter (\<lambda>ob. ic_Scope ob = scope) obs)"
  using assms
proof (induction obs arbitrary: s c)
  case Nil
  then show ?case by (simp add: run_merges_def merge_all_def)
next
  case (Cons ob obs)
  then obtain k s' where s': "mg s ob = Inr (k, s')" "intact s'" "run_merges mg (ob # obs) s = run_merges mg obs s'"
    using run_Cons by (metis list.pred_inject(2))
  show ?case
  proof (cases "ic_Scope ob = scope")
    case True
    then have "MergeCalibration c ob = Inr k" "rd s' scope = Inr k"
      using merge_stored [OF Cons.prems(1) _ s'(1)] Cons.prems by auto
    with True s' Cons show ?thesis by (simp add: merge_all_def)
  next
    case False
    then have "rd s' scope = Inr c"
      using merge_frame [OF Cons.prems(1) s'(1)] Cons.prems(3) by metis
    with False s' Cons show ?thesis by simp
  qed
qed

end

section \<open>The file store keeps the contract\<close>

definition intact_disk :: "disk \<Rightarrow> bool" where
  "intact_disk files \<longleftrightarrow> (\<forall>scope. ValidateContentHash scope = None \<longrightarrow>
     (\<exists>c. ReadAgentInputCalibration files scope = Inr c \<and> calibration_int64 c))"

lemma relative_inject:
  "ValidateContentHash a = None \<Longrightarrow> ValidateContentHash b = None \<Longrightarrow>
   agentInputCalibrationRelative a = agentInputCalibrationRelative b \<Longrightarrow> a = b"
  by (auto simp: ValidateContentHash_iff agentInputCalibrationRelative_def hexOf_def has_prefix_def)

lemma Read_valid: "ReadAgentInputCalibration files scope = Inr c \<Longrightarrow> ValidateCalibration c scope = None"
  by (auto simp: ReadAgentInputCalibration_def decodeAgentInputCalibration_def Let_def
    split: option.splits if_splits jval.splits prod.splits)

lemma MergeCalibration_int64:
  "MergeCalibration c d = Inr k \<Longrightarrow> calibration_int64 c \<Longrightarrow> calibration_int64 d \<Longrightarrow> calibration_int64 k"
  by (auto simp: MergeCalibration_eq calibration_int64_def tighter_def max_def split: if_splits)

lemma MergeCalibration_ok: "MergeCalibration c d = Inr k \<Longrightarrow> calibration_ok k \<and> ic_Scope k = ic_Scope d"
  using calibration_ok_merged [of c d "ic_Scope c"] by (auto simp: MergeCalibration_eq split: if_splits)

lemma calibration_ok_scope: "calibration_ok c \<Longrightarrow> ValidateContentHash (ic_Scope c) = None"
  by (simp add: calibration_ok_def ValidateCalibration_def)

lemma Merge_file:
  assumes "MergeAgentInputCalibration files ob = Inr (c, files')"
  shows "\<exists>old. ReadAgentInputCalibration files (ic_Scope ob) = Inr old \<and> MergeCalibration old ob = Inr c \<and> calibration_ok ob \<and>
    files' = files(agentInputCalibrationRelative (ic_Scope ob) \<mapsto> json_text (agentInputCalibrationRecord c))"
  using assms by (auto simp: MergeAgentInputCalibration_def calibration_ok_def)

lemma Read_frame:
  assumes "scope \<noteq> scope'" "ValidateContentHash scope' = None"
  shows "ReadAgentInputCalibration (files(agentInputCalibrationRelative scope' \<mapsto> raw)) scope = ReadAgentInputCalibration files scope"
proof (cases "ValidateContentHash scope = None")
  case True
  then have "agentInputCalibrationRelative scope \<noteq> agentInputCalibrationRelative scope'"
    using relative_inject assms by blast
  then show ?thesis by (simp add: ReadAgentInputCalibration_def)
qed (simp add: ReadAgentInputCalibration_def ValidateCalibration_def Let_def)

interpretation files: calibration_store ReadAgentInputCalibration MergeAgentInputCalibration intact_disk
proof
  fix files ob
  assume "intact_disk files" "calibration_ok ob" "calibration_int64 ob"
  moreover from this have "ValidateContentHash (ic_Scope ob) = None"
    by (simp add: calibration_ok_def ValidateCalibration_def)
  ultimately obtain old where old: "ReadAgentInputCalibration files (ic_Scope ob) = Inr old"
    by (auto simp: intact_disk_def)
  then have "MergeCalibration old ob \<noteq> Inl e" for e
    using Read_valid [OF old] \<open>calibration_ok ob\<close>
    by (auto simp: MergeCalibration_eq calibration_ok_def ValidateCalibration_def)
  then show "\<exists>c files'. MergeAgentInputCalibration files ob = Inr (c, files')"
    using old \<open>calibration_ok ob\<close>
    by (cases "MergeCalibration old ob") (auto simp: MergeAgentInputCalibration_def calibration_ok_def)
next
  fix files ob c files'
  assume "intact_disk files" "calibration_int64 ob" "MergeAgentInputCalibration files ob = Inr (c, files')"
  moreover from Merge_file [OF this(3)] obtain old where old: "ReadAgentInputCalibration files (ic_Scope ob) = Inr old"
      "MergeCalibration old ob = Inr c" "calibration_ok ob"
      and files': "files' = files(agentInputCalibrationRelative (ic_Scope ob) \<mapsto> json_text (agentInputCalibrationRecord c))" by blast
  ultimately have "\<exists>k. ReadAgentInputCalibration files (ic_Scope ob) = Inr k \<and> calibration_int64 k"
    using calibration_ok_scope unfolding intact_disk_def by blast
  then have "calibration_int64 old" using old(1) by simp
  then have "calibration_int64 c"
    using MergeCalibration_int64 old(2) \<open>calibration_int64 ob\<close> by blast
  moreover have c: "calibration_ok c" "ic_Scope c = ic_Scope ob" using MergeCalibration_ok [OF old(2)] by simp_all
  ultimately have read: "ReadAgentInputCalibration files' (ic_Scope ob) = Inr c"
    using record_decoded [of c] by (simp add: ReadAgentInputCalibration_def files' calibration_ok_def ValidateCalibration_def Let_def)
  have "ReadAgentInputCalibration files' scope = ReadAgentInputCalibration files scope" if "scope \<noteq> ic_Scope ob" for scope
    unfolding files' using old(3) that by (intro Read_frame) (auto simp: calibration_ok_def ValidateCalibration_def)
  then have "intact_disk files'"
    using \<open>intact_disk files\<close> read \<open>calibration_int64 c\<close> unfolding intact_disk_def by metis
  then show "intact_disk files' \<and> bind_r (ReadAgentInputCalibration files (ic_Scope ob)) (\<lambda>old. MergeCalibration old ob) = Inr c \<and>
      ReadAgentInputCalibration files' (ic_Scope ob) = Inr c"
    using old read by simp
next
  fix files ob c files' scope
  assume merged: "MergeAgentInputCalibration files ob = Inr (c, files')" and scope: "scope \<noteq> ic_Scope ob"
  from Merge_file [OF merged] show "ReadAgentInputCalibration files' scope = ReadAgentInputCalibration files scope"
    using Read_frame [OF scope] by (auto simp: calibration_ok_def ValidateCalibration_def)
qed

lemma merge_all_snoc: "merge_all c (obs @ [ob]) = bind_r (merge_all c obs) (\<lambda>c. MergeCalibration c ob)"
  by (simp add: merge_all_def)

lemma recorded_feedback:
  assumes "intact_disk files" "list_all (\<lambda>ob. calibration_ok ob \<and> calibration_int64 ob) obs" "set obs' = set obs"
    and "ValidateContentHash scope = None"
  shows "\<exists>c. ReadAgentInputCalibration (run_merges MergeAgentInputCalibration obs files) scope = Inr c \<and>
    ReadAgentInputCalibration (run_merges MergeAgentInputCalibration obs' files) scope = Inr c \<and>
    ValidateCalibration c scope = None \<and> (\<forall>ob \<in> set obs. ic_Scope ob = scope \<longrightarrow> MergeCalibration c ob = Inr c)"
proof -
  obtain old where old: "ReadAgentInputCalibration files scope = Inr old"
    using assms(1,4) by (auto simp: intact_disk_def)
  have obs': "list_all (\<lambda>ob. calibration_ok ob \<and> calibration_int64 ob) obs'"
    using assms(2,3) by (simp add: list_all_iff)
  let ?at = "filter (\<lambda>ob. ic_Scope ob = scope)"
  note reads = files.run_reads [OF assms(1) _ old]
  obtain c where c: "ReadAgentInputCalibration (run_merges MergeAgentInputCalibration obs files) scope = Inr c"
    using reads [OF assms(2), THEN conjunct1] assms(4) unfolding intact_disk_def by blast
  have merged: "merge_all old (?at obs) = Inr c" using reads [OF assms(2)] c by simp
  moreover have "merge_all old (?at obs') = merge_all old (?at obs)"
    using assms(3) by (intro merge_all_order_independent) simp
  moreover have "MergeCalibration c ob = Inr c" if "ob \<in> set obs" "ic_Scope ob = scope" for ob
  proof -
    have "merge_all old (?at obs @ [ob]) = merge_all old (?at obs)"
      using that by (intro merge_all_order_independent) auto
    then show ?thesis using merged by (simp add: merge_all_snoc)
  qed
  ultimately show ?thesis
    using c reads [OF obs'] Read_valid [OF c] by auto
qed


lemma empty_disk_intact: "intact_disk (\<lambda>_. None)"
  by (auto simp: intact_disk_def ReadAgentInputCalibration_def ValidateCalibration_def calibration_int64_def in_int64_def Let_def)


section \<open>A failed limit is not tried again\<close>

lemma Merge_absorbed:
  assumes "MergeCalibration c ob = Inr c" "0 < ic_InputCeilingTokens ob"
  shows "0 < ic_InputCeilingTokens c \<and> ic_InputCeilingTokens c \<le> ic_InputCeilingTokens ob"
proof -
  have "calibration_ok c" "ic_InputCeilingTokens c = tighter (ic_InputCeilingTokens c) (ic_InputCeilingTokens ob)"
    using assms(1) by (auto simp: MergeCalibration_eq split: if_splits dest: arg_cong [of _ _ ic_InputCeilingTokens])
  then show ?thesis
    using assms(2) calibration_ok_ceiling [of c] by (auto simp: tighter_def split: if_splits)
qed

lemma AgentCapability_measured:
  assumes "AgentCapability (Some runtime) (Some stored) provider model = Inr c" "CalibrationScope c = Inr scope"
  shows "hc_InputAccountingPolicy c = MeasuredInputReserveV1 \<and> stored scope = Inr (hc_Calibration c)"
proof -
  have scope: "CalibrationScope (c'\<lparr>hc_Calibration := k\<rparr>) = CalibrationScope c'" for c' k
    by (simp add: CalibrationScope_def hasWindowEstimate_def)
  obtain c0 where c0: "runtime provider model = Inr c0"
    using assms(1) by (auto simp: AgentCapability_def)
  define c1 where "c1 = c0\<lparr>hc_InputAccountingPolicy := MeasuredInputReserveV1\<rparr>"
  show ?thesis
  proof (cases "hc_InputAccountingPolicy c0 = NativeEstimateReserveV1 \<or> hc_InputAccountingPolicy c0 = CatalogEstimateReserveV1")
    case True
    then have "c = c0" using assms(1) c0 by (auto simp: AgentCapability_def Let_def split: if_splits)
    then show ?thesis using True assms(2) by (auto simp: CalibrationScope_def)
  next
    case False
    then have "bind_r (CalibrationScope c1) (\<lambda>scope. bind_r (stored scope) (\<lambda>k.
        check_then (ValidateCalibration k scope) (Inr (c1\<lparr>hc_Calibration := k\<rparr>)))) = Inr c"
      using assms(1) c0 unfolding c1_def by (simp add: AgentCapability_def Let_def split: if_split_asm)
    then obtain sc k where "CalibrationScope c1 = Inr sc" "stored sc = Inr k" "c = c1\<lparr>hc_Calibration := k\<rparr>" by auto
    then show ?thesis using assms(2) by (simp add: scope) (simp add: c1_def)
  qed
qed

lemma ResolveBudget_ceiling:
  assumes "ResolveBudget rfc3339 c provider model requested counter = Inr b" "capability_int64 c"
    and "hc_InputAccountingPolicy c = MeasuredInputReserveV1" "0 < ic_InputCeilingTokens (hc_Calibration c)"
  shows "ab_InitialInputLimit b \<le> ic_InputCeilingTokens (hc_Calibration c)"
proof -
  note resolved = ResolveBudget_Inr [THEN iffD1, OF assms(1)]
  have "capability_evidence c provider model" "hc_ReservedTokens c \<le> hc_ContextWindow c" using resolved by blast+
  then have "fst (input_limit c) \<le> ic_InputCeilingTokens (hc_Calibration c)"
    using input_limit_bounds [OF assms(2)] assms(3,4) by (simp add: capability_evidence_def)
  moreover obtain a av where "b = resolved_budget c provider model requested a av" using resolved by blast
  ultimately show ?thesis by (simp add: resolved_budget_def Let_def)
qed

lemma sample_feedback_ok: "calibration_ok sample_feedback" "calibration_int64 sample_feedback"
  using ObserveInput_facts [OF sample_observed sample_measured_int64] by simp_all

definition sample_disk :: disk where
  "sample_disk = run_merges MergeAgentInputCalibration [sample_feedback] (\<lambda>_. None)"

lemma sample_disk_reads: "ReadAgentInputCalibration sample_disk (ic_Scope sample_feedback) = Inr sample_feedback"
proof -
  let ?zero = "\<lparr>ic_Scope = ic_Scope sample_feedback, ic_OverheadTokens = 0, ic_InputCeilingTokens = 0\<rparr>"
  have "ReadAgentInputCalibration (\<lambda>_. None) (ic_Scope sample_feedback) = Inr ?zero"
    using calibration_ok_scope [OF sample_feedback_ok(1)]
    by (simp add: ReadAgentInputCalibration_def ValidateCalibration_def Let_def)
  moreover have "MergeCalibration ?zero sample_feedback = Inr sample_feedback"
    using calibration_ok_scope [OF sample_feedback_ok(1)]
    by (intro Merge_absorbs) (simp_all add: calibration_ok_def ValidateCalibration_def sample_feedback_def)
  ultimately show ?thesis
    using files.run_reads [OF empty_disk_intact, of "[sample_feedback]"] sample_feedback_ok
    by (simp add: sample_disk_def merge_all_def)
qed

definition sample_next :: AgentHostCapability where
  "sample_next = sample_measured\<lparr>hc_Calibration := sample_feedback\<rparr>"

lemma sample_next_scope: "CalibrationScope sample_next = Inr (ic_Scope sample_feedback)"
  using sample_measured_scope(1)
  by (simp add: sample_next_def sample_feedback_def CalibrationScope_def hasWindowEstimate_def split: if_splits)

lemma sample_next_capability:
  "AgentCapability (Some (\<lambda>_ _. Inr sample_measured)) (Some (ReadAgentInputCalibration sample_disk)) ''codex'' ''m'' = Inr sample_next"
proof -
  have same: "sample_measured\<lparr>hc_InputAccountingPolicy := MeasuredInputReserveV1\<rparr> = sample_measured"
    by (simp add: sample_measured_def Let_def)
  have "CalibrationScope sample_measured = Inr (ic_Scope sample_feedback)"
    by (simp add: sample_measured_scope sample_feedback_def)
  moreover have "ValidateCalibration sample_feedback (ic_Scope sample_feedback) = None"
    using sample_feedback_ok by (simp add: calibration_ok_def)
  ultimately show ?thesis
    by (simp add: AgentCapability_def Let_def same sample_disk_reads sample_next_def)
qed

lemma sample_next_resolves:
  "ResolveBudget rfc3339 sample_next ''codex'' ''m'' 800000 sample_usage = Inr (resolved_budget sample_next ''codex'' ''m'' 800000 20000 230000)"
proof -
  have fields: "hc_InputAccountingPolicy sample_next = MeasuredInputReserveV1" "hc_ContextWindow sample_next = 400000"
      "hc_HostInputTokens sample_next = 20000" "hc_FramingTokens sample_next = 1000" "hc_HostInputKnown sample_next"
      "hc_AutoCompactKnown sample_next" "hc_AutoCompactTokens sample_next = 0" "hc_ReservedTokens sample_next = 100000"
      "hc_InitialPromptTokens sample_next = 500" "hc_BaselineInputEstimateTokens sample_next = 0"
      "hc_BaselineInputMeasurement sample_next = []" "hc_FramingAllowanceTokens sample_next = 0"
      "hc_Calibration sample_next = sample_feedback" "hc_Tokenizer sample_next = ''o200k''" "\<not> hasWindowEstimate sample_next"
      "ic_OverheadTokens sample_feedback = 0" "ic_InputCeilingTokens sample_feedback = 271500"
    by (simp_all add: sample_next_def sample_feedback_def) (simp add: sample_measured_def sample_capability_def Let_def hasWindowEstimate_def)
  have "capability_evidence sample_next ''codex'' ''m''"
    using sample_measured_evidence by (simp add: capability_evidence_def sample_next_def)
  moreover have "input_allowance rfc3339 sample_next = Inr 20000"
    using sample_feedback_ok(1)
    by (simp add: input_allowance_def measured_allowance_def sample_next_scope fields margin_400000 int64_def calibration_ok_def)
  moreover have "fst (input_limit sample_next) = 271500"
    by (simp add: input_limit_def lower_limit_def sdiv_nonneg smod_nonneg int64_def fields)
  moreover have "package_capacity sample_next 271500 20000 = Inr 230000"
    by (simp add: package_capacity_def int64_def fields)
  moreover have "snd (ValidateAgentTokenAccounting MeasuredInputReserveV1 ''codex'' ''o200k'' sample_usage) = None"
    by code_simp
  moreover have "MaxAgentContextTokens = 800000" "0 \<le> tu_Tokens sample_usage" by code_simp+
  ultimately show ?thesis by (simp add: ResolveBudget_Inr fields)
qed

end
