(* ===== verification/Catalog.thy ===== *)
theory Catalog
  imports JsonRead Staging
begin

text \<open>
  Catalog synchronisation: entries, requests, pages and the manifest of a complete image (\<open>catalog.go\<close>, \<open>catalog_decode.go\<close>,
  \<open>catalog_validate.go\<close>, \<open>snapshot_state.go\<close>) and the image a client completes from a run of pages
  (\<open>src/cli/internal/adapters/backendclient/catalog_delta.go\<close>). The value of an entry is its JSON text; it is decoded by the strict decoder,
  whose reflection over Go types is a check against a \<open>schema\<close>. What \<open>time.Time\<close> makes of a time
  text is the argument \<open>stamps\<close>. All errors of this component wrap \<open>ErrHashMismatch\<close> or the reset error.
\<close>

section \<open>Data\<close>

definition CatalogVersion :: int where "CatalogVersion = 1"

definition DefaultCatalogLimit :: int where "DefaultCatalogLimit = 256"

definition MaxCatalogLimit :: int where "MaxCatalogLimit = 1000"

record CatalogCheckpoint =
  cp_Version :: int
  cp_RepoID :: string
  cp_Epoch :: string
  cp_Sequence :: int

record CatalogRequest =
  cr_Version :: int
  cr_After :: "CatalogCheckpoint option"
  cr_Cursor :: string
  cr_Limit :: int

record CatalogEntry =
  ce_Sequence :: int
  ce_Kind :: string
  ce_Key :: string
  ce_Deleted :: bool
  ce_Value :: string

record CatalogPage =
  pg_Version :: int
  pg_RepoID :: string
  pg_Epoch :: string
  pg_Through :: int
  pg_Mode :: string
  pg_Entries :: "CatalogEntry slice"
  pg_NextCursor :: string
  pg_Checkpoint :: "CatalogCheckpoint option"

record Manifest =
  mn_ContextProtocol :: int
  mn_RepoID :: string
  mn_Refs :: "Ref list"
  mn_SnapshotIndex :: "string list"
  mn_MemoryAttachments :: "(string \<times> string) list"
  mn_SnapshotStates :: "(string \<times> string) list"
  mn_Version :: int

definition catalogInvalid :: go_error where "catalogInvalid = ErrHashMismatch"

section \<open>Strict decoding\<close>

text \<open>The Go types of catalog values; pointers are looked through. A field of a struct has its JSON name and whether it is required.\<close>

datatype schema =
    SString
  | SBool
  | SInt
  | STime
  | SSlice schema
  | SStruct string "(string \<times> schema \<times> bool) list"

definition is_slice :: "schema \<Rightarrow> bool" where
  "is_slice t = (case t of SSlice _ \<Rightarrow> True | _ \<Rightarrow> False)"

lemma size_element: "x \<in> set xs \<Longrightarrow> size (x :: jval) < Suc (size_list size xs)"
  by (induction xs) auto

lemma size_member: "(k, x) \<in> set fs \<Longrightarrow> size (x :: jval) < Suc (size_list (size_prod (\<lambda>_. 0) size) fs)"
  by (induction fs) auto

text \<open>A collection of a snapshot may be null.\<close>

function catalogJSONShape :: "schema \<Rightarrow> jval \<Rightarrow> bool" where
  "catalogJSONShape SString v = (case v of VStr raw s \<Rightarrow> True | _ \<Rightarrow> False)"
| "catalogJSONShape STime v = (case v of VStr raw s \<Rightarrow> True | _ \<Rightarrow> False)"
| "catalogJSONShape SBool v = (case v of VBool b \<Rightarrow> True | _ \<Rightarrow> False)"
| "catalogJSONShape SInt v = (case v of VNum n \<Rightarrow> True | _ \<Rightarrow> False)"
| "catalogJSONShape (SSlice t) v = (case v of VArr xs \<Rightarrow> \<forall>x \<in> set xs. catalogJSONShape t x | _ \<Rightarrow> False)"
| "catalogJSONShape (SStruct name tags) v =
     (case v of
        VObj fs \<Rightarrow>
          distinct (map fst fs) \<and>
          (\<forall>(k, x) \<in> set fs.
             case map_of tags k of
               None \<Rightarrow> False
             | Some (t, required) \<Rightarrow> (name = ''Snapshot'' \<and> is_slice t \<and> x = VNull) \<or> catalogJSONShape t x) \<and>
          (\<forall>(k, t, required) \<in> set tags. required \<longrightarrow> k \<in> fst ` set fs)
      | _ \<Rightarrow> False)"
  by pat_completeness auto

termination
  by (relation "measure (\<lambda>(t, v). size v)") (auto intro: size_element size_member)

definition utf8_valid :: "string \<Rightarrow> bool" where
  "utf8_valid s \<longleftrightarrow> list_all (\<lambda>r. utf8_length r \<noteq> 0) (runes s)"

text \<open>\<open>decode\<close> stands for \<open>json.Unmarshal\<close> into the target type, on a value of the right shape.\<close>

definition decodeCatalogJSON :: "schema \<Rightarrow> (jval \<Rightarrow> 'a option) \<Rightarrow> string \<Rightarrow> 'a result" where
  "decodeCatalogJSON t decode raw =
     (if \<not> utf8_valid raw then Inl catalogInvalid
      else case parse_json raw of
        None \<Rightarrow> Inl catalogInvalid
      | Some v \<Rightarrow>
          if \<not> catalogJSONShape t v then Inl catalogInvalid
          else (case decode v of None \<Rightarrow> Inl catalogInvalid | Some x \<Rightarrow> Inr x))"

section \<open>Targets\<close>

fun members :: "jval \<Rightarrow> (string \<times> jval) list" where
  "members (VObj fs) = fs"
| "members _ = []"

definition get_string :: "jval \<Rightarrow> string \<Rightarrow> string" where
  "get_string v k = (case decode_string (map_of (members v) k) of Some s \<Rightarrow> s | None \<Rightarrow> [])"

definition get_bool :: "jval \<Rightarrow> string \<Rightarrow> bool" where
  "get_bool v k \<longleftrightarrow> map_of (members v) k = Some (VBool True)"

definition get_int :: "jval \<Rightarrow> string \<Rightarrow> int option" where
  "get_int v k = (case map_of (members v) k of None \<Rightarrow> Some 0 | Some x \<Rightarrow> decode_int (Some x))"

definition get_uint64 :: "jval \<Rightarrow> string \<Rightarrow> 64 word option" where
  "get_uint64 v k = (case map_of (members v) k of None \<Rightarrow> Some 0 | Some (VNum n) \<Rightarrow> parse_uint64 n | Some _ \<Rightarrow> None)"

definition strings_of :: "jval \<Rightarrow> string list option" where
  "strings_of v = (case v of VArr xs \<Rightarrow> those (map (\<lambda>x. decode_string (Some x)) xs) | _ \<Rightarrow> None)"

definition get_strings :: "jval \<Rightarrow> string \<Rightarrow> string slice" where
  "get_strings v k = (case map_of (members v) k of Some x \<Rightarrow> strings_of x | None \<Rightarrow> None)"

type_synonym time_text = "string \<Rightarrow> gtime option"

definition get_time :: "time_text \<Rightarrow> jval \<Rightarrow> string \<Rightarrow> gtime option" where
  "get_time stamps v k = (case map_of (members v) k of Some (VStr raw s) \<Rightarrow> stamps raw | _ \<Rightarrow> None)"

definition get_struct :: "(jval \<Rightarrow> 'a option) \<Rightarrow> jval \<Rightarrow> string \<Rightarrow> 'a option option" where
  "get_struct decode v k = (case map_of (members v) k of None \<Rightarrow> Some None | Some x \<Rightarrow> map_option Some (decode x))"

definition required :: "string \<Rightarrow> schema \<Rightarrow> string \<times> schema \<times> bool" where
  "required k t = (k, t, True)"

definition optional :: "string \<Rightarrow> schema \<Rightarrow> string \<times> schema \<times> bool" where
  "optional k t = (k, t, False)"

definition identity_schema :: schema where
  "identity_schema = SStruct ''TeamIdentity'' (map (\<lambda>k. required k SString) [''name'', ''email'', ''team''])"

definition snapshot_schema :: schema where
  "snapshot_schema = SStruct ''Snapshot''
     [required ''id'' SString, required ''repo_id'' SString, required ''branch'' SString, required ''parents'' (SSlice SString),
      required ''doc_hash'' SString, optional ''doc_identity'' SString, optional ''memory_hash'' SString,
      optional ''claude_settings'' SString, optional ''agents_settings'' SString, optional ''codex_settings'' SString,
      required ''provider'' SString, required ''fidelity'' SString, required ''message'' SString,
      required ''author'' identity_schema, required ''created_at'' STime, optional ''grafted'' SBool,
      optional ''graft_parents'' (SSlice SString), optional ''graft_seq'' SInt, optional ''session_id'' SString,
      optional ''models'' (SSlice SString), optional ''compaction_count'' SInt]"

definition decode_team :: "jval \<Rightarrow> TeamIdentity" where
  "decode_team v = \<lparr>ti_Name = get_string v ''name'', ti_Email = get_string v ''email'', ti_Team = get_string v ''team''\<rparr>"

definition decode_snapshot :: "time_text \<Rightarrow> jval \<Rightarrow> Snapshot option" where
  "decode_snapshot stamps v =
     (case (get_time stamps v ''created_at'', get_uint64 v ''graft_seq'', get_int v ''compaction_count'') of
        (Some created, Some seq, Some compactions) \<Rightarrow>
          if ValidateDocumentIdentity (get_string v ''doc_identity'') \<noteq> None then None
          else Some
            \<lparr>sn_ID = get_string v ''id'', sn_RepoID = get_string v ''repo_id'', sn_Branch = get_string v ''branch'',
             sn_Parents = get_strings v ''parents'', sn_DocHash = get_string v ''doc_hash'',
             sn_DocIdentity = get_string v ''doc_identity'', sn_MemoryHash = get_string v ''memory_hash'',
             sn_ClaudeSettings = get_string v ''claude_settings'', sn_AgentsSettings = get_string v ''agents_settings'',
             sn_CodexSettings = get_string v ''codex_settings'', sn_Provider = get_string v ''provider'',
             sn_Fidelity = get_string v ''fidelity'', sn_Message = get_string v ''message'',
             sn_Author = (case map_of (members v) ''author'' of Some a \<Rightarrow> decode_team a | None \<Rightarrow> decode_team VNull),
             sn_CreatedAt = created, sn_Grafted = get_bool v ''grafted'', sn_GraftParents = get_strings v ''graft_parents'',
             sn_GraftSeq = seq, sn_SessionID = get_string v ''session_id'', sn_Models = get_strings v ''models'',
             sn_CompactionCount = compactions\<rparr>
      | _ \<Rightarrow> None)"

definition ref_schema :: schema where
  "ref_schema = SStruct ''Ref''
     [optional ''branch_id'' SString, required ''kind'' SString, required ''name'' SString, required ''repo_id'' SString,
      required ''target'' SString, optional ''symbolic'' SString]"

definition decode_ref :: "jval \<Rightarrow> Ref option" where
  "decode_ref v = Some
     \<lparr>ref_BranchID = get_string v ''branch_id'', ref_Kind = get_string v ''kind'', ref_Name = get_string v ''name'',
      ref_RepoID = get_string v ''repo_id'', ref_Target = get_string v ''target'', ref_Symbolic = get_string v ''symbolic''\<rparr>"

definition creation_schema :: schema where
  "creation_schema = SStruct ''GitCreation''
     [required ''evidence'' SString, optional ''command'' (SSlice SString), optional ''start_ref'' SString,
      optional ''start_commit'' SString, optional ''origin_branch'' SString, optional ''origin_branch_id'' SString]"

definition decode_creation :: "jval \<Rightarrow> GitCreation option" where
  "decode_creation v = Some
     \<lparr>gc_Evidence = get_string v ''evidence'', gc_Command = get_strings v ''command'', gc_StartRef = get_string v ''start_ref'',
      gc_StartCommit = get_string v ''start_commit'', gc_OriginBranch = get_string v ''origin_branch'',
      gc_OriginBranchID = get_string v ''origin_branch_id''\<rparr>"

definition merge_schema :: schema where
  "merge_schema = SStruct ''PullRequestMerge''
     (required ''number'' SInt # map (\<lambda>k. required k SString) [''base_branch'', ''head_branch'', ''head_sha'', ''merge_sha''])"

definition decode_merge :: "jval \<Rightarrow> PullRequestMerge option" where
  "decode_merge v = map_option (\<lambda>n.
     \<lparr>pr_Number = n, pr_BaseBranch = get_string v ''base_branch'', pr_HeadBranch = get_string v ''head_branch'',
      pr_HeadSHA = get_string v ''head_sha'', pr_MergeSHA = get_string v ''merge_sha''\<rparr>) (get_int v ''number'')"

definition history_schema :: schema where
  "history_schema = SStruct ''HistoryEvent''
     ([optional ''creation'' creation_schema, optional ''pr_completed'' SBool, optional ''recovery_evidence'' SString,
       optional ''pr'' merge_schema, optional ''source_branch_id'' SString] @
      map (\<lambda>k. required k SString) [''id'', ''repo_id'', ''branch_id'', ''branch'', ''kind''] @
      map (\<lambda>k. optional k SString)
        [''local_branch'', ''previous_branch'', ''binding_parent'', ''name_parent'', ''memory_selection_parent'', ''source'', ''target'',
         ''shared_target'', ''memory_source'', ''memory_hash''] @
      [optional ''memory_pinned'' SBool, optional ''git_before'' SString, optional ''git_after'' SString,
       optional ''worktree_id'' SString, required ''created_at'' STime])"

definition decode_history :: "time_text \<Rightarrow> jval \<Rightarrow> HistoryEvent option" where
  "decode_history stamps v =
     (case (get_struct decode_creation v ''creation'', get_struct decode_merge v ''pr'', get_time stamps v ''created_at'') of
        (Some creation, Some pr, Some created) \<Rightarrow> Some
          \<lparr>he_Creation = creation, he_PRCompleted = get_bool v ''pr_completed'', he_RecoveryEvidence = get_string v ''recovery_evidence'',
           he_PR = pr, he_SourceBranchID = get_string v ''source_branch_id'', he_ID = get_string v ''id'',
           he_RepoID = get_string v ''repo_id'', he_BranchID = get_string v ''branch_id'', he_Branch = get_string v ''branch'',
           he_Kind = get_string v ''kind'', he_LocalBranch = get_string v ''local_branch'',
           he_PreviousBranch = get_string v ''previous_branch'', he_BindingParent = get_string v ''binding_parent'',
           he_NameParent = get_string v ''name_parent'', he_MemorySelectionParent = get_string v ''memory_selection_parent'',
           he_Source = get_string v ''source'', he_Target = get_string v ''target'', he_SharedTarget = get_string v ''shared_target'',
           he_MemorySource = get_string v ''memory_source'', he_MemoryHash = get_string v ''memory_hash'',
           he_MemoryPinned = get_bool v ''memory_pinned'', he_GitBefore = get_string v ''git_before'',
           he_GitAfter = get_string v ''git_after'', he_WorktreeID = get_string v ''worktree_id'', he_CreatedAt = created\<rparr>
      | _ \<Rightarrow> None)"

definition protocol_schema :: schema where
  "protocol_schema = SStruct ''catalogProtocol'' [required ''context_protocol'' SInt]"

definition decode_protocol :: "jval \<Rightarrow> int option" where
  "decode_protocol v = get_int v ''context_protocol''"

section \<open>Snapshots' state\<close>

definition MaxGraftSeq :: "64 word" where "MaxGraftSeq = 2 ^ 63 - 1"

definition SnapshotStateHash :: "Snapshot \<Rightarrow> string result" where
  "SnapshotStateHash s =
     (case identity_json (sn_DocIdentity s) of
        None \<Rightarrow> Inl ErrUnsupportedDocumentIdentity
      | Some identity \<Rightarrow> Inr (HashContent (json_text (JObj
          ([(''id'', JStr (sn_ID s)), (''branch'', JStr (sn_Branch s)), (''memory_hash'', JStr (sn_MemoryHash s)),
            (''message'', JStr (sn_Message s)), (''grafted'', JBool (sn_Grafted s)),
            (''graft_parents'', JArr (map JStr (elems (sn_GraftParents s)))), (''graft_seq'', JInt (int (unat (sn_GraftSeq s))))] @ identity)))))"

definition validateCatalogSnapshot :: "Snapshot \<Rightarrow> check" where
  "validateCatalogSnapshot s = first_error
     [fail_if (ValidateContentHash (sn_ID s) \<noteq> None \<or> ValidateContentHash (sn_DocHash s) \<noteq> None \<or> sn_ID s \<noteq> sn_DocHash s \<or>
        MaxGraftSeq < sn_GraftSeq s \<or> sn_CompactionCount s < 0) catalogInvalid,
      fail_if (list_ex (\<lambda>h. ValidateOptionalContentHash h \<noteq> None)
        [sn_MemoryHash s, sn_ClaudeSettings s, sn_AgentsSettings s, sn_CodexSettings s]) catalogInvalid,
      fail_if (list_ex (\<lambda>h. ValidateContentHash h \<noteq> None) (elems (sn_Parents s) @ elems (sn_GraftParents s))) catalogInvalid,
      check_of (SnapshotStateHash s)]"

section \<open>Checkpoints, requests and entries\<close>

definition catalogEpochValid :: "string \<Rightarrow> bool" where
  "catalogEpochValid epoch \<longleftrightarrow> length epoch = 36 \<and>
     list_all (\<lambda>i. if i \<in> set [8, 13, 18, 23] then epoch ! i = CHR ''-'' else is_hex (epoch ! i)) [0..<36]"

definition ValidateCatalogCheckpoint :: "string \<Rightarrow> CatalogCheckpoint \<Rightarrow> check" where
  "ValidateCatalogCheckpoint repo cp =
     fail_if (ValidateContentHash repo \<noteq> None \<or> cp_Version cp \<noteq> CatalogVersion \<or> cp_RepoID cp \<noteq> repo \<or>
       \<not> catalogEpochValid (cp_Epoch cp) \<or> cp_Sequence cp < 0) catalogInvalid"

definition ValidateCatalogRequest :: "CatalogRequest \<Rightarrow> check" where
  "ValidateCatalogRequest r = first_error
     [fail_if (cr_Version r \<noteq> CatalogVersion \<or> cr_Limit r < 0 \<or> MaxCatalogLimit < cr_Limit r \<or> (cr_After r \<noteq> None \<and> cr_Cursor r \<noteq> []))
        catalogInvalid,
      (case cr_After r of
         None \<Rightarrow> None
       | Some after \<Rightarrow> if cp_Version after \<noteq> CatalogVersion then Some ErrCatalogResetRequired
                       else ValidateCatalogCheckpoint (cp_RepoID after) after)]"

definition catalogRefKey :: "string \<Rightarrow> (string \<times> string) result" where
  "catalogRefKey key =
     (case decodeCatalogJSON (SSlice SString) strings_of key of
        Inr [kind, name] \<Rightarrow> if ValidateRefName kind name \<noteq> None then Inl catalogInvalid else Inr (kind, name)
      | _ \<Rightarrow> Inl catalogInvalid)"

definition catalogHistoryIDValid :: "string \<Rightarrow> bool" where
  "catalogHistoryIDValid i \<longleftrightarrow> length i = 32 \<and> i = to_lower i \<and> hex_ok i"

record catalogEntity =
  en_snapshot :: "Snapshot option"
  en_ref :: Ref
  en_protocol :: int

definition empty_entity :: catalogEntity where
  "empty_entity = \<lparr>en_snapshot = None, en_ref = empty_ref, en_protocol = 0\<rparr>"

definition entry_key_check :: "string \<Rightarrow> CatalogEntry \<Rightarrow> check" where
  "entry_key_check repo e =
     (if ce_Kind e = ''snapshot'' then fail_if (ValidateContentHash (ce_Key e) \<noteq> None) catalogInvalid
      else if ce_Kind e = ''ref'' then check_of (catalogRefKey (ce_Key e))
      else if ce_Kind e = ''history'' then fail_if (\<not> catalogHistoryIDValid (ce_Key e)) catalogInvalid
      else if ce_Kind e = ''protocol'' then fail_if (ce_Key e \<noteq> repo) catalogInvalid
      else Some catalogInvalid)"

definition decode_snapshot_entry :: "time_text \<Rightarrow> string \<Rightarrow> CatalogEntry \<Rightarrow> catalogEntity result" where
  "decode_snapshot_entry stamps repo e =
     bind_r (decodeCatalogJSON snapshot_schema (decode_snapshot stamps) (ce_Value e)) (\<lambda>s.
     check_then (fail_if (sn_RepoID s \<noteq> repo \<or> sn_ID s \<noteq> ce_Key e \<or> validateCatalogSnapshot s \<noteq> None) catalogInvalid)
       (Inr (empty_entity\<lparr>en_snapshot := Some s\<rparr>)))"

definition decode_ref_entry :: "string \<Rightarrow> CatalogEntry \<Rightarrow> catalogEntity result" where
  "decode_ref_entry repo e =
     bind_r (catalogRefKey (ce_Key e)) (\<lambda>(kind, name).
     bind_r (decodeCatalogJSON ref_schema decode_ref (ce_Value e)) (\<lambda>r.
     check_then (first_error
       [fail_if (ref_RepoID r \<noteq> repo \<or> ref_Kind r \<noteq> kind \<or> ref_Name r \<noteq> name \<or> ValidateRef r \<noteq> None \<or>
          (ref_Kind r \<noteq> ''head'' \<and> ref_Symbolic r \<noteq> [])) catalogInvalid,
        fail_if (check_of (ParseBranchLifecycleRef r) \<noteq> None) catalogInvalid])
       (Inr (empty_entity\<lparr>en_ref := r\<rparr>))))"

definition decode_history_entry :: "time_text \<Rightarrow> string \<Rightarrow> CatalogEntry \<Rightarrow> catalogEntity result" where
  "decode_history_entry stamps repo e =
     bind_r (decodeCatalogJSON history_schema (decode_history stamps) (ce_Value e)) (\<lambda>event.
     check_then (fail_if (he_RepoID event \<noteq> repo \<or> he_ID event \<noteq> ce_Key e \<or> ValidateHistoryEvent event \<noteq> None) catalogInvalid)
       (Inr empty_entity))"

definition decode_protocol_entry :: "CatalogEntry \<Rightarrow> catalogEntity result" where
  "decode_protocol_entry e =
     bind_r (decodeCatalogJSON protocol_schema decode_protocol (ce_Value e)) (\<lambda>n.
     check_then (fail_if (n < 0 \<or> 1 < n) catalogInvalid) (Inr (empty_entity\<lparr>en_protocol := n\<rparr>)))"

definition decodeCatalogEntry :: "time_text \<Rightarrow> string \<Rightarrow> CatalogEntry \<Rightarrow> catalogEntity result" where
  "decodeCatalogEntry stamps repo e =
     check_then (first_error
       [fail_if (ValidateContentHash repo \<noteq> None \<or> ce_Sequence e < 0) catalogInvalid,
        entry_key_check repo e])
     (if ce_Deleted e then check_then (fail_if (ce_Value e \<noteq> []) catalogInvalid) (Inr empty_entity)
      else if ce_Kind e = ''snapshot'' then decode_snapshot_entry stamps repo e
      else if ce_Kind e = ''ref'' then decode_ref_entry repo e
      else if ce_Kind e = ''history'' then decode_history_entry stamps repo e
      else decode_protocol_entry e)"

definition ValidateCatalogEntry :: "time_text \<Rightarrow> string \<Rightarrow> CatalogEntry \<Rightarrow> check" where
  "ValidateCatalogEntry stamps repo e = check_of (decodeCatalogEntry stamps repo e)"

definition nul :: char where "nul = CHR 0x00"

definition CatalogEntryIdentity :: "CatalogEntry \<Rightarrow> string" where
  "CatalogEntryIdentity e =
     (if ce_Kind e = ''ref'' then
        (case catalogRefKey (ce_Key e) of
           Inl _ \<Rightarrow> []
         | Inr (kind, name) \<Rightarrow> ce_Kind e @ [nul] @ json_text (JArr [JStr kind, JStr name]))
      else ce_Kind e @ [nul] @ ce_Key e)"

definition catalogEntryLess :: "CatalogEntry \<Rightarrow> CatalogEntry \<Rightarrow> string \<Rightarrow> bool" where
  "catalogEntryLess a b mode =
     (if mode = ''delta'' \<and> ce_Sequence a \<noteq> ce_Sequence b then ce_Sequence a < ce_Sequence b
      else if ce_Kind a \<noteq> ce_Kind b then ce_Kind a < ce_Kind b
      else ce_Key a < ce_Key b)"

section \<open>Pages\<close>

text \<open>The loop over the entries of a page: \<open>seen\<close> maps identities to the sequence last seen.\<close>

fun check_page_entries ::
  "time_text \<Rightarrow> string \<Rightarrow> CatalogCheckpoint option \<Rightarrow> CatalogPage \<Rightarrow> (string \<times> int) list \<Rightarrow> CatalogEntry option \<Rightarrow> CatalogEntry list \<Rightarrow> check" where
  "check_page_entries stamps repo after p seen prev [] = None"
| "check_page_entries stamps repo after p seen prev (e # es) =
     (case first_error
        [ValidateCatalogEntry stamps repo e,
         fail_if (pg_Through p < ce_Sequence e \<or> (case after of None \<Rightarrow> False | Some cp \<Rightarrow> ce_Sequence e \<le> cp_Sequence cp) \<or>
           (pg_Mode p = ''baseline'' \<and> ce_Deleted e)) catalogInvalid,
         fail_if (case prev of None \<Rightarrow> False | Some d \<Rightarrow> \<not> catalogEntryLess d e (pg_Mode p)) catalogInvalid,
         fail_if (case map_of seen (CatalogEntryIdentity e) of
                    None \<Rightarrow> False | Some q \<Rightarrow> pg_Mode p = ''baseline'' \<or> q = ce_Sequence e) catalogInvalid] of
        Some err \<Rightarrow> Some err
      | None \<Rightarrow> check_page_entries stamps repo after p ((CatalogEntryIdentity e, ce_Sequence e) # seen) (Some e) es)"

definition page_checkpoint :: "CatalogPage \<Rightarrow> CatalogCheckpoint" where
  "page_checkpoint p = \<lparr>cp_Version = pg_Version p, cp_RepoID = pg_RepoID p, cp_Epoch = pg_Epoch p, cp_Sequence = pg_Through p\<rparr>"

definition validateCatalogPageShape :: "time_text \<Rightarrow> string \<Rightarrow> CatalogCheckpoint option \<Rightarrow> CatalogPage \<Rightarrow> check" where
  "validateCatalogPageShape stamps repo after p = first_error
     [ValidateCatalogCheckpoint repo (page_checkpoint p),
      fail_if (pg_Entries p = None \<or> MaxCatalogLimit < int (length (elems (pg_Entries p)))) catalogInvalid,
      (case after of
         None \<Rightarrow> fail_if (pg_Mode p \<noteq> ''baseline'') catalogInvalid
       | Some cp \<Rightarrow> fail_if (ValidateCatalogCheckpoint repo cp \<noteq> None \<or> pg_Mode p \<noteq> ''delta'' \<or> pg_Epoch p \<noteq> cp_Epoch cp \<or>
           pg_Through p < cp_Sequence cp) catalogInvalid),
      (if pg_NextCursor p \<noteq> [] then fail_if (pg_Checkpoint p \<noteq> None \<or> elems (pg_Entries p) = []) catalogInvalid
       else fail_if (pg_Checkpoint p \<noteq> Some (page_checkpoint p)) catalogInvalid),
      check_page_entries stamps repo after p [] None (elems (pg_Entries p))]"

definition ValidateCatalogPage ::
  "time_text \<Rightarrow> string \<Rightarrow> CatalogCheckpoint option \<Rightarrow> CatalogPage option \<Rightarrow> CatalogPage \<Rightarrow> check" where
  "ValidateCatalogPage stamps repo after previous p =
     (case validateCatalogPageShape stamps repo after p of
        Some err \<Rightarrow> Some err
      | None \<Rightarrow>
          (case previous of
             None \<Rightarrow> None
           | Some prev \<Rightarrow>
               (case first_error
                  [validateCatalogPageShape stamps repo after prev,
                   fail_if (pg_NextCursor prev = [] \<or> pg_Checkpoint prev \<noteq> None \<or> pg_Epoch prev \<noteq> pg_Epoch p \<or>
                     pg_Through prev \<noteq> pg_Through p \<or> pg_Mode prev \<noteq> pg_Mode p \<or>
                     (pg_NextCursor p \<noteq> [] \<and> pg_NextCursor prev = pg_NextCursor p)) catalogInvalid] of
                  Some err \<Rightarrow> Some err
                | None \<Rightarrow>
                    (case elems (pg_Entries p) of
                       [] \<Rightarrow> None
                     | e # es \<Rightarrow>
                         let old = map (\<lambda>d. (CatalogEntryIdentity d, ce_Sequence d)) (rev (elems (pg_Entries prev))) in
                         first_error
                           [fail_if (\<not> catalogEntryLess (last (elems (pg_Entries prev))) e (pg_Mode p)) catalogInvalid,
                            fail_if (list_ex (\<lambda>d. case map_of old (CatalogEntryIdentity d) of
                                None \<Rightarrow> False | Some q \<Rightarrow> pg_Mode p = ''baseline'' \<or> q = ce_Sequence d) (e # es)) catalogInvalid]))))"

section \<open>Complete images\<close>

text \<open>The loop over an image collects snapshots, refs and protocols; \<open>seen\<close> holds the identities met so far.\<close>

record image_state =
  im_snapshots :: "Snapshot list"
  im_refs :: "Ref list"
  im_protocols :: "int list"

fun manifest_loop :: "time_text \<Rightarrow> string \<Rightarrow> string list \<Rightarrow> image_state \<Rightarrow> CatalogEntry list \<Rightarrow> image_state result" where
  "manifest_loop stamps repo seen st [] = Inr st"
| "manifest_loop stamps repo seen st (e # es) =
     bind_r (decodeCatalogEntry stamps repo e) (\<lambda>entity.
     check_then (fail_if (ce_Deleted e \<or> CatalogEntryIdentity e \<in> set seen) catalogInvalid)
       (manifest_loop stamps repo (CatalogEntryIdentity e # seen)
         (if ce_Kind e = ''snapshot'' then st\<lparr>im_snapshots := im_snapshots st @ (case en_snapshot entity of None \<Rightarrow> [] | Some s \<Rightarrow> [s])\<rparr>
          else if ce_Kind e = ''ref'' then st\<lparr>im_refs := im_refs st @ [en_ref entity]\<rparr>
          else if ce_Kind e = ''protocol'' then st\<lparr>im_protocols := im_protocols st @ [en_protocol entity]\<rparr>
          else st) es))"

definition no_image :: image_state where
  "no_image = \<lparr>im_snapshots = [], im_refs = [], im_protocols = []\<rparr>"

fun snapshot_states :: "Snapshot list \<Rightarrow> (string \<times> string) list result" where
  "snapshot_states [] = Inr []"
| "snapshot_states (s # ss) =
     bind_r (SnapshotStateHash s) (\<lambda>h. bind_r (snapshot_states ss) (\<lambda>rest. Inr ((sn_ID s, h) # rest)))"

definition CatalogManifest :: "time_text \<Rightarrow> string \<Rightarrow> CatalogEntry list \<Rightarrow> (Manifest \<times> Snapshot list) result" where
  "CatalogManifest stamps repo entries =
     bind_r (manifest_loop stamps repo [] no_image entries) (\<lambda>st.
     case im_protocols st of
       [protocol] \<Rightarrow>
         bind_r (if protocol = 0 then ProjectBranchLifecycleRefs (im_refs st) else Inr (im_refs st)) (\<lambda>refs.
         let snapshots = sort_key sn_ID (im_snapshots st) in
         bind_r (snapshot_states snapshots) (\<lambda>states.
         Inr (\<lparr>mn_ContextProtocol = protocol, mn_RepoID = repo,
               mn_Refs = sort_key (\<lambda>r. (ref_Kind r, ref_Name r)) refs,
               mn_SnapshotIndex = map sn_ID snapshots,
               mn_MemoryAttachments = map (\<lambda>s. (sn_ID s, sn_MemoryHash s)) (filter (\<lambda>s. sn_MemoryHash s \<noteq> []) snapshots),
               mn_SnapshotStates = states, mn_Version = int (length snapshots)\<rparr>, snapshots)))
     | _ \<Rightarrow> Inl catalogInvalid)"

text \<open>The client's image: a Go map from identities, as a list of pairs with distinct keys.\<close>

definition put_entry :: "string \<Rightarrow> CatalogEntry \<Rightarrow> (string \<times> CatalogEntry) list \<Rightarrow> (string \<times> CatalogEntry) list" where
  "put_entry k e img = (k, e) # filter (\<lambda>(k', _). k' \<noteq> k) img"

definition apply_entry :: "CatalogEntry \<Rightarrow> (string \<times> CatalogEntry) list \<Rightarrow> (string \<times> CatalogEntry) list" where
  "apply_entry e img =
     (if ce_Deleted e then filter (\<lambda>(k, _). k \<noteq> CatalogEntryIdentity e) img else put_entry (CatalogEntryIdentity e) e img)"

definition completeCatalogImage :: "CatalogEntry list \<Rightarrow> CatalogPage list \<Rightarrow> CatalogPage \<Rightarrow> CatalogEntry list" where
  "completeCatalogImage entries pending final =
     (let base = (if pg_Mode final = ''delta'' then fold (\<lambda>e. put_entry (CatalogEntryIdentity e) e) entries [] else []);
          img = fold (\<lambda>p. fold apply_entry (elems (pg_Entries p))) (pending @ [final]) base
      in sort_key (\<lambda>e. (ce_Kind e, ce_Key e)) (map snd img))"

section \<open>Runs of pages\<close>

fun page_run :: "time_text \<Rightarrow> string \<Rightarrow> CatalogCheckpoint option \<Rightarrow> CatalogPage option \<Rightarrow> CatalogPage list \<Rightarrow> bool" where
  "page_run stamps repo after previous [] \<longleftrightarrow> True"
| "page_run stamps repo after previous (p # ps) \<longleftrightarrow>
     ValidateCatalogPage stamps repo after previous p = None \<and> page_run stamps repo after (Some p) ps"

definition run_entries :: "CatalogPage list \<Rightarrow> CatalogEntry list" where
  "run_entries ps = concat (map (\<lambda>p. elems (pg_Entries p)) ps)"

lemma catalogEntryLess_trans:
  "catalogEntryLess a b mode \<Longrightarrow> catalogEntryLess b c mode \<Longrightarrow> catalogEntryLess a c mode"
  by (auto simp: catalogEntryLess_def split: if_splits)

lemma check_page_entries_ordered:
  assumes "check_page_entries stamps repo after p seen prev es = None"
  shows "sorted_wrt (\<lambda>a b. catalogEntryLess a b (pg_Mode p)) (case prev of None \<Rightarrow> es | Some d \<Rightarrow> d # es) \<and>
    list_all (\<lambda>e. ValidateCatalogEntry stamps repo e = None \<and> ce_Sequence e \<le> pg_Through p \<and>
      (\<forall>cp. after = Some cp \<longrightarrow> cp_Sequence cp < ce_Sequence e) \<and> (pg_Mode p = ''baseline'' \<longrightarrow> \<not> ce_Deleted e)) es"
  using assms
proof (induction es arbitrary: seen prev)
  case Nil
  then show ?case by (cases prev) simp_all
next
  case (Cons e es)
  have rest: "check_page_entries stamps repo after p ((CatalogEntryIdentity e, ce_Sequence e) # seen) (Some e) es = None"
    and head: "ValidateCatalogEntry stamps repo e = None" "ce_Sequence e \<le> pg_Through p"
      "\<forall>cp. after = Some cp \<longrightarrow> cp_Sequence cp < ce_Sequence e" "pg_Mode p = ''baseline'' \<longrightarrow> \<not> ce_Deleted e"
      "\<forall>d. prev = Some d \<longrightarrow> catalogEntryLess d e (pg_Mode p)"
    using Cons.prems by (auto split: option.splits)
  note IH = Cons.IH [OF rest]
  then have "sorted_wrt (\<lambda>a b. catalogEntryLess a b (pg_Mode p)) (e # es)" by simp
  then have "sorted_wrt (\<lambda>a b. catalogEntryLess a b (pg_Mode p)) (case prev of None \<Rightarrow> e # es | Some d \<Rightarrow> d # e # es)"
    using head(5) catalogEntryLess_trans by (fastforce split: option.splits)
  then show ?case using IH head(1-4) by (simp split: option.splits)
qed

lemma page_shape:
  assumes "validateCatalogPageShape stamps repo after p = None"
  shows "sorted_wrt (\<lambda>a b. catalogEntryLess a b (pg_Mode p)) (elems (pg_Entries p))"
    "pg_NextCursor p \<noteq> [] \<Longrightarrow> pg_Checkpoint p = None \<and> elems (pg_Entries p) \<noteq> []"
    "pg_NextCursor p = [] \<Longrightarrow> pg_Checkpoint p = Some (page_checkpoint p)"
    "e \<in> set (elems (pg_Entries p)) \<Longrightarrow> ValidateCatalogEntry stamps repo e = None \<and> ce_Sequence e \<le> pg_Through p \<and>
      (\<forall>cp. after = Some cp \<longrightarrow> cp_Sequence cp < ce_Sequence e) \<and> (pg_Mode p = ''baseline'' \<longrightarrow> \<not> ce_Deleted e)"
    "ValidateCatalogCheckpoint repo (page_checkpoint p) = None"
    "pg_Mode p = (if after = None then ''baseline'' else ''delta'')"
  using assms check_page_entries_ordered [of stamps repo after p "[]" None "elems (pg_Entries p)"]
  by (auto simp: validateCatalogPageShape_def list_all_iff split: if_splits option.splits)

lemma page_follows:
  assumes "ValidateCatalogPage stamps repo after (Some prev) p = None"
  shows "pg_NextCursor prev \<noteq> []" "pg_Epoch p = pg_Epoch prev" "pg_Through p = pg_Through prev" "pg_Mode p = pg_Mode prev"
    "elems (pg_Entries p) = e # es \<Longrightarrow> catalogEntryLess (last (elems (pg_Entries prev))) e (pg_Mode p)"
  using assms by (auto simp: ValidateCatalogPage_def Let_def split: option.splits list.splits)

lemma page_valid: "ValidateCatalogPage stamps repo after previous p = None \<Longrightarrow> validateCatalogPageShape stamps repo after p = None"
  by (auto simp: ValidateCatalogPage_def split: option.splits)

lemma sorted_last:
  assumes "sorted_wrt (\<lambda>a b. catalogEntryLess a b mode) xs" "x \<in> set xs"
  shows "x = last xs \<or> catalogEntryLess x (last xs) mode"
  using assms by (induction xs) (auto simp: last_in_set)

lemma page_run_sorted:
  assumes "page_run stamps repo after (Some prev) ps" "validateCatalogPageShape stamps repo after prev = None"
  shows "sorted_wrt (\<lambda>a b. catalogEntryLess a b (pg_Mode prev)) (elems (pg_Entries prev) @ run_entries ps)"
  using assms
proof (induction ps arbitrary: prev)
  case Nil
  then show ?case using page_shape(1) by (simp add: run_entries_def)
next
  case (Cons p ps)
  let ?less = "\<lambda>a b. catalogEntryLess a b (pg_Mode prev)"
  have valid: "ValidateCatalogPage stamps repo after (Some prev) p = None" using Cons.prems by simp
  note follows = page_follows [OF valid] and shape = page_shape [OF page_valid [OF valid]]
  have IH: "sorted_wrt ?less (elems (pg_Entries p) @ run_entries ps)"
    using Cons.IH [of p] Cons.prems page_valid [OF valid] follows(4) by simp
  have prev: "sorted_wrt ?less (elems (pg_Entries prev))" by (rule page_shape(1) [OF Cons.prems(2)])
  show ?case
  proof (cases "elems (pg_Entries p)")
    case Nil
    then have "pg_NextCursor p = []" using shape(2) by blast
    then have "ps = []" using Cons.prems(1) page_follows(1) by (cases ps) auto
    then show ?thesis using prev Nil by (simp add: run_entries_def)
  next
    case e: (Cons e es)
    have "?less a b" if "a \<in> set (elems (pg_Entries prev))" "b \<in> set (elems (pg_Entries p) @ run_entries ps)" for a b
    proof -
      have "?less a e" using sorted_last [OF prev that(1)] follows(4) follows(5) [OF e] catalogEntryLess_trans by metis
      moreover have "b = e \<or> ?less e b" using IH that(2) e by auto
      ultimately show ?thesis using catalogEntryLess_trans by blast
    qed
    then show ?thesis using prev IH by (simp add: sorted_wrt_append run_entries_def)
  qed
qed

lemma page_run_pages:
  assumes "page_run stamps repo after previous ps" "p \<in> set ps"
  shows "validateCatalogPageShape stamps repo after p = None"
  using assms by (induction ps arbitrary: previous) (auto dest: page_valid)

lemma page_run_continues:
  assumes "page_run stamps repo after previous (ps @ [final])" "p \<in> set ps"
  shows "pg_NextCursor p \<noteq> [] \<and> pg_Epoch p = pg_Epoch final \<and> pg_Through p = pg_Through final \<and> pg_Mode p = pg_Mode final"
  using assms
proof (induction ps arbitrary: previous p)
  case (Cons q ps)
  obtain next' rest where tail: "ps @ [final] = next' # rest" by (cases "ps @ [final]") auto
  have q: "pg_NextCursor q \<noteq> []" "pg_Epoch next' = pg_Epoch q" "pg_Through next' = pg_Through q" "pg_Mode next' = pg_Mode q"
    using Cons.prems(1) tail page_follows by (metis append_Cons page_run.simps(2))+
  have IH: "pg_Epoch p = pg_Epoch final \<and> pg_Through p = pg_Through final \<and> pg_Mode p = pg_Mode final \<and> (p \<in> set ps \<longrightarrow> pg_NextCursor p \<noteq> [])"
    if "p \<in> set (ps @ [final])" for p
    using that Cons.IH [of "Some q" p] Cons.prems(1) by auto
  have "next' \<in> set (ps @ [final])" by (simp add: tail)
  from IH [OF this] q have "pg_NextCursor q \<noteq> [] \<and> pg_Epoch q = pg_Epoch final \<and> pg_Through q = pg_Through final \<and> pg_Mode q = pg_Mode final"
    by metis
  with IH [of p] Cons.prems(2) show ?case by (cases "p = q") simp_all
qed simp

text \<open>C35: a complete run of validated pages is one consistent image. Its entries are strictly ordered across all page boundaries, each is
  valid, after the acknowledged checkpoint and within the bound of the run; every page but the last is partial and not empty,
  all pages share epoch, bound and mode, and only the last carries the checkpoint, which is exactly that bound.\<close>

theorem page_run_ordered:
  assumes "page_run stamps repo after None (ps @ [final])" "pg_NextCursor final = []"
  shows "sorted_wrt (\<lambda>a b. catalogEntryLess a b (pg_Mode final)) (run_entries (ps @ [final])) \<and>
    (\<forall>p \<in> set ps. pg_Checkpoint p = None \<and> elems (pg_Entries p) \<noteq> [] \<and> pg_Epoch p = pg_Epoch final \<and>
       pg_Through p = pg_Through final \<and> pg_Mode p = pg_Mode final) \<and>
    pg_Checkpoint final = Some \<lparr>cp_Version = CatalogVersion, cp_RepoID = repo, cp_Epoch = pg_Epoch final, cp_Sequence = pg_Through final\<rparr> \<and>
    (\<forall>e \<in> set (run_entries (ps @ [final])). ValidateCatalogEntry stamps repo e = None \<and> ce_Sequence e \<le> pg_Through final \<and>
       (\<forall>cp. after = Some cp \<longrightarrow> cp_Sequence cp < ce_Sequence e) \<and> (after = None \<longrightarrow> \<not> ce_Deleted e))"
proof -
  obtain p0 rest where split: "ps @ [final] = p0 # rest" by (cases "ps @ [final]") auto
  have shape: "validateCatalogPageShape stamps repo after p = None" if "p \<in> set (ps @ [final])" for p
    using page_run_pages [OF assms(1) that] .
  note continues = page_run_continues [OF assms(1)]
  have mode: "pg_Mode p = pg_Mode final" "pg_Through p = pg_Through final" if "p \<in> set (ps @ [final])" for p
    using that continues by auto
  have "sorted_wrt (\<lambda>a b. catalogEntryLess a b (pg_Mode p0)) (run_entries (p0 # rest))"
    using page_run_sorted [of stamps repo after p0 rest] assms(1) shape [of p0] by (simp add: split run_entries_def)
  then have "sorted_wrt (\<lambda>a b. catalogEntryLess a b (pg_Mode final)) (run_entries (ps @ [final]))"
    using mode(1) [of p0] by (simp add: split)
  moreover have "pg_Checkpoint final = Some (page_checkpoint final)" "ValidateCatalogCheckpoint repo (page_checkpoint final) = None"
    using page_shape(3,5) [OF shape] assms(2) by simp_all
  moreover have "ValidateCatalogEntry stamps repo e = None \<and> ce_Sequence e \<le> pg_Through final \<and>
      (\<forall>cp. after = Some cp \<longrightarrow> cp_Sequence cp < ce_Sequence e) \<and> (after = None \<longrightarrow> \<not> ce_Deleted e)"
    if e: "e \<in> set (run_entries (ps @ [final]))" for e
  proof -
    obtain p where p: "p \<in> set (ps @ [final])" "e \<in> set (elems (pg_Entries p))" using e by (auto simp: run_entries_def)
    then show ?thesis using page_shape(4,6) [OF shape [OF p(1)]] mode(2) [OF p(1)] by auto
  qed
  ultimately show ?thesis
    using continues page_shape(2) [OF shape] by (auto simp: ValidateCatalogCheckpoint_def page_checkpoint_def)
qed

section \<open>Examples of pages\<close>

lemma utf8_valid_ascii: "list_all ascii s \<Longrightarrow> utf8_valid s"
  by (induction s) (simp_all add: utf8_valid_def)

lemma decodeCatalogJSON_plain:
  assumes "plain_json j" "printable maxNestingDepth j" "catalogJSONShape t (jval_of j)"
  shows "decodeCatalogJSON t decode (json_text j) = (case decode (jval_of j) of None \<Rightarrow> Inl catalogInvalid | Some x \<Rightarrow> Inr x)"
  using assms by (simp add: decodeCatalogJSON_def utf8_valid_ascii ascii_json_text parse_json_text)

definition key_text :: "string \<Rightarrow> string \<Rightarrow> string" where
  "key_text kind name = json_text (JArr [JStr kind, JStr name])"

lemma catalogRefKey_text:
  assumes "plain_text kind" "plain_text name" "ValidateRefName kind name = None"
  shows "catalogRefKey (key_text kind name) = Inr (kind, name)"
proof -
  have "decodeCatalogJSON (SSlice SString) strings_of (key_text kind name) = Inr [kind, name]"
    unfolding key_text_def using assms
    by (subst decodeCatalogJSON_plain) (simp_all add: strings_of_def decode_string_def to_valid_plain maxNestingDepth_def)
  then show ?thesis using assms by (simp add: catalogRefKey_def)
qed

text \<open>The same key, written with a space.\<close>

definition alias_text :: "string \<Rightarrow> string \<Rightarrow> string" where
  "alias_text kind name = CHR ''['' # CHR '' '' # tl (key_text kind name)"

lemma catalogRefKey_alias:
  assumes "plain_text kind" "plain_text name"
  shows "catalogRefKey (alias_text kind name) = catalogRefKey (key_text kind name)"
proof -
  obtain s where s: "key_text kind name = CHR ''['' # s" by (simp add: key_text_def)
  have "list_all ascii (key_text kind name)"
    using assms ascii_json_text [of "JArr [JStr kind, JStr name]"] by (simp add: key_text_def)
  then have "utf8_valid (alias_text kind name)" "utf8_valid (key_text kind name)"
    by (auto intro!: utf8_valid_ascii simp: alias_text_def s ascii_def)
  moreover have "parse_json (alias_text kind name) = parse_json (key_text kind name)"
    by (simp add: parse_json_def alias_text_def s) (simp add: lex_json.simps(2) json_space_def)
  ultimately show ?thesis by (simp add: catalogRefKey_def decodeCatalogJSON_def)
qed

definition catalog_hash :: string where
  "catalog_hash = ''sha256:'' @ replicate 64 (CHR ''a'')"

definition sample_ref :: "int \<Rightarrow> string \<Rightarrow> string \<Rightarrow> CatalogEntry" where
  "sample_ref n key name = \<lparr>ce_Sequence = n, ce_Kind = ''ref'', ce_Key = key, ce_Deleted = False,
     ce_Value = json_text (JObj [(''kind'', JStr ''branch''), (''name'', JStr name), (''repo_id'', JStr catalog_hash), (''target'', JStr catalog_hash)])\<rparr>"

lemma catalog_hash_valid: "ValidateContentHash catalog_hash = None"
  by code_simp

lemma sample_names:
  assumes "name \<in> {''a'', ''b''}"
  shows "plain_text name" "ValidateRefName ''branch'' name = None"
    "ValidateRef \<lparr>ref_BranchID = [], ref_Kind = ''branch'', ref_Name = name, ref_RepoID = catalog_hash, ref_Target = catalog_hash, ref_Symbolic = []\<rparr> = None"
proof -
  have "plain_text ''a''" "plain_text ''b''" by (simp_all add: ascii_def escape_ascii_def)
  then show "plain_text name" using assms by auto
  have "ValidateRefName ''branch'' ''a'' = None" "ValidateRefName ''branch'' ''b'' = None" by code_simp+
  then show "ValidateRefName ''branch'' name = None" using assms by auto
  then show "ValidateRef \<lparr>ref_BranchID = [], ref_Kind = ''branch'', ref_Name = name, ref_RepoID = catalog_hash, ref_Target = catalog_hash, ref_Symbolic = []\<rparr> = None"
    using catalog_hash_valid by (simp add: ValidateRef_def contains_any_def catalog_hash_def)
qed

lemma sample_ref_valid:
  assumes "name \<in> {''a'', ''b''}" "key \<in> {key_text ''branch'' name, alias_text ''branch'' name}" "0 \<le> n"
  shows "ValidateCatalogEntry stamps catalog_hash (sample_ref n key name) = None"
    "CatalogEntryIdentity (sample_ref n key name) = ''ref'' @ [nul] @ key_text ''branch'' name"
proof -
  note name = sample_names [OF assms(1)]
  have plain: "plain_text ''branch''" "plain_text catalog_hash"
    by (simp_all add: ascii_def escape_ascii_def plain_hash catalog_hash_valid)
  have key: "catalogRefKey key = Inr (''branch'', name)"
    using assms(2) catalogRefKey_text catalogRefKey_alias plain(1) name by auto
  have val: "decodeCatalogJSON ref_schema decode_ref (ce_Value (sample_ref n key name)) =
      Inr \<lparr>ref_BranchID = [], ref_Kind = ''branch'', ref_Name = name, ref_RepoID = catalog_hash, ref_Target = catalog_hash, ref_Symbolic = []\<rparr>"
    unfolding sample_ref_def CatalogEntry.simps
    by (subst decodeCatalogJSON_plain)
      (simp_all add: plain name maxNestingDepth_def ref_schema_def required_def optional_def decode_ref_def get_string_def
        decode_string_def to_valid_plain ascii_def escape_ascii_def)
  have "ParseBranchLifecycleRef r = Inr None" if "ref_Kind r = ''branch''" for r
    using that by (simp add: ParseBranchLifecycleRef_def)
  then show "ValidateCatalogEntry stamps catalog_hash (sample_ref n key name) = None"
    using val key name catalog_hash_valid assms(3)
    by (simp add: ValidateCatalogEntry_def decodeCatalogEntry_def decode_ref_entry_def entry_key_check_def sample_ref_def)
  show "CatalogEntryIdentity (sample_ref n key name) = ''ref'' @ [nul] @ key_text ''branch'' name"
    using key by (simp add: CatalogEntryIdentity_def sample_ref_def key_text_def)
qed

definition sample_epoch :: string where
  "sample_epoch = replicate 8 (CHR ''0'') @ concat (replicate 3 ''-0000'') @ ''-'' @ replicate 12 (CHR ''0'')"

definition sample_page :: "string \<Rightarrow> CatalogEntry \<Rightarrow> CatalogPage" where
  "sample_page cursor e =
     (let p = \<lparr>pg_Version = CatalogVersion, pg_RepoID = catalog_hash, pg_Epoch = sample_epoch,
                pg_Through = 5, pg_Mode = ''baseline'', pg_Entries = Some [e], pg_NextCursor = cursor, pg_Checkpoint = None\<rparr>
      in if cursor = [] then p\<lparr>pg_Checkpoint := Some (page_checkpoint p)\<rparr> else p)"

lemma sample_epoch_valid: "catalogEpochValid sample_epoch"
  by code_simp

lemma sample_page_shape:
  assumes "ValidateCatalogEntry stamps catalog_hash e = None" "ce_Sequence e \<le> 5" "\<not> ce_Deleted e"
  shows "validateCatalogPageShape stamps catalog_hash None (sample_page cursor e) = None"
  using assms sample_epoch_valid catalog_hash_valid
  by (simp add: validateCatalogPageShape_def ValidateCatalogCheckpoint_def page_checkpoint_def sample_page_def Let_def MaxCatalogLimit_def)

lemma sample_page_follows:
  assumes "ValidateCatalogEntry stamps catalog_hash d = None" "ce_Sequence d \<le> 5" "\<not> ce_Deleted d"
    "ValidateCatalogEntry stamps catalog_hash e = None" "ce_Sequence e \<le> 5" "\<not> ce_Deleted e"
    "c \<noteq> []" "c \<noteq> c'" "catalogEntryLess d e ''baseline''" "CatalogEntryIdentity d \<noteq> CatalogEntryIdentity e"
  shows "ValidateCatalogPage stamps catalog_hash None (Some (sample_page c d)) (sample_page c' e) = None"
  using assms sample_page_shape [of stamps e c'] sample_page_shape [of stamps d c]
  by (simp add: ValidateCatalogPage_def) (simp add: sample_page_def Let_def)

definition alias_pages :: "CatalogPage list" where
  "alias_pages =
     [sample_page ''1'' (sample_ref 1 (alias_text ''branch'' ''a'') ''a''),
      sample_page ''2'' (sample_ref 2 (alias_text ''branch'' ''b'') ''b''),
      sample_page [] (sample_ref 3 (key_text ''branch'' ''a'') ''a'')]"

lemma sample_keys:
  "key_text ''branch'' name = ''[\"branch\",'' @ quoted name @ '']''"
  "alias_text ''branch'' name = ''[ \"branch\",'' @ quoted name @ '']''"
proof -
  have "quoted ''branch'' = ''\"branch\"''" by (simp add: quoted_def escape_plain ascii_def escape_ascii_def)
  then show "key_text ''branch'' name = ''[\"branch\",'' @ quoted name @ '']''"
    "alias_text ''branch'' name = ''[ \"branch\",'' @ quoted name @ '']''"
    by (simp_all add: alias_text_def key_text_def)
qed

lemma sample_quoted: "quoted ''a'' = ''\"a\"''" "quoted ''b'' = ''\"b\"''"
  by (simp_all add: quoted_def escape_plain ascii_def escape_ascii_def)

lemma sample_ref_simps [simp]:
  "ce_Sequence (sample_ref n key name) = n" "ce_Kind (sample_ref n key name) = ''ref''" "ce_Key (sample_ref n key name) = key"
  "\<not> ce_Deleted (sample_ref n key name)"
  by (simp_all add: sample_ref_def)

lemma alias_pages_run: "page_run stamps catalog_hash None None alias_pages"
proof -
  let ?a = "sample_ref 1 (alias_text ''branch'' ''a'') ''a''" and ?b = "sample_ref 2 (alias_text ''branch'' ''b'') ''b''"
    and ?c = "sample_ref 3 (key_text ''branch'' ''a'') ''a''"
  have valid: "ValidateCatalogEntry stamps catalog_hash e = None" if "e \<in> {?a, ?b, ?c}" for e
    using that sample_ref_valid(1) by auto
  have "CatalogEntryIdentity ?a \<noteq> CatalogEntryIdentity ?b" "CatalogEntryIdentity ?b \<noteq> CatalogEntryIdentity ?c"
    by (simp_all add: sample_ref_valid(2)) (simp_all add: sample_keys sample_quoted)
  moreover have "catalogEntryLess ?a ?b ''baseline''" "catalogEntryLess ?b ?c ''baseline''"
    by (simp_all add: catalogEntryLess_def sample_keys sample_quoted less_char_def)
  ultimately show ?thesis
    by (simp add: alias_pages_def sample_page_follows valid ValidateCatalogPage_def [of _ _ _ None] sample_page_shape)
qed

theorem page_run_ordered_witness:
  "sorted_wrt (\<lambda>a b. catalogEntryLess a b ''baseline'') (run_entries alias_pages)"
proof -
  have pages: "butlast alias_pages @ [last alias_pages] = alias_pages" by (simp add: alias_pages_def)
  have final: "pg_NextCursor (last alias_pages) = []" "pg_Mode (last alias_pages) = ''baseline''"
    by (simp_all add: alias_pages_def sample_page_def Let_def)
  show ?thesis
    using page_run_ordered [of "\<lambda>_. None" catalog_hash None "butlast alias_pages" "last alias_pages"] alias_pages_run
    unfolding pages final by simp
qed

text \<open>Equivalent spellings of a ref key are recognised on one page and on the page before it, but not further apart: these three pages are
  accepted one after the other although the first and the last hold the same ref.\<close>

theorem alias_evades_page_checks:
  "page_run stamps catalog_hash None None alias_pages \<and>
   \<not> distinct (map CatalogEntryIdentity (run_entries alias_pages)) \<and>
   ValidateCatalogPage stamps catalog_hash None (Some (hd alias_pages)) (last alias_pages) \<noteq> None"
proof -
  have same: "CatalogEntryIdentity (sample_ref 1 (alias_text ''branch'' ''a'') ''a'') = CatalogEntryIdentity (sample_ref 3 (key_text ''branch'' ''a'') ''a'')"
    by (simp add: sample_ref_valid(2))
  have "\<not> distinct (map CatalogEntryIdentity (run_entries alias_pages))"
    by (simp add: alias_pages_def run_entries_def sample_page_def Let_def same)
  moreover have "ValidateCatalogPage stamps catalog_hash None (Some (hd alias_pages)) (last alias_pages) \<noteq> None"
    by (rule notI) (auto simp: ValidateCatalogPage_def alias_pages_def sample_page_def Let_def same split: option.splits)
  ultimately show ?thesis using alias_pages_run by blast
qed

end
