(* ===== verification/CatalogImage.thy ===== *)
theory CatalogImage
  imports Catalog
begin

text \<open>
  Images of the catalog: what applying a run of pages leaves, and the manifest of a complete image.

  Sources: \<open>completeCatalogImage\<close> of \<^verbatim>\<open>src/cli/internal/adapters/backendclient/catalog_delta.go\<close> and \<open>CatalogManifest\<close> of
  \<^verbatim>\<open>src/cli/internal/domain/catalog_validate.go\<close>, both defined in theory \<open>Catalog\<close>.
\<close>

section \<open>Applying entries\<close>

text \<open>The last entry of a log with a given identity.\<close>

definition latest_entry :: "CatalogEntry list \<Rightarrow> string \<Rightarrow> CatalogEntry option" where
  "latest_entry log k = find (\<lambda>e. CatalogEntryIdentity e = k) (rev log)"

lemma latest_entry_simps [simp]:
  "latest_entry [] k = None"
  "latest_entry (log @ [e]) k = (if CatalogEntryIdentity e = k then Some e else latest_entry log k)"
  by (simp_all add: latest_entry_def)

lemma latest_entry_append:
  "latest_entry (a @ b) k = (case latest_entry b k of None \<Rightarrow> latest_entry a k | Some e \<Rightarrow> Some e)"
  by (induction b rule: rev_induct) (simp_all flip: append_assoc)

lemma latest_entry_in: "latest_entry log k = Some e \<Longrightarrow> e \<in> set log \<and> CatalogEntryIdentity e = k"
  by (induction log rule: rev_induct) (auto split: if_splits)

definition image_ok :: "(string \<times> CatalogEntry) list \<Rightarrow> bool" where
  "image_ok img \<longleftrightarrow> distinct (map fst img) \<and> (\<forall>(k, e) \<in> set img. k = CatalogEntryIdentity e)"

lemma image_ok_Nil [simp]: "image_ok []"
  by (simp add: image_ok_def)

lemma distinct_keys_filter: "distinct (map fst img) \<Longrightarrow> distinct (map fst (filter P img))"
  by (induction img) auto

lemma map_of_filter_keys: "map_of (filter (\<lambda>(k', _). k' \<noteq> k) img) = (map_of img)(k := None)"
  by (induction img) (auto simp: fun_eq_iff)

lemma put_entry_ok [simp]: "image_ok img \<Longrightarrow> image_ok (put_entry (CatalogEntryIdentity e) e img)"
  by (auto simp: image_ok_def put_entry_def distinct_keys_filter)

lemma apply_entry_ok [simp]: "image_ok img \<Longrightarrow> image_ok (apply_entry e img)"
  by (simp add: apply_entry_def) (auto simp: image_ok_def distinct_keys_filter)

lemma map_of_put [simp]: "map_of (put_entry k e img) = (map_of img)(k \<mapsto> e)"
  by (simp add: put_entry_def map_of_filter_keys)

lemma map_of_apply: "map_of (apply_entry e img) = (map_of img)(CatalogEntryIdentity e := (if ce_Deleted e then None else Some e))"
  by (simp add: apply_entry_def map_of_filter_keys)

lemma fold_apply:
  assumes "image_ok img"
  shows "image_ok (fold apply_entry es img)"
    "map_of (fold apply_entry es img) k = (case latest_entry es k of None \<Rightarrow> map_of img k | Some e \<Rightarrow> if ce_Deleted e then None else Some e)"
  using assms by (induction es rule: rev_induct) (simp_all add: map_of_apply)

lemma fold_put: "\<forall>e \<in> set es. \<not> ce_Deleted e \<Longrightarrow> fold (\<lambda>e. put_entry (CatalogEntryIdentity e) e) es img = fold apply_entry es img"
  by (induction es arbitrary: img) (simp_all add: apply_entry_def)

lemma image_ok_mem: "image_ok img \<Longrightarrow> e \<in> snd ` set img \<longleftrightarrow> map_of img (CatalogEntryIdentity e) = Some e"
  by (force simp: image_ok_def dest: map_of_SomeD)

text \<open>The log that an image summarises: the old image when the run is a delta, then the pages.\<close>

definition image_log :: "CatalogEntry list \<Rightarrow> CatalogPage list \<Rightarrow> CatalogPage \<Rightarrow> CatalogEntry list" where
  "image_log entries pending final =
     (if pg_Mode final = ''delta'' then entries else []) @ run_entries (pending @ [final])"

lemma fold_pages: "fold (\<lambda>p. fold apply_entry (elems (pg_Entries p))) ps img = fold apply_entry (run_entries ps) img"
  by (induction ps arbitrary: img) (simp_all add: run_entries_def)

lemma completeCatalogImage_fold:
  assumes "\<forall>e \<in> set entries. \<not> ce_Deleted e"
  shows "completeCatalogImage entries pending final =
    sort_key (\<lambda>e. (ce_Kind e, ce_Key e)) (map snd (fold apply_entry (image_log entries pending final) []))"
  using assms unfolding completeCatalogImage_def fold_pages by (simp add: fold_put image_log_def Let_def)

lemma identity_key: "ce_Kind a = ce_Kind b \<Longrightarrow> ce_Key a = ce_Key b \<Longrightarrow> CatalogEntryIdentity a = CatalogEntryIdentity b"
  by (simp add: CatalogEntryIdentity_def split: sum.splits)

lemma sorted_strictly:
  assumes "sorted (map f xs)" "distinct (map g xs)" "\<And>a b. f a = f b \<Longrightarrow> g a = g b"
  shows "sorted_wrt (\<lambda>a b. f a < f b) xs"
  using assms(1,2)
proof (induction xs)
  case (Cons x xs)
  then have "f x < f y" if "y \<in> set xs" for y
    using that assms(3) [of x y] by (auto simp: le_less)
  with Cons show ?case by simp
qed simp

lemma image_ok_distinct: "image_ok img \<Longrightarrow> distinct (map CatalogEntryIdentity (map snd img))"
  unfolding image_ok_def by (induction img) force+

lemma distinct_map_sort: "distinct (map f (sort_key k xs)) \<longleftrightarrow> distinct (map f xs)"
  by (simp add: distinct_map)

text \<open>C36: completing a run keeps, of the old image (of a delta) followed by the pages, exactly the last entry of every identity unless
  that is a deletion. The result has every identity once and is strictly ordered by kind and key, so the order in which Go
  enumerates its map does not show.\<close>

theorem completeCatalogImage_latest:
  assumes "\<forall>e \<in> set entries. \<not> ce_Deleted e"
  shows "(e \<in> set (completeCatalogImage entries pending final) \<longleftrightarrow>
      \<not> ce_Deleted e \<and> latest_entry (image_log entries pending final) (CatalogEntryIdentity e) = Some e) \<and>
    distinct (map CatalogEntryIdentity (completeCatalogImage entries pending final)) \<and>
    sorted_wrt (\<lambda>a b. (ce_Kind a, ce_Key a) < (ce_Kind b, ce_Key b)) (completeCatalogImage entries pending final)"
proof -
  let ?img = "fold apply_entry (image_log entries pending final) []"
  let ?key = "\<lambda>e. (ce_Kind e, ce_Key e)"
  have ok: "image_ok ?img" by (rule fold_apply(1)) simp
  have dist: "distinct (map CatalogEntryIdentity (sort_key ?key (map snd ?img)))"
    unfolding distinct_map_sort by (rule image_ok_distinct [OF ok])
  have "sorted_wrt (\<lambda>a b. ?key a < ?key b) (sort_key ?key (map snd ?img))"
    by (rule sorted_strictly [OF sorted_sort_key dist]) (auto intro: identity_key)
  moreover have "e \<in> set (sort_key ?key (map snd ?img)) \<longleftrightarrow>
      \<not> ce_Deleted e \<and> latest_entry (image_log entries pending final) (CatalogEntryIdentity e) = Some e"
    using image_ok_mem [OF ok, of e] fold_apply(2) [of "[]" "image_log entries pending final" "CatalogEntryIdentity e"]
    by (auto split: option.splits if_splits dest: latest_entry_in)
  ultimately show ?thesis unfolding completeCatalogImage_fold [OF assms] using dist by simp
qed

section \<open>The manifest of an image\<close>

definition live_entry :: "time_text \<Rightarrow> string \<Rightarrow> CatalogEntry \<Rightarrow> bool" where
  "live_entry stamps repo e \<longleftrightarrow> ValidateCatalogEntry stamps repo e = None \<and> \<not> ce_Deleted e"

definition entity_of :: "time_text \<Rightarrow> string \<Rightarrow> CatalogEntry \<Rightarrow> catalogEntity" where
  "entity_of stamps repo e = (case decodeCatalogEntry stamps repo e of Inr x \<Rightarrow> x | Inl _ \<Rightarrow> empty_entity)"

definition of_kind :: "string \<Rightarrow> CatalogEntry list \<Rightarrow> CatalogEntry list" where
  "of_kind kind = filter (\<lambda>e. ce_Kind e = kind)"

definition image_of :: "time_text \<Rightarrow> string \<Rightarrow> CatalogEntry list \<Rightarrow> image_state" where
  "image_of stamps repo es =
     \<lparr>im_snapshots = concat (map (\<lambda>e. case en_snapshot (entity_of stamps repo e) of None \<Rightarrow> [] | Some s \<Rightarrow> [s]) (of_kind ''snapshot'' es)),
      im_refs = map (\<lambda>e. en_ref (entity_of stamps repo e)) (of_kind ''ref'' es),
      im_protocols = map (\<lambda>e. en_protocol (entity_of stamps repo e)) (of_kind ''protocol'' es)\<rparr>"

definition join_image :: "image_state \<Rightarrow> image_state \<Rightarrow> image_state" where
  "join_image a b = \<lparr>im_snapshots = im_snapshots a @ im_snapshots b, im_refs = im_refs a @ im_refs b, im_protocols = im_protocols a @ im_protocols b\<rparr>"

lemma manifest_loop_Inr:
  "manifest_loop stamps repo seen st es = Inr st' \<longleftrightarrow>
     list_all (live_entry stamps repo) es \<and> distinct (map CatalogEntryIdentity es) \<and>
     set seen \<inter> CatalogEntryIdentity ` set es = {} \<and> st' = join_image st (image_of stamps repo es)"
proof (induction es arbitrary: seen st)
  case Nil
  show ?case by (auto simp: image_of_def of_kind_def join_image_def)
next
  case (Cons e es)
  show ?case
  proof (cases "decodeCatalogEntry stamps repo e")
    case (Inl err)
    then show ?thesis by (simp add: live_entry_def ValidateCatalogEntry_def)
  next
    case (Inr entity)
    have join: "join_image
        (if ce_Kind e = ''snapshot'' then st\<lparr>im_snapshots := im_snapshots st @ (case en_snapshot entity of None \<Rightarrow> [] | Some s \<Rightarrow> [s])\<rparr>
         else if ce_Kind e = ''ref'' then st\<lparr>im_refs := im_refs st @ [en_ref entity]\<rparr>
         else if ce_Kind e = ''protocol'' then st\<lparr>im_protocols := im_protocols st @ [en_protocol entity]\<rparr>
         else st) (image_of stamps repo es) = join_image st (image_of stamps repo (e # es))"
      using Inr by (simp add: image_of_def of_kind_def join_image_def entity_of_def)
    have live: "live_entry stamps repo e \<longleftrightarrow> \<not> ce_Deleted e" using Inr by (simp add: live_entry_def ValidateCatalogEntry_def)
    have "manifest_loop stamps repo seen st (e # es) = Inr st' \<longleftrightarrow>
        \<not> ce_Deleted e \<and> CatalogEntryIdentity e \<notin> set seen \<and> list_all (live_entry stamps repo) es \<and> distinct (map CatalogEntryIdentity es) \<and>
        insert (CatalogEntryIdentity e) (set seen) \<inter> CatalogEntryIdentity ` set es = {} \<and> st' = join_image st (image_of stamps repo (e # es))"
      using Inr by (simp add: Cons.IH join)
    then show ?thesis using live by auto
  qed
qed

lemma live_snapshot:
  assumes "live_entry stamps repo e" "ce_Kind e = ''snapshot''"
  shows "\<exists>s h. en_snapshot (entity_of stamps repo e) = Some s \<and> sn_ID s = ce_Key e \<and> sn_RepoID s = repo \<and> SnapshotStateHash s = Inr h"
  using assms
  by (auto simp: live_entry_def ValidateCatalogEntry_def entity_of_def decodeCatalogEntry_def decode_snapshot_entry_def validateCatalogSnapshot_def)

lemma live_ref:
  assumes "live_entry stamps repo e" "ce_Kind e = ''ref''"
  shows "catalogRefKey (ce_Key e) = Inr (ref_Kind (en_ref (entity_of stamps repo e)), ref_Name (en_ref (entity_of stamps repo e)))"
  using assms
  by (auto simp: live_entry_def ValidateCatalogEntry_def entity_of_def decodeCatalogEntry_def decode_ref_entry_def)

lemma of_kind_set [simp]: "e \<in> set (of_kind kind es) \<longleftrightarrow> e \<in> set es \<and> ce_Kind e = kind"
  by (auto simp: of_kind_def)

lemma image_snapshot_ids:
  assumes "list_all (live_entry stamps repo) es"
  shows "map sn_ID (im_snapshots (image_of stamps repo es)) = map ce_Key (of_kind ''snapshot'' es)"
    "list_all (\<lambda>s. \<exists>h. SnapshotStateHash s = Inr h) (im_snapshots (image_of stamps repo es))"
proof -
  have "map sn_ID (concat (map (\<lambda>e. case en_snapshot (entity_of stamps repo e) of None \<Rightarrow> [] | Some s \<Rightarrow> [s]) xs)) = map ce_Key xs \<and>
      list_all (\<lambda>s. \<exists>h. SnapshotStateHash s = Inr h) (concat (map (\<lambda>e. case en_snapshot (entity_of stamps repo e) of None \<Rightarrow> [] | Some s \<Rightarrow> [s]) xs))"
    if "\<forall>e \<in> set xs. live_entry stamps repo e \<and> ce_Kind e = ''snapshot''" for xs
    using that by (induction xs) (auto dest!: live_snapshot)
  from this [of "of_kind ''snapshot'' es"] assms
  show "map sn_ID (im_snapshots (image_of stamps repo es)) = map ce_Key (of_kind ''snapshot'' es)"
    "list_all (\<lambda>s. \<exists>h. SnapshotStateHash s = Inr h) (im_snapshots (image_of stamps repo es))"
    by (simp_all add: image_of_def list_all_iff)
qed

lemma distinct_kind_keys:
  assumes "distinct (map CatalogEntryIdentity es)" "kind \<noteq> ''ref''"
  shows "distinct (map ce_Key (of_kind kind es))"
proof -
  have "distinct (map CatalogEntryIdentity (of_kind kind es))" using assms(1) by (induction es) (auto simp: of_kind_def)
  moreover have "CatalogEntryIdentity e = kind @ [nul] @ ce_Key e" if "e \<in> set (of_kind kind es)" for e
    using that assms(2) by (simp add: CatalogEntryIdentity_def)
  ultimately show ?thesis by (auto simp: distinct_map inj_on_def)
qed

lemma snapshot_states_Inr:
  "snapshot_states ss = Inr states \<longleftrightarrow>
     list_all (\<lambda>s. \<exists>h. SnapshotStateHash s = Inr h) ss \<and>
     states = map (\<lambda>s. (sn_ID s, case SnapshotStateHash s of Inr h \<Rightarrow> h | Inl _ \<Rightarrow> [])) ss"
  by (induction ss arbitrary: states) auto

text \<open>The manifest of an image is built exactly when every entry is valid and live, no two entries have one identity (spellings of a
  ref key included), there is exactly one protocol entry, and, before the context protocol, the lifecycle refs can be projected.\<close>

theorem CatalogManifest_accepts:
  "(\<exists>r. CatalogManifest stamps repo es = Inr r) \<longleftrightarrow>
     list_all (live_entry stamps repo) es \<and> distinct (map CatalogEntryIdentity es) \<and>
     (\<exists>p. of_kind ''protocol'' es = [p] \<and>
        (en_protocol (entity_of stamps repo p) = 0 \<longrightarrow>
          (\<exists>refs. ProjectBranchLifecycleRefs (map (\<lambda>e. en_ref (entity_of stamps repo e)) (of_kind ''ref'' es)) = Inr refs)))"
proof (cases "list_all (live_entry stamps repo) es \<and> distinct (map CatalogEntryIdentity es)")
  case False
  then have "\<nexists>st. manifest_loop stamps repo [] no_image es = Inr st" by (auto simp: manifest_loop_Inr)
  with False show ?thesis by (auto simp: CatalogManifest_def)
next
  case True
  then have loop: "manifest_loop stamps repo [] no_image es = Inr (image_of stamps repo es)"
    by (simp add: manifest_loop_Inr join_image_def no_image_def)
  have "list_all (\<lambda>s. \<exists>h. SnapshotStateHash s = Inr h) (sort_key sn_ID (im_snapshots (image_of stamps repo es)))"
    using image_snapshot_ids(2) True by (auto simp: list_all_iff)
  then have states: "\<exists>states. snapshot_states (sort_key sn_ID (im_snapshots (image_of stamps repo es))) = Inr states"
    by (simp add: snapshot_states_Inr)
  have protocols: "im_protocols (image_of stamps repo es) = map (\<lambda>e. en_protocol (entity_of stamps repo e)) (of_kind ''protocol'' es)"
    and refs: "im_refs (image_of stamps repo es) = map (\<lambda>e. en_ref (entity_of stamps repo e)) (of_kind ''ref'' es)"
    by (simp_all add: image_of_def)
  show ?thesis
    using True states by (auto simp: CatalogManifest_def loop protocols refs Let_def split: list.splits)
qed

definition sample_protocol :: CatalogEntry where
  "sample_protocol = \<lparr>ce_Sequence = 1, ce_Kind = ''protocol'', ce_Key = catalog_hash, ce_Deleted = False,
     ce_Value = json_text (JObj [(''context_protocol'', JInt 1)])\<rparr>"

definition sample_image :: "CatalogEntry list" where
  "sample_image = [sample_protocol, sample_ref 3 (key_text ''branch'' ''a'') ''a'']"

lemma sample_protocol_valid: "decodeCatalogEntry stamps catalog_hash sample_protocol = Inr (empty_entity\<lparr>en_protocol := 1\<rparr>)"
proof -
  have "decodeCatalogJSON protocol_schema decode_protocol (ce_Value sample_protocol) = Inr 1"
    unfolding sample_protocol_def CatalogEntry.simps
    by (subst decodeCatalogJSON_plain)
      (simp_all add: maxNestingDepth_def protocol_schema_def required_def decode_protocol_def get_int_def decode_int_def to_valid_plain in_int64_def ascii_def escape_ascii_def)
  then show ?thesis
    using catalog_hash_valid by (simp add: decodeCatalogEntry_def entry_key_check_def decode_protocol_entry_def) (simp add: sample_protocol_def)
qed

lemma sample_image_live:
  "list_all (live_entry stamps catalog_hash) sample_image" "distinct (map CatalogEntryIdentity sample_image)"
  by (simp_all add: sample_image_def live_entry_def ValidateCatalogEntry_def [of _ _ sample_protocol] sample_protocol_valid sample_ref_valid)
    (simp_all add: sample_protocol_def CatalogEntryIdentity_def)

theorem CatalogManifest_accepts_witness: "\<exists>r. CatalogManifest (\<lambda>_. None) catalog_hash sample_image = Inr r"
proof -
  have "of_kind ''protocol'' sample_image = [sample_protocol]"
    by (simp add: of_kind_def sample_image_def) (simp add: sample_protocol_def)
  then show ?thesis
    using CatalogManifest_accepts [of "\<lambda>_. None" catalog_hash sample_image] sample_image_live
    by (simp add: entity_of_def sample_protocol_valid)
qed

lemma map_of_snapshots:
  assumes "distinct (map sn_ID ss)" "s \<in> set ss"
  shows "map_of (map (\<lambda>s. (sn_ID s, f s)) (filter P ss)) (sn_ID s) = (if P s then Some (f s) else None)"
  using assms
proof (induction ss)
  case (Cons t ss)
  have none: "map_of (map (\<lambda>s. (sn_ID s, f s)) (filter P ss)) (sn_ID t) = None"
    using Cons.prems(1) by (auto simp: map_of_eq_None_iff)
  show ?case
  proof (cases "s = t")
    case True
    then show ?thesis using none by simp
  next
    case False
    then have "s \<in> set ss" using Cons.prems by simp
    moreover have "sn_ID s \<noteq> sn_ID t" using Cons.prems(1) imageI [OF \<open>s \<in> set ss\<close>, of sn_ID] by auto
    ultimately have "sn_ID s \<noteq> sn_ID t" "s \<in> set ss" by blast+
    then show ?thesis using Cons by simp
  qed
qed simp


lemma sample_manifest: "\<exists>m snaps. CatalogManifest stamps catalog_hash sample_image = Inr (m, snaps)"
proof -
  have loop: "manifest_loop stamps catalog_hash [] no_image sample_image = Inr (image_of stamps catalog_hash sample_image)"
    using sample_image_live by (simp add: manifest_loop_Inr join_image_def no_image_def)
  have "im_protocols (image_of stamps catalog_hash sample_image) = [1]" "im_snapshots (image_of stamps catalog_hash sample_image) = []"
    by (simp_all add: image_of_def of_kind_def sample_image_def entity_of_def) (simp_all add: sample_protocol_valid, simp_all add: sample_protocol_def)
  then show ?thesis by (simp add: CatalogManifest_def loop)
qed


theorem completeCatalogImage_latest_witness:
  "sample_ref 3 (key_text ''branch'' ''a'') ''a'' \<in> set (completeCatalogImage [] (butlast alias_pages) (last alias_pages))"
proof -
  have "image_log [] (butlast alias_pages) (last alias_pages) = run_entries alias_pages"
    by (simp add: image_log_def alias_pages_def)
  moreover have "latest_entry (run_entries alias_pages) (CatalogEntryIdentity (sample_ref 3 (key_text ''branch'' ''a'') ''a'')) =
      Some (sample_ref 3 (key_text ''branch'' ''a'') ''a'')"
    by (simp add: alias_pages_def run_entries_def sample_page_def Let_def latest_entry_def)
  ultimately show ?thesis
    using completeCatalogImage_latest [of "[]" "sample_ref 3 (key_text ''branch'' ''a'') ''a''" "butlast alias_pages" "last alias_pages"] by simp
qed

end
