(* ===== verification/CatalogSync.thy ===== *)
theory CatalogSync
  imports CatalogImage
begin

text \<open>
  Acquiring the catalog: the cache in which pages are staged, and the client's loop that asks for pages, checks them, stages
  them and returns the manifest of the completed image.

  Sources: \<^verbatim>\<open>src/cli/internal/adapters/storage/catalog_cache.go\<close>, \<^verbatim>\<open>src/cli/internal/adapters/storage/catalog_merkle_cache.go\<close>,
  \<^verbatim>\<open>src/cli/internal/adapters/backendclient/catalog_delta.go\<close>.

  The cache of one repository and one remote is modelled by what its files hold: the checkpoint and entries of the completed image,
  the chain of staged pages in chronological order, and the generation of the head. The immutable records are named by the hash of
  their content, so a name and what it stands for are identified here; how a completed image is spread over image records and
  completed pages is not modelled. A revision is the hash of the head, which contains the generation that every publication
  increments; the generation stands for it. Cancellation and failing reads and writes of files are not modelled.
\<close>

section \<open>Checks over a run\<close>

definition catalogCacheEntryLess :: "CatalogEntry \<Rightarrow> CatalogEntry \<Rightarrow> bool" where
  "catalogCacheEntryLess a b \<longleftrightarrow> ce_Kind a < ce_Kind b \<or> ce_Kind a = ce_Kind b \<and> ce_Key a < ce_Key b"

definition applyCatalogCacheEntries :: "(string \<times> CatalogEntry) list \<Rightarrow> CatalogEntry list \<Rightarrow> (string \<times> CatalogEntry) list" where
  "applyCatalogCacheEntries img es = fold apply_entry es img"

definition sortedCatalogCacheEntries :: "(string \<times> CatalogEntry) list \<Rightarrow> CatalogEntry list" where
  "sortedCatalogCacheEntries img = sort_key (\<lambda>e. (ce_Kind e, ce_Key e)) (map snd img)"

text \<open>Identities seen in the run, each with the sequence last seen.\<close>

type_synonym seen_map = "(string \<times> int) list"

fun see_entries :: "string \<Rightarrow> seen_map \<Rightarrow> CatalogEntry list \<Rightarrow> seen_map result" where
  "see_entries mode seen [] = Inr seen"
| "see_entries mode seen (e # es) =
     (if (case map_of seen (CatalogEntryIdentity e) of None \<Rightarrow> False | Some q \<Rightarrow> mode = ''baseline'' \<or> q = ce_Sequence e)
      then Inl ErrHashMismatch
      else see_entries mode ((CatalogEntryIdentity e, ce_Sequence e) # seen) es)"

definition validateCatalogCachePage ::
  "time_text \<Rightarrow> string \<Rightarrow> CatalogCheckpoint option \<Rightarrow> CatalogPage option \<Rightarrow> CatalogPage \<Rightarrow> string list \<Rightarrow> seen_map \<Rightarrow>
   (string list \<times> seen_map) result" where
  "validateCatalogCachePage stamps repo after previous page cursors seen =
     check_then (ValidateCatalogPage stamps repo after previous page)
     (bind_r (see_entries (pg_Mode page) seen (elems (pg_Entries page))) (\<lambda>seen'.
      if pg_NextCursor page = [] then Inr (cursors, seen')
      else if pg_NextCursor page \<in> set cursors then Inl ErrHashMismatch
      else Inr (pg_NextCursor page # cursors, seen')))"

fun validate_run ::
  "time_text \<Rightarrow> string \<Rightarrow> CatalogCheckpoint option \<Rightarrow> CatalogPage option \<Rightarrow> string list \<Rightarrow> seen_map \<Rightarrow> CatalogPage list \<Rightarrow>
   (string list \<times> seen_map) result" where
  "validate_run stamps repo after previous cursors seen [] = Inr (cursors, seen)"
| "validate_run stamps repo after previous cursors seen (p # ps) =
     bind_r (validateCatalogCachePage stamps repo after previous p cursors seen) (\<lambda>(cursors', seen').
     validate_run stamps repo after (Some p) cursors' seen' ps)"

section \<open>The cache\<close>

record CatalogCache =
  cc_Generation :: "64 word"
  cc_Checkpoint :: "CatalogCheckpoint option"
  cc_Entries :: "CatalogEntry list"
  cc_Pending :: "CatalogPage list"

definition empty_cache :: CatalogCache where
  "empty_cache = \<lparr>cc_Generation = 0, cc_Checkpoint = None, cc_Entries = [], cc_Pending = []\<rparr>"

text \<open>The checkpoint a run starts from: none for a baseline.\<close>

definition run_after :: "CatalogCheckpoint option \<Rightarrow> CatalogPage list \<Rightarrow> CatalogCheckpoint option" where
  "run_after cp ps = (case ps of [] \<Rightarrow> cp | p # _ \<Rightarrow> if pg_Mode p = ''baseline'' then None else cp)"

definition readCatalogCacheHead :: "string \<Rightarrow> CatalogCache \<Rightarrow> check" where
  "readCatalogCacheHead repo c =
     (case cc_Checkpoint c of None \<Rightarrow> None | Some cp \<Rightarrow> fail_if (ValidateCatalogCheckpoint repo cp \<noteq> None) ErrHashMismatch)"

definition loadCatalogCache :: "time_text \<Rightarrow> string \<Rightarrow> CatalogCache \<Rightarrow> CatalogCache result" where
  "loadCatalogCache stamps repo c =
     check_then (first_error
       [readCatalogCacheHead repo c,
        (if cc_Checkpoint c = None then None else check_of (CatalogManifest stamps repo (cc_Entries c))),
        fail_if (list_ex (\<lambda>p. pg_Checkpoint p \<noteq> None) (cc_Pending c)) ErrHashMismatch,
        check_of (validate_run stamps repo (run_after (cc_Checkpoint c) (cc_Pending c)) None [] [] (cc_Pending c))])
     (Inr c)"

text \<open>Staging a partial page reads only the tail of the chain; the final page reads everything.\<close>

definition append_current :: "time_text \<Rightarrow> string \<Rightarrow> CatalogCache \<Rightarrow> CatalogPage \<Rightarrow> CatalogCache result" where
  "append_current stamps repo c page =
     (if pg_Checkpoint page \<noteq> None then loadCatalogCache stamps repo c
      else check_then (first_error
        [readCatalogCacheHead repo c,
         fail_if (cc_Pending c \<noteq> [] \<and> pg_Checkpoint (last (cc_Pending c)) \<noteq> None) ErrHashMismatch])
        (Inr (c\<lparr>cc_Entries := [], cc_Pending := (if cc_Pending c = [] then [] else [last (cc_Pending c)])\<rparr>)))"

definition append_check :: "time_text \<Rightarrow> string \<Rightarrow> CatalogCache \<Rightarrow> CatalogPage \<Rightarrow> check" where
  "append_check stamps repo current page =
     (let pending = cc_Pending current;
          after = (if pending \<noteq> [] then (if pg_Mode (hd pending) = ''baseline'' then None else cc_Checkpoint current)
                   else if pg_Mode page = ''baseline'' then None else cc_Checkpoint current);
          previous = (if pending = [] then None else Some (last pending));
          cursors = map pg_NextCursor pending;
          seen = rev (map (\<lambda>e. (CatalogEntryIdentity e, ce_Sequence e)) (run_entries pending))
      in check_of (validateCatalogCachePage stamps repo after previous page cursors seen))"

definition append_image :: "CatalogCache \<Rightarrow> CatalogPage \<Rightarrow> CatalogEntry list" where
  "append_image current page =
     (let base = (if pg_Mode page = ''delta'' then applyCatalogCacheEntries [] (cc_Entries current) else []);
          staged = fold (\<lambda>p img. applyCatalogCacheEntries img (elems (pg_Entries p))) (cc_Pending current) base
      in sortedCatalogCacheEntries (applyCatalogCacheEntries staged (elems (pg_Entries page))))"

definition AppendCatalogPage :: "time_text \<Rightarrow> string \<Rightarrow> 64 word \<Rightarrow> CatalogPage \<Rightarrow> CatalogCache \<Rightarrow> CatalogCache result" where
  "AppendCatalogPage stamps repo expected page c =
     bind_r (append_current stamps repo c page) (\<lambda>current.
     check_then (first_error
       [fail_if (cc_Generation c \<noteq> expected) ErrSyncConflict,
        fail_if (cc_Generation c = - 1) ErrHashMismatch,
        append_check stamps repo current page,
        (if pg_Checkpoint page = None then None else check_of (CatalogManifest stamps repo (append_image current page)))])
     (Inr (if pg_Checkpoint page = None
       then c\<lparr>cc_Generation := cc_Generation c + 1, cc_Pending := cc_Pending c @ [page]\<rparr>
       else \<lparr>cc_Generation = cc_Generation c + 1, cc_Checkpoint = pg_Checkpoint page, cc_Entries = append_image current page, cc_Pending = []\<rparr>)))"

definition ResetCatalogRun :: "time_text \<Rightarrow> string \<Rightarrow> 64 word \<Rightarrow> CatalogCache \<Rightarrow> CatalogCache result" where
  "ResetCatalogRun stamps repo expected c =
     bind_r (loadCatalogCache stamps repo c) (\<lambda>loaded.
     check_then (first_error
       [fail_if (cc_Generation c \<noteq> expected) ErrSyncConflict,
        fail_if (cc_Generation c = - 1) ErrHashMismatch])
     (Inr (c\<lparr>cc_Generation := cc_Generation c + 1, cc_Pending := []\<rparr>)))"

definition InstallCatalogImage ::
  "time_text \<Rightarrow> string \<Rightarrow> 64 word \<Rightarrow> CatalogCheckpoint \<Rightarrow> CatalogEntry list \<Rightarrow> CatalogCache \<Rightarrow> CatalogCache result" where
  "InstallCatalogImage stamps repo expected checkpoint entries c =
     bind_r (loadCatalogCache stamps repo c) (\<lambda>loaded.
     check_then (first_error
       [fail_if (cc_Generation c \<noteq> expected) ErrSyncConflict,
        fail_if (cc_Generation c = - 1) ErrHashMismatch,
        ValidateCatalogCheckpoint repo checkpoint,
        fail_if (case cc_Checkpoint c of None \<Rightarrow> False | Some cp \<Rightarrow> cp_Epoch cp = cp_Epoch checkpoint \<and> cp_Sequence checkpoint < cp_Sequence cp)
          ErrHashMismatch,
        fail_if (list_ex (\<lambda>e. cp_Sequence checkpoint < ce_Sequence e) entries) ErrHashMismatch,
        check_of (CatalogManifest stamps repo entries)])
     (Inr \<lparr>cc_Generation = cc_Generation c + 1, cc_Checkpoint = Some checkpoint,
           cc_Entries = sort_key (\<lambda>e. (ce_Kind e, ce_Key e)) entries, cc_Pending = []\<rparr>))"

section \<open>The client\<close>

definition validateCatalogCache :: "time_text \<Rightarrow> string \<Rightarrow> CatalogCache \<Rightarrow> check" where
  "validateCatalogCache stamps repo c = first_error
     [(case cc_Checkpoint c of
         None \<Rightarrow> fail_if (cc_Entries c \<noteq> []) ErrHashMismatch
       | Some cp \<Rightarrow> first_error
           [ValidateCatalogCheckpoint repo cp,
            fail_if (list_ex (\<lambda>e. cp_Sequence cp < ce_Sequence e) (cc_Entries c)) ErrHashMismatch,
            check_of (CatalogManifest stamps repo (cc_Entries c))]),
      fail_if (\<not> (list_all (\<lambda>p. pg_Checkpoint p = None) (cc_Pending c) \<and>
        page_run stamps repo (run_after (cc_Checkpoint c) (cc_Pending c)) None (cc_Pending c))) ErrHashMismatch]"

definition catalogPageLimit :: int where "catalogPageLimit = 256"

record acquire =
  aq_State :: CatalogCache
  aq_Baseline :: bool
  aq_Resumed :: bool
  aq_Resets :: nat
  aq_Limit :: int
  aq_Cursors :: "string list"

definition acquire_start :: "time_text \<Rightarrow> string \<Rightarrow> CatalogCache \<Rightarrow> acquire result" where
  "acquire_start stamps repo store =
     bind_r (loadCatalogCache stamps repo store) (\<lambda>state.
     check_then (validateCatalogCache stamps repo state)
       (let resumed = cc_Pending state \<noteq> [] in
        Inr \<lparr>aq_State = state,
             aq_Baseline = (if resumed then pg_Mode (hd (cc_Pending state)) = ''baseline'' else cc_Checkpoint state = None),
             aq_Resumed = resumed, aq_Resets = 0, aq_Limit = catalogPageLimit, aq_Cursors = map pg_NextCursor (cc_Pending state)\<rparr>))"

text \<open>What comes back for one request: a decoded page, together with the result of the fence after it has been staged; a
  response over the size bound; a demand to reset; or any failure of the request, of the decoding or of an earlier fence.\<close>

datatype reply = Received CatalogPage check | TooLarge | ResetRequired go_error | Failed go_error

datatype outcome = Continue acquire | Return "Manifest \<times> Snapshot list" | Reconcile CatalogCache | Fail go_error

definition aq_after :: "acquire \<Rightarrow> CatalogCheckpoint option" where
  "aq_after a = (if aq_Baseline a then None else cc_Checkpoint (aq_State a))"

definition aq_request :: "acquire \<Rightarrow> CatalogRequest" where
  "aq_request a =
     (if cc_Pending (aq_State a) \<noteq> []
      then \<lparr>cr_Version = CatalogVersion, cr_After = None, cr_Cursor = pg_NextCursor (last (cc_Pending (aq_State a))), cr_Limit = aq_Limit a\<rparr>
      else \<lparr>cr_Version = CatalogVersion, cr_After = aq_after a, cr_Cursor = [], cr_Limit = aq_Limit a\<rparr>)"

definition page_accepted :: "time_text \<Rightarrow> string \<Rightarrow> acquire \<Rightarrow> CatalogPage \<Rightarrow> check" where
  "page_accepted stamps repo a page = first_error
     [fail_if (pg_NextCursor page \<noteq> [] \<and> pg_NextCursor page \<in> set (aq_Cursors a)) ErrHashMismatch,
      fail_if (aq_Limit a < int (length (elems (pg_Entries page)))) ErrHashMismatch,
      ValidateCatalogPage stamps repo (aq_after a) (if cc_Pending (aq_State a) = [] then None else Some (last (cc_Pending (aq_State a)))) page]"

definition receive_page ::
  "time_text \<Rightarrow> string \<Rightarrow> CatalogPage \<Rightarrow> check \<Rightarrow> acquire \<Rightarrow> CatalogCache \<Rightarrow> CatalogCache \<times> outcome" where
  "receive_page stamps repo page fence a store =
     (let state = aq_State a;
          cursors = (if pg_NextCursor page = [] then aq_Cursors a else pg_NextCursor page # aq_Cursors a);
          img = completeCatalogImage (cc_Entries state) (cc_Pending state) page;
          manifest = (if pg_Checkpoint page = None then Inr None else bind_r (CatalogManifest stamps repo img) (\<lambda>m. Inr (Some m)))
      in case page_accepted stamps repo a page of
           Some err \<Rightarrow> (store, Fail err)
         | None \<Rightarrow>
             (case manifest of
                Inl err \<Rightarrow> (store, Fail err)
              | Inr m \<Rightarrow>
                  (case AppendCatalogPage stamps repo (cc_Generation state) page store of
                     Inl err \<Rightarrow> (store, Fail err)
                   | Inr store' \<Rightarrow>
                       (store',
                        case fence of
                          Some err \<Rightarrow> Fail err
                        | None \<Rightarrow>
                            (case m of
                               None \<Rightarrow> Continue (a\<lparr>aq_State := state\<lparr>cc_Generation := cc_Generation store', cc_Pending := cc_Pending state @ [page]\<rparr>,
                                                   aq_Cursors := cursors\<rparr>)
                             | Some result \<Rightarrow>
                                 if aq_Resumed a
                                 then Continue (a\<lparr>aq_State := \<lparr>cc_Generation = cc_Generation store', cc_Checkpoint = pg_Checkpoint page,
                                                                cc_Entries = img, cc_Pending = []\<rparr>,
                                                  aq_Resumed := False, aq_Baseline := False, aq_Cursors := []\<rparr>)
                                 else Return result)))))"

definition errBoundedResponse :: go_error where
  "errBoundedResponse = ErrText ''response exceeds bounded transport limit''"

text \<open>One turn of the loop; \<open>merkle\<close> says whether server and cache both support reconciliation.\<close>

definition acquire_step ::
  "time_text \<Rightarrow> string \<Rightarrow> bool \<Rightarrow> reply \<Rightarrow> acquire \<Rightarrow> CatalogCache \<Rightarrow> CatalogCache \<times> outcome" where
  "acquire_step stamps repo merkle r a store =
     (case r of
        Failed err \<Rightarrow> (store, Fail err)
      | TooLarge \<Rightarrow> (store, if aq_Limit a \<le> 1 then Fail errBoundedResponse else Continue (a\<lparr>aq_Limit := max 1 (aq_Limit a div 2)\<rparr>))
      | ResetRequired err \<Rightarrow>
          if aq_Resets a \<noteq> 0 then (store, Fail err)
          else if merkle \<and> cc_Checkpoint (aq_State a) \<noteq> None then (store, Reconcile (aq_State a))
          else (case ResetCatalogRun stamps repo (cc_Generation (aq_State a)) store of
                  Inl err \<Rightarrow> (store, Fail err)
                | Inr store' \<Rightarrow>
                    (store', Continue (a\<lparr>aq_State := (aq_State a)\<lparr>cc_Generation := cc_Generation store', cc_Pending := []\<rparr>,
                       aq_Baseline := True, aq_Resumed := False, aq_Resets := aq_Resets a + 1, aq_Cursors := []\<rparr>)))
      | Received page fence \<Rightarrow> receive_page stamps repo page fence a store)"

text \<open>Any number of clients over one cache: each starts by reading it and then takes turns; a client that reconciles installs an image.\<close>

type_synonym sync_state = "CatalogCache \<times> (nat \<Rightarrow> acquire option)"

inductive sync_step :: "time_text \<Rightarrow> string \<Rightarrow> sync_state \<Rightarrow> sync_state \<Rightarrow> bool" for stamps repo where
  start: "acquire_start stamps repo store = Inr a \<Longrightarrow> sync_step stamps repo (store, clients) (store, clients(i \<mapsto> a))"
| turn: "clients i = Some a \<Longrightarrow> acquire_step stamps repo merkle r a store = (store', out) \<Longrightarrow>
    sync_step stamps repo (store, clients) (store', clients(i := (case out of Continue a' \<Rightarrow> Some a' | _ \<Rightarrow> None)))"
| install: "InstallCatalogImage stamps repo expected cp entries store = Inr store' \<Longrightarrow>
    sync_step stamps repo (store, clients) (store', clients)"

inductive sync_reachable :: "time_text \<Rightarrow> string \<Rightarrow> sync_state \<Rightarrow> bool" for stamps repo where
  empty: "sync_reachable stamps repo (empty_cache, \<lambda>_. None)"
| step: "sync_reachable stamps repo s \<Longrightarrow> sync_step stamps repo s t \<Longrightarrow> sync_reachable stamps repo t"

section \<open>Staged runs\<close>

lemma see_entries_Inr:
  assumes "see_entries mode seen es = Inr seen'"
  shows "seen' = rev (map (\<lambda>e. (CatalogEntryIdentity e, ce_Sequence e)) es) @ seen"
    "mode = ''baseline'' \<Longrightarrow> distinct (map CatalogEntryIdentity es) \<and> (\<forall>e \<in> set es. CatalogEntryIdentity e \<notin> fst ` set seen)"
proof -
  show "seen' = rev (map (\<lambda>e. (CatalogEntryIdentity e, ce_Sequence e)) es) @ seen"
    using assms by (induction es arbitrary: seen) (auto split: if_splits)
  show "distinct (map CatalogEntryIdentity es) \<and> (\<forall>e \<in> set es. CatalogEntryIdentity e \<notin> fst ` set seen)" if "mode = ''baseline''"
    using assms
  proof (induction es arbitrary: seen)
    case (Cons e es)
    have "CatalogEntryIdentity e \<notin> fst ` set seen"
      using Cons.prems that by (auto simp: map_of_eq_None_iff split: if_splits option.splits)
    moreover have "see_entries mode ((CatalogEntryIdentity e, ce_Sequence e) # seen) es = Inr seen'"
      using Cons.prems by (simp split: if_splits)
    ultimately show ?case using Cons.IH [of "(CatalogEntryIdentity e, ce_Sequence e) # seen"] by auto
  qed simp
qed

lemma validateCatalogCachePage_Inr:
  assumes "validateCatalogCachePage stamps repo after previous p cursors seen = Inr (cursors', seen')"
  shows "ValidateCatalogPage stamps repo after previous p = None" "see_entries (pg_Mode p) seen (elems (pg_Entries p)) = Inr seen'"
    "cursors' = (if pg_NextCursor p = [] then cursors else pg_NextCursor p # cursors)"
    "pg_NextCursor p \<noteq> [] \<Longrightarrow> pg_NextCursor p \<notin> set cursors"
  using assms by (auto simp: validateCatalogCachePage_def split: if_splits)

lemma validate_run_page_run:
  "validate_run stamps repo after previous cursors seen ps = Inr r \<Longrightarrow> page_run stamps repo after previous ps"
  by (induction ps arbitrary: previous cursors seen) (auto dest: validateCatalogCachePage_Inr(1))

lemma validate_run_cursors:
  assumes "validate_run stamps repo after previous cursors seen ps = Inr r" "distinct cursors"
  shows "distinct (rev (filter (\<lambda>c. c \<noteq> []) (map pg_NextCursor ps)) @ cursors)"
  using assms
proof (induction ps arbitrary: previous cursors seen)
  case (Cons p ps)
  obtain cursors' seen' where page: "validateCatalogCachePage stamps repo after previous p cursors seen = Inr (cursors', seen')"
    and run: "validate_run stamps repo after (Some p) cursors' seen' ps = Inr r"
    using Cons.prems(1) by auto
  note facts = validateCatalogCachePage_Inr [OF page]
  have "distinct cursors'" using facts(3,4) Cons.prems(2) by auto
  from Cons.IH [OF run this] show ?case using facts(3,4) by (auto split: if_splits)
qed simp

lemma validate_run_seen:
  assumes "validate_run stamps repo None previous cursors seen ps = Inr r"
  shows "distinct (map CatalogEntryIdentity (run_entries ps)) \<and> (\<forall>e \<in> set (run_entries ps). CatalogEntryIdentity e \<notin> fst ` set seen)"
  using assms
proof (induction ps arbitrary: previous cursors seen)
  case Nil
  show ?case by (simp add: run_entries_def)
next
  case (Cons p ps)
  obtain cursors' seen' where page: "validateCatalogCachePage stamps repo None previous p cursors seen = Inr (cursors', seen')"
    and run: "validate_run stamps repo None (Some p) cursors' seen' ps = Inr r"
    using Cons.prems by auto
  note facts = validateCatalogCachePage_Inr [OF page]
  have mode: "pg_Mode p = ''baseline''" using page_shape(6) [OF page_valid [OF facts(1)]] by simp
  have own: "distinct (map CatalogEntryIdentity (elems (pg_Entries p)))" "\<forall>e \<in> set (elems (pg_Entries p)). CatalogEntryIdentity e \<notin> fst ` set seen"
    using see_entries_Inr(2) [OF facts(2) mode] by blast+
  have seen': "fst ` set seen' = CatalogEntryIdentity ` set (elems (pg_Entries p)) \<union> fst ` set seen"
    by (auto simp: see_entries_Inr(1) [OF facts(2)] image_image image_Un)
  have rest: "distinct (map CatalogEntryIdentity (run_entries ps))"
    "\<forall>e \<in> set (run_entries ps). CatalogEntryIdentity e \<notin> CatalogEntryIdentity ` set (elems (pg_Entries p)) \<and> CatalogEntryIdentity e \<notin> fst ` set seen"
    using Cons.IH [OF run] unfolding seen' by blast+
  have "CatalogEntryIdentity ` set (elems (pg_Entries p)) \<inter> CatalogEntryIdentity ` set (run_entries ps) = {}"
    using rest(2) unfolding disjoint_iff by (metis imageE)
  moreover have "run_entries (p # ps) = elems (pg_Entries p) @ run_entries ps" by (simp add: run_entries_def)
  ultimately show ?case using own rest by (simp add: ball_Un)
qed

text \<open>C38: a staged baseline that loads is a set. However many pages it has, and however its ref keys are spelled, no identity occurs
  twice and no cursor is repeated, so a resumed run cannot follow a cursor in a circle.\<close>

theorem staged_baseline_unique:
  assumes "loadCatalogCache stamps repo c = Inr c'" "cc_Pending c = p # ps" "pg_Mode p = ''baseline''"
  shows "distinct (map CatalogEntryIdentity (run_entries (cc_Pending c))) \<and>
    distinct (filter (\<lambda>k. k \<noteq> []) (map pg_NextCursor (cc_Pending c))) \<and> page_run stamps repo None None (cc_Pending c)"
proof -
  have "run_after (cc_Checkpoint c) (cc_Pending c) = None" using assms(2,3) by (simp add: run_after_def)
  then obtain r where run: "validate_run stamps repo None None [] [] (cc_Pending c) = Inr r"
    using assms(1) by (auto simp: loadCatalogCache_def)
  show ?thesis
    using validate_run_seen [OF run] validate_run_page_run [OF run] validate_run_cursors [OF run] by simp
qed

section \<open>Coherence of clients and cache\<close>

lemma manifest_live: "CatalogManifest stamps repo es = Inr r \<Longrightarrow> list_all (live_entry stamps repo) es"
  by (auto simp: CatalogManifest_def manifest_loop_Inr)

lemma append_image_complete:
  assumes "list_all (live_entry stamps repo) (cc_Entries c)"
  shows "append_image c page = completeCatalogImage (cc_Entries c) (cc_Pending c) page"
proof -
  have "\<forall>e \<in> set (cc_Entries c). \<not> ce_Deleted e" using assms by (simp add: list_all_iff live_entry_def)
  then show ?thesis
    unfolding completeCatalogImage_def append_image_def applyCatalogCacheEntries_def sortedCatalogCacheEntries_def
    by (simp add: fold_put Let_def)
qed

lemma next_generation: "g \<noteq> - 1 \<Longrightarrow> unat (g + 1) = Suc (unat (g :: 64 word))"
  by (metis add.commute add_eq_0_iff unatSuc)

lemma AppendCatalogPage_Inr:
  assumes "AppendCatalogPage stamps repo expected page c = Inr c'" "list_all (live_entry stamps repo) (cc_Entries c)"
  shows "cc_Generation c = expected" "unat (cc_Generation c') = Suc (unat (cc_Generation c))"
    "list_all (live_entry stamps repo) (cc_Entries c')"
    "pg_Checkpoint page = None \<Longrightarrow> c' = c\<lparr>cc_Generation := cc_Generation c + 1, cc_Pending := cc_Pending c @ [page]\<rparr>"
    "pg_Checkpoint page \<noteq> None \<Longrightarrow> c' = \<lparr>cc_Generation = cc_Generation c + 1, cc_Checkpoint = pg_Checkpoint page,
       cc_Entries = completeCatalogImage (cc_Entries c) (cc_Pending c) page, cc_Pending = []\<rparr>"
proof -
  have gen: "cc_Generation c = expected" "cc_Generation c \<noteq> - 1" using assms(1) by (auto simp: AppendCatalogPage_def)
  then have suc: "unat (cc_Generation c + 1) = Suc (unat (cc_Generation c))" by (simp add: next_generation)
  have partial: "c' = c\<lparr>cc_Generation := cc_Generation c + 1, cc_Pending := cc_Pending c @ [page]\<rparr>" if "pg_Checkpoint page = None"
    using assms(1) that by (auto simp: AppendCatalogPage_def)
  have final: "c' = \<lparr>cc_Generation = cc_Generation c + 1, cc_Checkpoint = pg_Checkpoint page,
       cc_Entries = completeCatalogImage (cc_Entries c) (cc_Pending c) page, cc_Pending = []\<rparr>"
    "list_all (live_entry stamps repo) (cc_Entries c')" if "pg_Checkpoint page \<noteq> None"
    using assms that by (auto simp: AppendCatalogPage_def append_current_def loadCatalogCache_def append_image_complete dest: manifest_live)
  show "cc_Generation c = expected" by (rule gen)
  show "unat (cc_Generation c') = Suc (unat (cc_Generation c))" "list_all (live_entry stamps repo) (cc_Entries c')"
    using partial final suc assms(2) by (cases "pg_Checkpoint page = None"; simp)+
qed (use assms in \<open>auto simp: AppendCatalogPage_def append_current_def loadCatalogCache_def append_image_complete\<close>)

lemma ResetCatalogRun_Inr:
  assumes "ResetCatalogRun stamps repo expected c = Inr c'"
  shows "cc_Generation c = expected" "unat (cc_Generation c') = Suc (unat (cc_Generation c))"
    "c' = c\<lparr>cc_Generation := cc_Generation c + 1, cc_Pending := []\<rparr>"
  using assms by (auto simp: ResetCatalogRun_def next_generation)

lemma InstallCatalogImage_Inr:
  assumes "InstallCatalogImage stamps repo expected cp entries c = Inr c'"
  shows "unat (cc_Generation c') = Suc (unat (cc_Generation c))" "list_all (live_entry stamps repo) (cc_Entries c')"
  using assms by (auto simp: InstallCatalogImage_def next_generation list_all_iff dest!: manifest_live)

lemma loadCatalogCache_Inr: "loadCatalogCache stamps repo c = Inr c' \<Longrightarrow> c' = c"
  by (simp add: loadCatalogCache_def)

text \<open>A client holds a copy of the cache as it was at the client's revision: it is never ahead, and at the same revision it is the cache.\<close>

definition copy_of :: "CatalogCache \<Rightarrow> CatalogCache \<Rightarrow> bool" where
  "copy_of store c \<longleftrightarrow> unat (cc_Generation c) \<le> unat (cc_Generation store) \<and> (cc_Generation c = cc_Generation store \<longrightarrow> c = store)"

definition coherent :: "time_text \<Rightarrow> string \<Rightarrow> sync_state \<Rightarrow> bool" where
  "coherent stamps repo s \<longleftrightarrow> list_all (live_entry stamps repo) (cc_Entries (fst s)) \<and>
     (\<forall>i a. snd s i = Some a \<longrightarrow> copy_of (fst s) (aq_State a))"

lemma copy_of_stale: "copy_of store c \<Longrightarrow> unat (cc_Generation store) < unat (cc_Generation store') \<Longrightarrow> copy_of store' c"
  by (auto simp: copy_of_def)

lemma receive_page_kept:
  assumes "receive_page stamps repo page fence a store = (store', out)" "copy_of store (aq_State a)"
    "list_all (live_entry stamps repo) (cc_Entries store)"
  shows "list_all (live_entry stamps repo) (cc_Entries store') \<and> (store' = store \<or> unat (cc_Generation store) < unat (cc_Generation store')) \<and>
    (\<forall>a'. out = Continue a' \<longrightarrow> aq_State a' = store') \<and>
    (\<forall>m snaps. out = Return (m, snaps) \<longrightarrow> CatalogManifest stamps repo (cc_Entries store') = Inr (m, snaps) \<and>
       cc_Checkpoint store' = pg_Checkpoint page \<and> pg_Checkpoint page \<noteq> None \<and> cc_Pending store' = [])"
proof (cases "AppendCatalogPage stamps repo (cc_Generation (aq_State a)) page store")
  case (Inl err)
  then show ?thesis using assms by (auto simp: receive_page_def Let_def split: option.splits sum.splits)
next
  case (Inr new)
  note facts = AppendCatalogPage_Inr [OF Inr assms(3)]
  have same: "aq_State a = store" using assms(2) facts(1) by (simp add: copy_of_def)
  show ?thesis
  proof (cases "pg_Checkpoint page = None")
    case True
    then show ?thesis using assms(1,3) facts(2,3,4) Inr
      by (auto simp: receive_page_def Let_def same split: option.splits sum.splits)
  next
    case False
    then show ?thesis using assms(1,3) facts(2,3,5) Inr
      by (auto simp: receive_page_def Let_def same split: option.splits sum.splits if_splits)
  qed
qed

lemma acquire_step_kept:
  assumes "acquire_step stamps repo merkle r a store = (store', out)" "copy_of store (aq_State a)"
    "list_all (live_entry stamps repo) (cc_Entries store)"
  shows "list_all (live_entry stamps repo) (cc_Entries store') \<and> (store' = store \<or> unat (cc_Generation store) < unat (cc_Generation store')) \<and>
    (\<forall>a'. out = Continue a' \<longrightarrow> copy_of store' (aq_State a'))"
proof (cases r)
  case (Received page fence)
  then have "receive_page stamps repo page fence a store = (store', out)" using assms(1) by (simp add: acquire_step_def)
  from receive_page_kept [OF this assms(2,3)] show ?thesis by (auto simp: copy_of_def)
next
  case (ResetRequired err)
  show ?thesis
  proof (cases "ResetCatalogRun stamps repo (cc_Generation (aq_State a)) store")
    case (Inl e)
    then show ?thesis using assms ResetRequired by (auto simp: acquire_step_def split: if_splits)
  next
    case (Inr new)
    note facts = ResetCatalogRun_Inr [OF Inr]
    have "aq_State a = store" using assms(2) facts(1) by (simp add: copy_of_def)
    then show ?thesis using assms ResetRequired Inr facts(2,3) by (auto simp: acquire_step_def copy_of_def split: if_splits)
  qed
qed (use assms in \<open>auto simp: acquire_step_def copy_of_def split: if_splits\<close>)

lemma sync_step_coherent:
  assumes "sync_step stamps repo s t" "coherent stamps repo s"
  shows "coherent stamps repo t"
  using assms
proof (induction rule: sync_step.induct)
  case (start store a clients i)
  then have "aq_State a = store" by (auto simp: acquire_start_def Let_def dest: loadCatalogCache_Inr)
  then show ?case using start by (auto simp: coherent_def copy_of_def)
next
  case (turn clients i a merkle r store store' out)
  have "copy_of store (aq_State a)" "list_all (live_entry stamps repo) (cc_Entries store)"
    using turn by (auto simp: coherent_def)
  note kept = acquire_step_kept [OF turn(2) this]
  have "copy_of store' c" if "copy_of store c" for c using kept copy_of_stale [OF that] that by auto
  then show ?case using kept turn.prems by (auto simp: coherent_def split: outcome.splits)
next
  case (install expected cp entries store store' clients)
  note facts = InstallCatalogImage_Inr [OF install.hyps]
  then show ?case using install.prems copy_of_stale [of store _ store'] by (auto simp: coherent_def)
qed

lemma sync_coherent: "sync_reachable stamps repo s \<Longrightarrow> coherent stamps repo s"
proof (induction rule: sync_reachable.induct)
  case empty
  show ?case by (simp add: coherent_def empty_cache_def)
next
  case (step s t)
  then show ?case by (simp add: sync_step_coherent)
qed

text \<open>C39: however several clients interleave over one cache, with resets and installed images between their turns, a client that
  returns a manifest returns that of the image in the cache: its last page was applied to the very cache it had read, its
  own image equals the stored one, nothing staged is left and the checkpoint is that of the page.\<close>

theorem acquire_returns_stored:
  assumes "sync_reachable stamps repo (store, clients)" "clients i = Some a"
    "acquire_step stamps repo merkle r a store = (store', Return (m, snaps))"
  shows "\<exists>page fence. r = Received page fence \<and> aq_State a = store \<and>
    cc_Entries store' = completeCatalogImage (cc_Entries (aq_State a)) (cc_Pending (aq_State a)) page \<and>
    CatalogManifest stamps repo (cc_Entries store') = Inr (m, snaps) \<and>
    pg_Checkpoint page \<noteq> None \<and> cc_Checkpoint store' = pg_Checkpoint page \<and> cc_Pending store' = [] \<and>
    cc_Generation store' = cc_Generation store + 1"
proof -
  have ok: "copy_of store (aq_State a)" "list_all (live_entry stamps repo) (cc_Entries store)"
    using sync_coherent [OF assms(1)] assms(2) by (auto simp: coherent_def)
  obtain page fence where r: "r = Received page fence"
    using assms(3) by (cases r) (auto simp: acquire_step_def split: if_splits sum.splits)
  have receive: "receive_page stamps repo page fence a store = (store', Return (m, snaps))"
    using assms(3) by (simp add: acquire_step_def r)
  then have append: "AppendCatalogPage stamps repo (cc_Generation (aq_State a)) page store = Inr store'"
    by (auto simp: receive_page_def Let_def split: option.splits sum.splits)
  note facts = AppendCatalogPage_Inr [OF append ok(2)]
  have "aq_State a = store" using ok(1) facts(1) by (simp add: copy_of_def)
  then show ?thesis using r receive_page_kept [OF receive ok] facts(5) by auto
qed

section \<open>Examples\<close>

definition staged_cache :: "CatalogPage list \<Rightarrow> CatalogCache" where
  "staged_cache ps = empty_cache\<lparr>cc_Generation := of_nat (length ps), cc_Pending := ps\<rparr>"

lemma sample_page_simps [simp]:
  "pg_Mode (sample_page cursor e) = ''baseline''" "pg_NextCursor (sample_page cursor e) = cursor"
  "elems (pg_Entries (sample_page cursor e)) = [e]" "cursor \<noteq> [] \<Longrightarrow> pg_Checkpoint (sample_page cursor e) = None"
  by (simp_all add: sample_page_def Let_def)

lemma run_entries_Cons [simp]: "run_entries [] = []" "run_entries (p # ps) = elems (pg_Entries p) @ run_entries ps"
  by (simp_all add: run_entries_def)

definition alias_a :: CatalogEntry where "alias_a = sample_ref 1 (alias_text ''branch'' ''a'') ''a''"
definition alias_b :: CatalogEntry where "alias_b = sample_ref 2 (alias_text ''branch'' ''b'') ''b''"
definition plain_a :: CatalogEntry where "plain_a = sample_ref 3 (key_text ''branch'' ''a'') ''a''"

lemma alias_entries:
  "ValidateCatalogEntry stamps catalog_hash alias_a = None" "ValidateCatalogEntry stamps catalog_hash alias_b = None"
  "ValidateCatalogEntry stamps catalog_hash plain_a = None"
  "ce_Sequence alias_a = 1" "ce_Sequence alias_b = 2" "ce_Sequence plain_a = 3"
  "\<not> ce_Deleted alias_a" "\<not> ce_Deleted alias_b" "\<not> ce_Deleted plain_a"
  "CatalogEntryIdentity alias_a \<noteq> CatalogEntryIdentity alias_b" "CatalogEntryIdentity alias_b \<noteq> CatalogEntryIdentity plain_a"
  "CatalogEntryIdentity plain_a = CatalogEntryIdentity alias_a"
  "catalogEntryLess alias_a alias_b ''baseline''" "catalogEntryLess alias_b plain_a ''baseline''"
  unfolding alias_a_def alias_b_def plain_a_def
  by (simp_all add: sample_ref_valid) (simp_all add: catalogEntryLess_def sample_keys sample_quoted less_char_def)

lemma alias_chain:
  "ValidateCatalogPage stamps catalog_hash None None (sample_page ''1'' alias_a) = None"
  "ValidateCatalogPage stamps catalog_hash None (Some (sample_page ''1'' alias_a)) (sample_page ''2'' alias_b) = None"
  "ValidateCatalogPage stamps catalog_hash None (Some (sample_page ''2'' alias_b)) (sample_page ''3'' plain_a) = None"
  by (simp_all add: sample_page_follows alias_entries alias_entries(10) [symmetric] ValidateCatalogPage_def [of _ _ _ None] sample_page_shape)

definition alias_run :: "CatalogPage list" where
  "alias_run = [sample_page ''1'' alias_a, sample_page ''2'' alias_b, sample_page ''3'' plain_a]"

lemma stage_alias_pages:
  "AppendCatalogPage stamps catalog_hash 0 (sample_page ''1'' alias_a) empty_cache = Inr (staged_cache (take 1 alias_run))"
  "AppendCatalogPage stamps catalog_hash 1 (sample_page ''2'' alias_b) (staged_cache (take 1 alias_run)) = Inr (staged_cache (take 2 alias_run))"
  "AppendCatalogPage stamps catalog_hash 2 (sample_page ''3'' plain_a) (staged_cache (take 2 alias_run)) = Inr (staged_cache alias_run)"
  by (simp_all add: AppendCatalogPage_def append_current_def append_check_def validateCatalogCachePage_def readCatalogCacheHead_def
      staged_cache_def empty_cache_def alias_run_def alias_chain alias_entries alias_entries(10) [symmetric] Let_def)

lemma staged_first_loads: "loadCatalogCache stamps catalog_hash (staged_cache (take 2 alias_run)) = Inr (staged_cache (take 2 alias_run))"
  by (simp add: loadCatalogCache_def readCatalogCacheHead_def run_after_def validateCatalogCachePage_def
      staged_cache_def empty_cache_def alias_run_def alias_chain alias_entries alias_entries(10) [symmetric])

lemma staged_alias_stuck: "loadCatalogCache stamps catalog_hash (staged_cache alias_run) = Inl ErrHashMismatch"
  by (simp add: loadCatalogCache_def readCatalogCacheHead_def run_after_def validateCatalogCachePage_def check_of_def
      staged_cache_def empty_cache_def alias_run_def alias_chain alias_entries alias_entries(10) [symmetric])

theorem staged_baseline_unique_witness:
  "distinct (map CatalogEntryIdentity (run_entries (cc_Pending (staged_cache (take 2 alias_run)))))"
  using staged_baseline_unique [OF staged_first_loads [of "\<lambda>_. None"], of "sample_page ''1'' alias_a" "[sample_page ''2'' alias_b]"]
  by (simp add: staged_cache_def alias_run_def)

text \<open>C40: staging a partial page compares it with the tail only. A server that spells one ref key in two ways on pages further apart gets
  both staged, page by page, through all checks of the client as well; from then on the cache neither loads nor can be reset
  or replaced, because each of these operations first loads it.\<close>

theorem staged_alias_wedges_cache:
  "AppendCatalogPage stamps catalog_hash 2 (last alias_run) (staged_cache (butlast alias_run)) = Inr (staged_cache alias_run) \<and>
   page_run stamps catalog_hash None None alias_run \<and>
   acquire_start stamps catalog_hash (staged_cache alias_run) = Inl ErrHashMismatch \<and>
   ResetCatalogRun stamps catalog_hash g (staged_cache alias_run) = Inl ErrHashMismatch \<and>
   InstallCatalogImage stamps catalog_hash g cp es (staged_cache alias_run) = Inl ErrHashMismatch \<and>
   AppendCatalogPage stamps catalog_hash g (sample_page [] e) (staged_cache alias_run) = Inl ErrHashMismatch"
proof -
  have "page_run stamps catalog_hash None None alias_run" by (simp add: alias_run_def alias_chain)
  moreover have "last alias_run = sample_page ''3'' plain_a" "butlast alias_run = take 2 alias_run" by (simp_all add: alias_run_def)
  moreover have "pg_Checkpoint (sample_page [] e) \<noteq> None" by (simp add: sample_page_def Let_def)
  ultimately show ?thesis
    using stage_alias_pages(3) [of stamps]
    by (simp add: acquire_start_def ResetCatalogRun_def InstallCatalogImage_def AppendCatalogPage_def [of _ _ g]
        append_current_def staged_alias_stuck)
qed

definition image_page :: CatalogPage where
  "image_page = (sample_page [] sample_protocol)\<lparr>pg_Entries := Some sample_image\<rparr>"

lemma image_page_simps [simp]:
  "pg_Mode image_page = ''baseline''" "pg_NextCursor image_page = []" "elems (pg_Entries image_page) = sample_image"
  "pg_Checkpoint image_page \<noteq> None"
  by (simp_all add: image_page_def sample_page_def Let_def)

lemma sample_image_facts:
  "ValidateCatalogEntry stamps catalog_hash sample_protocol = None"
  "sample_image = [sample_protocol, plain_a]" "catalogEntryLess sample_protocol plain_a ''baseline''"
  "ce_Sequence sample_protocol = 1" "\<not> ce_Deleted sample_protocol" "CatalogEntryIdentity sample_protocol \<noteq> CatalogEntryIdentity plain_a"
  "ce_Kind sample_protocol = ''protocol''" "ce_Kind plain_a = ''ref''"
proof -
  show img: "sample_image = [sample_protocol, plain_a]" by (simp add: sample_image_def plain_a_def)
  show "ValidateCatalogEntry stamps catalog_hash sample_protocol = None" by (simp add: ValidateCatalogEntry_def sample_protocol_valid)
  show "CatalogEntryIdentity sample_protocol \<noteq> CatalogEntryIdentity plain_a" using sample_image_live(2) by (simp add: img)
qed (simp_all add: catalogEntryLess_def sample_protocol_def plain_a_def less_char_def)

lemma image_page_valid: "ValidateCatalogPage stamps catalog_hash None None image_page = None"
proof -
  have "validateCatalogPageShape stamps catalog_hash None image_page = None"
    using sample_epoch_valid catalog_hash_valid
    by (simp add: validateCatalogPageShape_def ValidateCatalogCheckpoint_def MaxCatalogLimit_def image_page_def sample_page_def Let_def
        page_checkpoint_def sample_image_facts sample_image_facts(6) [symmetric] alias_entries(3,6,9))
  then show ?thesis by (simp add: ValidateCatalogPage_def)
qed

lemma image_page_image: "completeCatalogImage [] [] image_page = sample_image"
  by (simp add: completeCatalogImage_def sample_image_facts sample_image_facts(6) [symmetric] apply_entry_def put_entry_def
      alias_entries(9) less_char_def less_le_not_le Let_def)

lemma image_page_step:
  "\<exists>a store' m snaps. acquire_start stamps catalog_hash empty_cache = Inr a \<and>
     acquire_step stamps catalog_hash False (Received image_page None) a empty_cache = (store', Return (m, snaps))"
proof -
  obtain m snaps where m: "CatalogManifest stamps catalog_hash sample_image = Inr (m, snaps)" using sample_manifest by blast
  have load: "loadCatalogCache stamps catalog_hash empty_cache = Inr empty_cache"
    by (simp add: loadCatalogCache_def readCatalogCacheHead_def empty_cache_def run_after_def)
  have img: "append_image empty_cache image_page = sample_image"
    by (subst append_image_complete [of stamps catalog_hash]) (simp_all add: empty_cache_def image_page_image)
  have "append_check stamps catalog_hash empty_cache image_page = None"
    using sample_image_facts(6)
    by (simp add: append_check_def validateCatalogCachePage_def empty_cache_def image_page_valid sample_image_facts(2) Let_def)
  then have append: "\<exists>store'. AppendCatalogPage stamps catalog_hash 0 image_page empty_cache = Inr store'"
    using m by (simp add: AppendCatalogPage_def append_current_def load img) (simp add: empty_cache_def)
  obtain a where a: "acquire_start stamps catalog_hash empty_cache = Inr a" "aq_State a = empty_cache" "aq_Baseline a" "\<not> aq_Resumed a" "aq_Limit a = 256"
    by (simp add: acquire_start_def load Let_def) (simp add: validateCatalogCache_def empty_cache_def catalogPageLimit_def)
  then have "page_accepted stamps catalog_hash a image_page = None"
    by (simp add: page_accepted_def aq_after_def empty_cache_def image_page_valid sample_image_facts(2))
  then show ?thesis using a m append
    by (auto simp: acquire_step_def receive_page_def Let_def image_page_image empty_cache_def)
qed

theorem acquire_returns_stored_witness:
  "\<exists>(store' :: CatalogCache) m snaps. CatalogManifest (\<lambda>_. None) catalog_hash (cc_Entries store') = Inr (m, snaps) \<and> cc_Pending store' = [] \<and>
     cc_Checkpoint store' = pg_Checkpoint image_page"
proof -
  obtain a store' m snaps where a: "acquire_start (\<lambda>_. None) catalog_hash empty_cache = Inr a"
    "acquire_step (\<lambda>_. None) catalog_hash False (Received image_page None) a empty_cache = (store', Return (m, snaps))"
    using image_page_step by blast
  have "sync_reachable (\<lambda>_. None) catalog_hash (empty_cache, (\<lambda>_. None)(0 \<mapsto> a))"
    by (rule sync_reachable.step [OF sync_reachable.empty sync_step.start [OF a(1)]])
  from acquire_returns_stored [OF this _ a(2), of 0]
  have "CatalogManifest (\<lambda>_. None) catalog_hash (cc_Entries store') = Inr (m, snaps) \<and> cc_Pending store' = [] \<and>
      cc_Checkpoint store' = pg_Checkpoint image_page"
    by auto
  then show ?thesis by blast
qed

end
