(* ===== verification/Spec2Isabelle.thy ===== *)
theory Spec2Isabelle
  imports PlanSafety HistoryQuery BranchPull Prompt Claims Capture Reservation CalibrationStore CatalogSync
begin

text \<open>
  \<^bold>\<open>Verification of the context domain of CXTHub.\<close>

  CXTHub keeps the conversations of coding agents beside the Git history they belong to. Its command-line
  client (\<open>src/cli\<close>) captures sessions as content-addressed snapshots, records every operation as an
  immutable history event, plans what a push may publish, checks what a pull receives, and distils memory
  for prompts; the server (\<open>src/backend\<close>) stores and serves the same objects. The rules all of this obeys
  are the pure functions of \<open>src/cli/internal/domain\<close>. This library models those functions as written and
  proves what they promise, together with two pieces of the layers around them: the store of input calibrations and the
  acquisition of the catalog. File names below are relative to that directory unless a path is given.

  \<^bold>\<open>Theories and sources.\<close>

  \<^item> \<open>Prelude\<close>: errors as values (\<open>errors.go\<close>), validators as sequences of guards, nil-able slices, times,
    byte strings and the functions of package \<open>strings\<close> on them.
  \<^item> \<open>Hashing\<close>: SHA-256 and \<open>HashContent\<close> (\<open>hash.go\<close>), computed on bytes. \<open>Json\<close>: what \<open>json.Marshal\<close> prints for
    the structs that are hashed. \<open>JsonRead\<close>: what \<open>json.Decoder\<close> reads back, and \<open>canonicalJSON\<close> (\<open>hash.go\<close>). \<open>Utf8\<close>: runes,
    \<open>TrimSpace\<close>, \<open>Fields\<close>, \<open>ToLower\<close>.
  \<^item> \<open>Refs\<close>: names, refs and branch lifecycle tags (\<open>values.go\<close>, \<open>branch_lifecycle.go\<close>). \<open>Events\<close>: history events
    and their validation (\<open>history.go\<close>, \<open>pull_request.go\<close>, \<open>git_creation.go\<close>).
  \<^item> \<open>Kahn\<close>: the topological sort with a priority queue that several components use, in a locale
    \<open>kahn_graph\<close> over its graph. \<open>Branches\<close>: replay order and branch projection (\<open>context_branch.go\<close>).
  \<^item> \<open>Snapshots\<close>: reachability and ancestry (\<open>entities.go\<close>, \<open>publication_history.go\<close>). \<open>Publication\<close>,
    \<open>Projection\<close>, \<open>Planning\<close>, \<open>PlanSafety\<close>: what a push sends and in which order (\<open>publication_groups.go\<close>,
    \<open>publication_projection.go\<close>, \<open>publication_plan.go\<close>); the recursive visitor is reasoned about in a
    locale \<open>publication_visitor\<close>.
  \<^item> \<open>Tracking\<close> (\<open>tracking.go\<close>, \<open>context_pin.go\<close>), \<open>BranchPull\<close> (\<open>branch_pull.go\<close>, \<open>branch_pull_validate.go\<close>) and
    \<open>HistoryQuery\<close> (\<open>history_query.go\<close>): what is accepted from a server.
  \<^item> \<open>Fallback\<close>, \<open>Memory\<close>, \<open>Replay\<close> (\<open>entities.go\<close>, \<open>memory_sequence.go\<close>), \<open>Claims\<close> (\<open>memory_claims.go\<close>), \<open>Prompt\<close>
    (\<open>memory_prompt.go\<close>): the text format of conversation fallbacks, digests and their merging, projections
    for prompts, and declared claims.
  \<^item> \<open>Staging\<close> (\<open>staging.go\<close>, \<open>document_identity.go\<close>, \<open>working_position.go\<close>) and \<open>Capture\<close> (\<open>capture_recovery.go\<close>,
    \<open>frozen_capture.go\<close>): the local index and the journal of captures.
  \<^item> \<open>Budget\<close> (\<open>agent_context_budget.go\<close>, \<open>agent_input_accounting.go\<close>, \<open>agent_input_calibration.go\<close>) and \<open>Reservation\<close>
    (\<open>agent_initial_prompt.go\<close>, \<open>agent_context.go\<close>, \<open>agent_bootstrap.go\<close>, \<open>effective_memory.go\<close>): how much input an agent is
    given and what a reserved prompt authorises. \<open>CalibrationStore\<close>: the files that keep measured feedback
    (\<open>adapters/storage/agent_input_calibration.go\<close>, \<open>app/agent_input_calibration.go\<close>), with a locale \<open>calibration_store\<close>
    for what the application relies on.
  \<^item> \<open>Catalog\<close> (\<open>catalog.go\<close>, \<open>catalog_decode.go\<close>, \<open>catalog_validate.go\<close>, \<open>snapshot_state.go\<close>), \<open>CatalogImage\<close> and \<open>CatalogSync\<close>
    (\<open>adapters/backendclient/catalog_delta.go\<close>, \<open>adapters/storage/catalog_cache.go\<close>): entries, pages and images of the
    metadata of a repository, and how clients acquire them through a shared cache.

  \<^bold>\<open>Correspondence.\<close> A struct is a record whose fields keep the Go names behind a short prefix; an exported
  function or method keeps its name, a method \<open>Validate\<close> is called \<open>Validate\<close> and the type. Closures and loop
  bodies of a long function are definitions of their own, in the order of the code. A function that returns
  an error is a \<open>check\<close> (no error is \<open>None\<close>) or a \<open>result\<close> (an error is \<open>Inl\<close>); a wrapped error is the sentinel it
  wraps. A Go map is a map or a list of pairs, a map used as a set is a list; \<open>sort.Slice\<close> is \<open>sort_key\<close>, used on
  keys that differ. \<open>uint64\<close> and \<open>uint32\<close> are words, so that their wrap-around is visible; \<open>int\<close> and \<open>int64\<close>
  values are \<open>int\<close>, where the code bounds them first; the arithmetic of budgets goes through \<open>int64\<close>, which wraps.

  \<^bold>\<open>What is shown.\<close> Refs: tags round-trip, election is the greatest recorded event and agrees with the one-pass
  projection, a new generation supersedes all older ones and never wraps, names stay inside their directory.
  Events and branches: a validated event is well typed; the replay order is sound, fails exactly on conflicts,
  gaps and cycles, and depends on the set of events only; the projection keeps names and identities in one-to-one
  correspondence and its changes are compare-and-swap. Publication: the ancestry is exact and its walk total;
  groups are complete and put descendants first; a plan's payload is closed, authorised and ordered, and moves
  authorised refs only. Remote input: proofs, attachments, answers, pages and inventories are bound to the
  request, closed, and make progress. Memory: the fallback text loses nothing; merging a sequence is the pairwise
  fold and loses no contribution; projections remove exactly what is replayed; a prompt shows only worthy facts
  and the latest authoritative tasks; the claims check is exact. Local state: consuming staged entries removes
  exactly the unchanged ones and keeps the index valid; a complete capture accounts for every provider and byte.
  Agent input: a budget never overcommits the window and nothing wraps; feedback tightens it, is never lost in the files, and
  a limit that failed is not tried again; a reservation binds its prompt. JSON: reading what was printed gives it back, and
  canonical JSON is a fixed point. Catalog: runs of pages are ordered and consistent, an image keeps the last live entry of
  every identity, its manifest says exactly what it holds, and interleaved clients return only what the cache stores. One
  theorem shows a defect: \<open>staged_alias_wedges_cache\<close>.

  \<^bold>\<open>Fuel and termination.\<close> Recursions through stored graphs carry fuel: the snapshot walk and the history walk as
  much as there are snapshots, the visitor as much as there are catalogued events, one more for the first call.
  A path without a cycle cannot be longer, and theorems state that the fuel never runs out
  (\<open>publicationAncestry_complete\<close>, \<open>visit_terminates\<close>). All other recursions are structural or have a measure.

  \<^bold>\<open>Arguments that stand for code outside the model.\<close> \<open>memory_owners\<close> in \<open>Tracking\<close> is the callback the code is
  given. \<open>case_table\<close> is the Unicode case table for characters outside ASCII. \<open>clock\<close> in \<open>Staging\<close> prints a time
  whose location is abstract in the model; \<open>rfc3339\<close> in \<open>Budget\<close> and \<open>stamps\<close> in \<open>Catalog\<close> read one.

  \<^bold>\<open>Not modelled.\<close> The conversation documents (\<open>cir.go\<close> and what verifies, diffs or chunks them), which hold raw
  provider JSON, and the packages of agent context that carry their events; the envelope of catalog pages on the wire, whose
  decoding keeps raw bytes; the layout of the catalog cache in files; small transport records. The other
  application layers, adapters, commands, stores, HTTP and MCP servers, workers, the web
  front end, migrations and deployment are input and output around these rules. The server has its own copies of
  several domain rules, which are not compared with the client's here.
\<close>

section \<open>Properties that span components\<close>

text \<open>C33: a limit that failed is not tried again. When a turn prepared under a budget is rejected for its input, or compacted at
  once, and the feedback is recorded with any other observations in any order, then every budget that is later resolved for the
  same runtime scope, from the capability that the stored feedback was added to, has an input limit strictly below the failed one.\<close>

theorem failed_limit_not_repeated:
  assumes "ObserveInput rfc3339 b packageID selected ob = Inr (fb, retry)" "capability_int64 (capability b)"
    and "io_Outcome ob \<in> {''input_rejected'', ''initial_compaction''}"
    and "intact_disk files" "list_all (\<lambda>k. calibration_ok k \<and> calibration_int64 k) obs" "fb \<in> set obs"
    and "AgentCapability (Some runtime) (Some (ReadAgentInputCalibration (run_merges MergeAgentInputCalibration obs files))) provider model = Inr c"
    and "CalibrationScope c = Inr (ic_Scope fb)" "capability_int64 c"
    and "ResolveBudget rfc3339 c provider model requested counter = Inr b'"
  shows "ab_InitialInputLimit b' < ab_InitialInputLimit b"
proof -
  have fb: "calibration_ok fb" "0 < ic_InputCeilingTokens fb" "ic_InputCeilingTokens fb < ab_InitialInputLimit b"
    using ObserveInput_facts [OF assms(1,2)] assms(3) by auto
  note c = AgentCapability_measured [OF assms(7,8)]
  have "MergeCalibration (hc_Calibration c) fb = Inr (hc_Calibration c)"
    using recorded_feedback [OF assms(4,5) refl calibration_ok_scope [OF fb(1)]] assms(6) c by auto
  then have "0 < ic_InputCeilingTokens (hc_Calibration c)" "ic_InputCeilingTokens (hc_Calibration c) \<le> ic_InputCeilingTokens fb"
    using Merge_absorbed fb(2) by blast+
  then show ?thesis
    using ResolveBudget_ceiling [OF assms(10,9)] c fb(3) by linarith
qed

theorem failed_limit_not_repeated_witness:
  "\<exists>b'. ResolveBudget (\<lambda>_. True) sample_next ''codex'' ''m'' 800000 sample_usage = Inr b' \<and>
     ab_InitialInputLimit b' < ab_InitialInputLimit sample_measured_budget"
proof -
  have "capability_int64 sample_next"
    by (simp add: sample_next_def sample_feedback_def capability_int64_def in_int64_def)
  moreover have "io_Outcome sample_observation \<in> {''input_rejected'', ''initial_compaction''}"
    by (simp add: sample_observation_def)
  moreover have "list_all (\<lambda>k. calibration_ok k \<and> calibration_int64 k) [sample_feedback]" "sample_feedback \<in> set [sample_feedback]"
    using sample_feedback_ok by simp_all
  ultimately show ?thesis
    using failed_limit_not_repeated [OF sample_observed sample_measured_int64 _ empty_disk_intact _ _
        sample_next_capability [unfolded sample_disk_def] sample_next_scope _ sample_next_resolves]
      sample_next_resolves by blast
qed

end
